(* ===== verification/Prelude.thy ===== *)
theory Prelude
  imports Complex_Main "HOL-Library.AList" "HOL-Library.Char_ord" "HOL-Library.List_Lexorder"
begin

text \<open>
  Shared vocabulary of the development: Python exceptions as values, the error monad, the
  state-passing combinator used for code with effects, Python string operations, and
  insertion-ordered dictionaries as association lists.

  Text: a \<open>string\<close> holds the UTF-8 bytes of a Python \<open>str\<close>. Concatenation,
  comparison, searching, percent-encoding and JSON output are exact on that representation;
  slicing by characters goes through \<open>cp_take\<close>. Case mapping and whitespace are the ASCII
  ones (\<open>lower\<close>, \<open>upper\<close>, \<open>strip\<close> leave every byte above 127 alone).
\<close>

section \<open>Rule collections\<close>

named_theorems py_simps "unfolding rules of the Python operations"
named_theorems py_dest "what a successful result says about the computation"
named_theorems trace_ext "operations only ever append to the history of interactions"

section \<open>Exceptions\<close>

text \<open>
  One constructor per exception class of the repository, with the text the code gives it, and
  \<open>PyError\<close> for an exception of Python or of a library: its class name and its text.
\<close>

datatype exn =
    DispatchError (de_message: string) (de_code: int) (de_kind: string) (de_status: "int option")
  | MissingTokenError string
  | InvalidTokenError string
  | GongdanUpstreamError string
  | ConfigValidationError "string list"
  | HTTPException int string
  | PyError string string

type_synonym 'a res = "exn + 'a"

abbreviation RuntimeError :: "string \<Rightarrow> exn" where
  "RuntimeError m \<equiv> PyError ''RuntimeError'' m"

definition config_error :: "string \<Rightarrow> exn" where
  "config_error m = DispatchError m (-32603) ''config_error'' None"

abbreviation TypeError :: "string \<Rightarrow> exn" where
  "TypeError m \<equiv> PyError ''TypeError'' m"

abbreviation ValueError :: "string \<Rightarrow> exn" where
  "ValueError m \<equiv> PyError ''ValueError'' m"

abbreviation AttributeError :: "string \<Rightarrow> exn" where
  "AttributeError m \<equiv> PyError ''AttributeError'' m"

section \<open>Composition of fallible and of stateful code\<close>

definition bindE :: "'e + 'a \<Rightarrow> ('a \<Rightarrow> 'e + 'b) \<Rightarrow> 'e + 'b" where
  "bindE m f = (case m of Inl e \<Rightarrow> Inl e | Inr x \<Rightarrow> f x)"

text \<open>
  A stateful step returns its outcome and the new state; \<open>andThen\<close> runs the next step on
  them, and an exception skips it but keeps the state reached so far.
\<close>

definition andThen :: "('e + 'a) \<times> 's \<Rightarrow> ('a \<Rightarrow> 's \<Rightarrow> ('e + 'b) \<times> 's) \<Rightarrow> ('e + 'b) \<times> 's" where
  "andThen m f = (case m of (Inl e, s) \<Rightarrow> (Inl e, s) | (Inr x, s) \<Rightarrow> f x s)"

lemma bindE_simps [simp]: "bindE (Inl e) f = Inl e" "bindE (Inr x) f = f x"
  by (simp_all add: bindE_def)

lemma bindE_eq_Inr [py_dest]: "bindE m f = Inr y \<longleftrightarrow> (\<exists>x. m = Inr x \<and> f x = Inr y)"
  by (cases m) auto

lemma bindE_eq_Inl: "bindE m f = Inl e \<longleftrightarrow> m = Inl e \<or> (\<exists>x. m = Inr x \<and> f x = Inl e)"
  by (cases m) auto

lemma andThen_simps [simp]: "andThen (Inl e, s) f = (Inl e, s)" "andThen (Inr x, s) f = f x s"
  by (simp_all add: andThen_def)

lemma andThen_eq_Inr [py_dest]:
  "andThen m f = (Inr y, s') \<longleftrightarrow> (\<exists>x s. m = (Inr x, s) \<and> f x s = (Inr y, s'))"
  by (cases m; cases "fst m") auto

lemma andThen_eq_Inl:
  "andThen m f = (Inl e, s') \<longleftrightarrow> m = (Inl e, s') \<or> (\<exists>x s. m = (Inr x, s) \<and> f x s = (Inl e, s'))"
  by (cases m; cases "fst m") auto

fun mapE :: "('a \<Rightarrow> 'e + 'b) \<Rightarrow> 'a list \<Rightarrow> 'e + 'b list" where
  "mapE f [] = Inr []"
| "mapE f (x # xs) = bindE (f x) (\<lambda>y. bindE (mapE f xs) (\<lambda>ys. Inr (y # ys)))"

lemma mapE_Inr_iff:
  "mapE f xs = Inr ys \<longleftrightarrow> list_all2 (\<lambda>x y. f x = Inr y) xs ys"
  by (induction xs arbitrary: ys) (auto simp: bindE_eq_Inr list_all2_Cons1)

section \<open>Strings\<close>

text \<open>Whitespace of \<open>str.strip\<close> and \<open>str.split\<close> below 128.\<close>

definition is_space :: "char \<Rightarrow> bool" where
  "is_space c = (let n = of_char c :: nat in n = 32 \<or> (9 \<le> n \<and> n \<le> 13) \<or> (28 \<le> n \<and> n \<le> 31))"

definition lower_char :: "char \<Rightarrow> char" where
  "lower_char c = (let n = of_char c :: nat in if 65 \<le> n \<and> n \<le> 90 then char_of (n + 32) else c)"

definition upper_char :: "char \<Rightarrow> char" where
  "upper_char c = (let n = of_char c :: nat in if 97 \<le> n \<and> n \<le> 122 then char_of (n - 32) else c)"

definition lower :: "string \<Rightarrow> string" where "lower s = map lower_char s"

definition upper :: "string \<Rightarrow> string" where "upper s = map upper_char s"

definition lstrip :: "string \<Rightarrow> string" where "lstrip s = dropWhile is_space s"

definition rstrip :: "string \<Rightarrow> string" where "rstrip s = rev (dropWhile is_space (rev s))"

definition strip :: "string \<Rightarrow> string" where "strip s = rstrip (lstrip s)"

text \<open>\<open>s.rstrip("/")\<close>.\<close>

definition rstrip_slash :: "string \<Rightarrow> string" where
  "rstrip_slash s = rev (dropWhile (\<lambda>c. c = CHR ''/'') (rev s))"

fun startswith :: "string \<Rightarrow> string \<Rightarrow> bool" where
  "startswith [] s = True"
| "startswith (p # ps) [] = False"
| "startswith (p # ps) (c # cs) = (p = c \<and> startswith ps cs)"

text \<open>\<open>pat in s\<close>.\<close>

fun contains :: "string \<Rightarrow> string \<Rightarrow> bool" where
  "contains pat [] = (pat = [])"
| "contains pat (c # cs) = (startswith pat (c # cs) \<or> contains pat cs)"

text \<open>\<open>sep.join(xs)\<close>.\<close>

fun join :: "string \<Rightarrow> string list \<Rightarrow> string" where
  "join sep [] = []"
| "join sep [x] = x"
| "join sep (x # y # zs) = x @ sep @ join sep (y # zs)"

text \<open>
  The text between the first and second occurrence counts of a separator character:
  \<open>s.split(c, 1)\<close> as the part before the first \<open>c\<close> and, if there is one, the part after.
\<close>

fun split_once :: "char \<Rightarrow> string \<Rightarrow> string \<times> string option" where
  "split_once d [] = ([], None)"
| "split_once d (c # cs) =
     (if c = d then ([], Some cs)
      else (case split_once d cs of (a, b) \<Rightarrow> (c # a, b)))"

text \<open>\<open>s[:n]\<close> counted in characters: a byte \<open>10xxxxxx\<close> continues the character before it.\<close>

definition continues_char :: "char \<Rightarrow> bool" where
  "continues_char c = (let n = of_char c :: nat in 128 \<le> n \<and> n < 192)"

fun cp_take :: "nat \<Rightarrow> string \<Rightarrow> string" where
  "cp_take n [] = []"
| "cp_take n (c # cs) =
     (if continues_char c then c # cp_take n cs
      else (case n of 0 \<Rightarrow> [] | Suc m \<Rightarrow> c # cp_take m cs))"

text \<open>\<open>len(s)\<close> in characters.\<close>

definition cp_length :: "string \<Rightarrow> nat" where
  "cp_length s = length (filter (\<lambda>c. \<not> continues_char c) s)"

text \<open>
  The characters of a text: a byte from 128 on is joined by the continuation bytes after it.
\<close>

fun chars_of :: "string \<Rightarrow> string list" where
  "chars_of [] = []"
| "chars_of (c # cs) =
     (case chars_of cs of
        [] \<Rightarrow> [[c]]
      | g # gs \<Rightarrow> (if 128 \<le> (of_char c :: nat) \<and> continues_char (hd g) then (c # g) # gs
                   else [c] # g # gs))"

text \<open>Decimal notation, \<open>str(n)\<close>.\<close>

definition digit_char :: "int \<Rightarrow> char" where "digit_char d = char_of (48 + d)"

fun dec :: "int \<Rightarrow> string" where
  "dec n = (if n < 10 then [digit_char n] else dec (n div 10) @ [digit_char (n mod 10)])"

declare dec.simps [simp del]

definition nat_str :: "nat \<Rightarrow> string" where "nat_str n = dec (int n)"

definition int_str :: "int \<Rightarrow> string" where
  "int_str i = (if i < 0 then ''-'' @ dec (- i) else dec i)"

definition hex_digit :: "nat \<Rightarrow> char" where
  "hex_digit d = (if d < 10 then char_of (48 + d) else char_of (55 + d))"

definition hex_digit_lower :: "nat \<Rightarrow> char" where
  "hex_digit_lower d = (if d < 10 then char_of (48 + d) else char_of (87 + d))"

lemma startswith_iff: "startswith p s \<longleftrightarrow> (\<exists>t. s = p @ t)"
  by (induction p s rule: startswith.induct) auto

lemma startswith_append [simp]: "startswith p (p @ s)"
  by (auto simp: startswith_iff)

lemma contains_iff: "contains pat s \<longleftrightarrow> (\<exists>a b. s = a @ pat @ b)"
proof (induction s)
  case (Cons c cs)
  show ?case
  proof
    assume "contains pat (c # cs)"
    then consider "startswith pat (c # cs)" | "contains pat cs" by auto
    then show "\<exists>a b. c # cs = a @ pat @ b"
    proof cases
      case 1
      then show ?thesis by (metis append_Nil startswith_iff)
    next
      case 2
      with Cons.IH show ?thesis by (metis append_Cons)
    qed
  next
    assume "\<exists>a b. c # cs = a @ pat @ b"
    then obtain a b where eq: "c # cs = a @ pat @ b" by blast
    show "contains pat (c # cs)"
    proof (cases a)
      case Nil
      with eq have "startswith pat (c # cs)" by (simp add: startswith_iff)
      then show ?thesis by simp
    next
      case (Cons x a')
      with eq Cons.IH have "contains pat cs" by auto
      then show ?thesis by simp
    qed
  qed
qed auto

text \<open>Stripping twice is stripping once.\<close>

lemma dropWhile_is_dropWhile: "dropWhile P (dropWhile P xs) = dropWhile P xs"
  by (induction xs) auto

lemma strip_idem [simp]: "strip (strip s) = strip s"
proof -
  define t where "t = lstrip s"
  have t: "t = [] \<or> \<not> is_space (hd t)"
    unfolding t_def lstrip_def using hd_dropWhile [of is_space s] by auto
  have "lstrip (rstrip t) = rstrip t"
  proof (cases "rstrip t")
    case (Cons c cs)
    have "t = rstrip t @ rev (takeWhile is_space (rev t))"
      unfolding rstrip_def using takeWhile_dropWhile_id [of is_space "rev t"] by (metis rev_append rev_rev_ident)
    with Cons have "hd t = c" by (metis append_Cons list.sel(1))
    with t Cons have "\<not> is_space c" by (auto simp: rstrip_def)
    with Cons show ?thesis by (simp add: lstrip_def)
  qed (simp add: lstrip_def)
  then show ?thesis
    by (simp add: strip_def t_def [symmetric]) (simp add: rstrip_def dropWhile_is_dropWhile)
qed

lemma dec_nonempty [simp]: "dec n \<noteq> []"
  by (subst dec.simps) simp

lemma nat_str_nonempty [simp]: "nat_str n \<noteq> []"
  by (simp add: nat_str_def)

text \<open>\<open>str(exc)\<close> and \<open>type(exc).__name__\<close>.\<close>

fun exn_text :: "exn \<Rightarrow> string" where
  "exn_text (DispatchError m _ _ _) = m"
| "exn_text (MissingTokenError m) = m"
| "exn_text (InvalidTokenError m) = m"
| "exn_text (GongdanUpstreamError m) = m"
| "exn_text (ConfigValidationError es) = join ''; '' es"
| "exn_text (HTTPException n d) = int_str n @ '': '' @ d"
| "exn_text (PyError _ m) = m"

fun exn_class :: "exn \<Rightarrow> string" where
  "exn_class (DispatchError _ _ _ _) = ''DispatchError''"
| "exn_class (MissingTokenError _) = ''MissingTokenError''"
| "exn_class (InvalidTokenError _) = ''InvalidTokenError''"
| "exn_class (GongdanUpstreamError _) = ''GongdanUpstreamError''"
| "exn_class (ConfigValidationError _) = ''ConfigValidationError''"
| "exn_class (HTTPException _ _) = ''HTTPException''"
| "exn_class (PyError c _) = c"

section \<open>Dictionaries\<close>

text \<open>
  A Python \<open>dict\<close> is an association list in insertion order with distinct keys;
  \<open>d[k] = v\<close> is \<open>AList.update\<close>, which keeps the position of an existing key and appends a
  new one, \<open>d.get(k)\<close> is \<open>map_of\<close>, \<open>d.pop(k, None)\<close> is \<open>AList.delete\<close>.
\<close>

type_synonym 'v dict = "(string \<times> 'v) list"

text \<open>\<open>d.update(e)\<close>.\<close>

fun dict_update :: "('k \<times> 'v) list \<Rightarrow> ('k \<times> 'v) list \<Rightarrow> ('k \<times> 'v) list" where
  "dict_update d [] = d"
| "dict_update d ((k, v) # e) = dict_update (AList.update k v d) e"

definition wf_dict :: "('k \<times> 'v) list \<Rightarrow> bool" where
  "wf_dict d \<longleftrightarrow> distinct (map fst d)"

lemma map_of_dict_update:
  "wf_dict e \<Longrightarrow> map_of (dict_update d e) k = (case map_of e k of None \<Rightarrow> map_of d k | Some v \<Rightarrow> Some v)"
proof (induction d e rule: dict_update.induct)
  case (2 d k' v e)
  then have "wf_dict e" and "map_of e k' = None"
    by (auto simp: wf_dict_def map_of_eq_None_iff)
  with 2 show ?case
    by (auto simp: update_conv' split: option.splits)
qed simp

lemma wf_dict_update: "wf_dict d \<Longrightarrow> wf_dict (AList.update k v d)"
  by (simp add: wf_dict_def distinct_update)

lemma wf_dict_delete: "wf_dict d \<Longrightarrow> wf_dict (AList.delete k d)"
  by (simp add: wf_dict_def distinct_delete)

lemma wf_dict_Nil [simp]: "wf_dict []"
  by (simp add: wf_dict_def)

lemma wf_dict_dict_update: "wf_dict d \<Longrightarrow> wf_dict (dict_update d e)"
  by (induction d e rule: dict_update.induct) (auto simp: wf_dict_update)

text \<open>An optional text is truthy when it is present and not empty.\<close>

definition some_text :: "string option \<Rightarrow> bool" where
  "some_text o' = (case o' of None \<Rightarrow> False | Some s \<Rightarrow> s \<noteq> [])"

definition text_or :: "string option \<Rightarrow> string \<Rightarrow> string" where
  "text_or o' d = (case o' of None \<Rightarrow> d | Some s \<Rightarrow> if s = [] then d else s)"

lemma some_text_simps [simp]:
  "some_text None = False" "some_text (Some s) = (s \<noteq> [])"
  by (simp_all add: some_text_def)

lemma text_or_simps [simp]:
  "text_or None d = d" "text_or (Some s) d = (if s = [] then d else s)"
  by (simp_all add: text_or_def)

end
