(* ===== verification/Locks.thy ===== *)
theory Locks
  imports Prelude
begin

text \<open>
  \<open>asyncio.Lock\<close>, on which the registry, the signing keys and the proxy sessions rely, and what a lock
  gives to tasks that enter a section only through it. Tasks are numbers; they are switched only where
  the code awaits.
\<close>

section \<open>The lock\<close>

record lock =
  lk_locked :: bool
  lk_waiters :: "nat list"

definition new_lock :: lock where
  "new_lock = \<lparr>lk_locked = False, lk_waiters = []\<rparr>"

text \<open>
  \<open>acquire\<close> takes the lock at once only when nobody waits; else the task queues up. \<open>release\<close> frees it,
  and the first in the queue takes it when it runs again. A waiter that is cancelled leaves the queue.
\<close>

definition acquire :: "nat \<Rightarrow> lock \<Rightarrow> bool \<times> lock" where
  "acquire t l =
     (if \<not> lk_locked l \<and> lk_waiters l = [] then (True, l\<lparr>lk_locked := True\<rparr>)
      else (False, l\<lparr>lk_waiters := lk_waiters l @ [t]\<rparr>))"

definition release :: "lock \<Rightarrow> lock" where
  "release l = l\<lparr>lk_locked := False\<rparr>"

definition awaken :: "nat \<Rightarrow> lock \<Rightarrow> lock option" where
  "awaken t l =
     (case lk_waiters l of
        [] \<Rightarrow> None
      | u # us \<Rightarrow> (if u = t \<and> \<not> lk_locked l then Some \<lparr>lk_locked = True, lk_waiters = us\<rparr> else None))"

definition leave_queue :: "nat \<Rightarrow> lock \<Rightarrow> lock" where
  "leave_queue t l = l\<lparr>lk_waiters := filter (\<lambda>u. u \<noteq> t) (lk_waiters l)\<rparr>"

section \<open>Who holds it, who waits for it\<close>

text \<open>A view of a lock: the lock, the tasks in the section, and the tasks that wait for it.\<close>

type_synonym lock_view = "lock \<times> nat set \<times> nat set"

inductive lock_move :: "lock_view \<Rightarrow> lock_view \<Rightarrow> bool" where
  enter: "t \<notin> ws \<Longrightarrow> acquire t l = (True, l') \<Longrightarrow> lock_move (l, hs, ws) (l', insert t hs, ws)"
| queue_up: "t \<notin> hs \<Longrightarrow> t \<notin> ws \<Longrightarrow> acquire t l = (False, l') \<Longrightarrow> lock_move (l, hs, ws) (l', hs, insert t ws)"
| woken: "awaken t l = Some l' \<Longrightarrow> lock_move (l, hs, ws) (l', insert t hs, ws - {t})"
| leave: "t \<in> hs \<Longrightarrow> lock_move (l, hs, ws) (release l, hs - {t}, ws)"
| dropped: "t \<in> ws \<Longrightarrow> lock_move (l, hs, ws) (leave_queue t l, hs, ws - {t})"

text \<open>One holder at most; the queue is the set of the waiters.\<close>

fun lock_ok :: "lock_view \<Rightarrow> bool" where
  "lock_ok (l, hs, ws) \<longleftrightarrow>
     hs = {} \<and> \<not> lk_locked l \<and> set (lk_waiters l) = ws \<and> distinct (lk_waiters l) \<or>
     (\<exists>t. hs = {t} \<and> t \<notin> ws) \<and> lk_locked l \<and> set (lk_waiters l) = ws \<and> distinct (lk_waiters l)"

lemma lock_ok_single: "lock_ok (l, hs, ws) \<Longrightarrow> t \<in> hs \<Longrightarrow> u \<in> hs \<Longrightarrow> t = u"
  by auto

lemma lock_move_ok: "lock_move v v' \<Longrightarrow> lock_ok v \<Longrightarrow> lock_ok v'"
  by (induction rule: lock_move.induct)
    (auto simp: acquire_def release_def awaken_def leave_queue_def split: if_splits list.splits)

lemma lock_moves_ok: "lock_move\<^sup>*\<^sup>* v v' \<Longrightarrow> lock_ok v \<Longrightarrow> lock_ok v'"
  by (induction rule: rtranclp_induct) (auto intro: lock_move_ok)

lemmas one_move = r_into_rtranclp [of lock_move]

text \<open>A task that takes the lock and gives it back at once.\<close>

lemma woken_and_left:
  "awaken t l = Some l' \<Longrightarrow> t \<notin> hs \<Longrightarrow> lock_move\<^sup>*\<^sup>* (l, hs, ws) (release l', hs, ws - {t})"
  using converse_rtranclp_into_rtranclp [of lock_move, OF woken [of t l l' hs ws]
      one_move [OF leave [of t "insert t hs" l' "ws - {t}"]]]
  by simp

lemma entered_and_left:
  "acquire t l = (True, l') \<Longrightarrow> t \<notin> hs \<Longrightarrow> t \<notin> ws \<Longrightarrow> lock_move\<^sup>*\<^sup>* (l, hs, ws) (release l', hs, ws)"
  using converse_rtranclp_into_rtranclp [of lock_move, OF enter [of t ws l l' hs]
      one_move [OF leave [of t "insert t hs" l' ws]]]
  by simp

section \<open>Sections guarded by a lock\<close>

text \<open>
  The contract of a system whose tasks enter a section only through one lock: \<open>view\<close> reads off the
  lock, its holders and its waiters, and every step is a sequence of operations on the lock.
\<close>

locale guarded =
  fixes view :: "'s \<Rightarrow> lock_view" and begins :: "'s \<Rightarrow> bool" and wf :: "'s \<Rightarrow> bool" and move :: "'s \<Rightarrow> 's \<Rightarrow> bool"
  assumes begins_free: "begins s \<Longrightarrow> view s = (new_lock, {}, {})"
    and begins_wf: "begins s \<Longrightarrow> wf s"
    and move_wf: "move s s' \<Longrightarrow> wf s \<Longrightarrow> wf s'"
    and moves: "move s s' \<Longrightarrow> wf s \<Longrightarrow> lock_move\<^sup>*\<^sup>* (view s) (view s')"
begin

lemma always_wf: "move\<^sup>*\<^sup>* s0 s \<Longrightarrow> begins s0 \<Longrightarrow> wf s"
  by (induction rule: rtranclp_induct) (auto intro: begins_wf move_wf)

lemma view_ok: "move\<^sup>*\<^sup>* s0 s \<Longrightarrow> begins s0 \<Longrightarrow> lock_ok (view s)"
proof (induction rule: rtranclp_induct)
  case base
  then show ?case by (simp add: begins_free new_lock_def)
next
  case (step s s')
  then show ?case using moves [OF step.hyps(2) always_wf] lock_moves_ok by blast
qed

lemma one_holder:
  assumes "move\<^sup>*\<^sup>* s0 s" "begins s0" and "view s = (l, hs, ws)" and "t \<in> hs" "u \<in> hs"
  shows "t = u"
  using view_ok [OF assms(1,2)] assms(3-5) lock_ok_single by metis

text \<open>Nobody waits for a free lock in vain: there is a holder, or the first waiter can be woken.\<close>

lemma waiter_progress:
  assumes "move\<^sup>*\<^sup>* s0 s" "begins s0" and "view s = (l, hs, ws)" and "t \<in> ws"
  shows "(\<exists>u. u \<in> hs) \<or> (\<exists>u l'. u \<in> ws \<and> awaken u l = Some l')"
proof (cases "hs = {}")
  case True
  with view_ok [OF assms(1,2)] assms(3,4) obtain u us
    where "lk_waiters l = u # us" "\<not> lk_locked l" "u \<in> ws"
    by (cases "lk_waiters l") auto
  then show ?thesis by (auto simp: awaken_def)
qed blast

end

end
