(* ===== verification/PyFloat.thy ===== *)
theory PyFloat
  imports Prelude
begin

text \<open>
  Python's \<open>float\<close>: IEEE binary64 values as exact rationals with the two infinities, NaN and
  negative zero. What the repository does with them: comparison, \<open>max\<close>, \<open>min\<close>, conversion from
  and to \<open>int\<close> and \<open>str\<close>. Conversions round to nearest, ties to even; \<open>repr_float\<close> prints the
  shortest decimal that reads back as the same value, as \<open>repr\<close> does.
\<close>

datatype pyfloat = PFin rat | PNegZero | PInf | PNegInf | PNaN

section \<open>Comparison\<close>

fun pf_lt :: "pyfloat \<Rightarrow> pyfloat \<Rightarrow> bool" where
  "pf_lt PNaN _ = False"
| "pf_lt _ PNaN = False"
| "pf_lt PInf _ = False"
| "pf_lt _ PNegInf = False"
| "pf_lt PNegInf _ = True"
| "pf_lt _ PInf = True"
| "pf_lt (PFin a) (PFin b) = (a < b)"
| "pf_lt (PFin a) PNegZero = (a < 0)"
| "pf_lt PNegZero (PFin b) = (0 < b)"
| "pf_lt PNegZero PNegZero = False"

text \<open>\<open>max(a, b)\<close> keeps \<open>a\<close> unless \<open>b > a\<close>; \<open>min(a, b)\<close> keeps \<open>a\<close> unless \<open>b < a\<close>.\<close>

definition pf_max :: "pyfloat \<Rightarrow> pyfloat \<Rightarrow> pyfloat" where
  "pf_max a b = (if pf_lt a b then b else a)"

definition pf_min :: "pyfloat \<Rightarrow> pyfloat \<Rightarrow> pyfloat" where
  "pf_min a b = (if pf_lt b a then b else a)"

definition pf_is_zero :: "pyfloat \<Rightarrow> bool" where
  "pf_is_zero f = (f = PFin 0 \<or> f = PNegZero)"

section \<open>Rounding to binary64\<close>

definition round_half_even :: "rat \<Rightarrow> int" where
  "round_half_even r =
     (let f = \<lfloor>r\<rfloor>; d = r - of_int f
      in if d < 1 / 2 then f else if 1 / 2 < d then f + 1 else if even f then f else f + 1)"

definition pow_rat :: "int \<Rightarrow> int \<Rightarrow> rat" where
  "pow_rat b e = (if 0 \<le> e then of_int (b ^ nat e) else 1 / of_int (b ^ nat (- e)))"

fun bit_len :: "int \<Rightarrow> int" where
  "bit_len n = (if n \<le> 0 then 0 else 1 + bit_len (n div 2))"

declare bit_len.simps [simp del]

text \<open>The nearest binary64 value of a sign and a magnitude.\<close>

definition double_of :: "bool \<Rightarrow> rat \<Rightarrow> pyfloat" where
  "double_of neg a =
     (if a = 0 then (if neg then PNegZero else PFin 0)
      else
        let (n, d) = quotient_of a;
            e0 = bit_len n - bit_len d - 53;
            e1 = (if a / pow_rat 2 e0 < 2 ^ 53 then e0 else e0 + 1);
            e = max e1 (- 1074);
            v = of_int (round_half_even (a / pow_rat 2 e)) * pow_rat 2 e
        in if pow_rat 2 1024 \<le> v then (if neg then PNegInf else PInf)
           else if v = 0 then (if neg then PNegZero else PFin 0)
           else PFin (if neg then - v else v))"

section \<open>From and to int\<close>

definition float_of_int :: "int \<Rightarrow> pyfloat res" where
  "float_of_int i =
     (let f = double_of (i < 0) (of_int \<bar>i\<bar>)
      in if f = PInf \<or> f = PNegInf
         then Inl (PyError ''OverflowError'' ''int too large to convert to float'')
         else Inr (if i = 0 then PFin 0 else f))"

definition trunc_rat :: "rat \<Rightarrow> int" where
  "trunc_rat r = (if 0 \<le> r then \<lfloor>r\<rfloor> else - \<lfloor>- r\<rfloor>)"

fun int_of_float :: "pyfloat \<Rightarrow> int res" where
  "int_of_float (PFin r) = Inr (trunc_rat r)"
| "int_of_float PNegZero = Inr 0"
| "int_of_float PNaN = Inl (ValueError ''cannot convert float NaN to integer'')"
| "int_of_float _ = Inl (PyError ''OverflowError'' ''cannot convert float infinity to integer'')"

section \<open>From text\<close>

definition is_digit :: "char \<Rightarrow> bool" where
  "is_digit c = (let n = of_char c :: nat in 48 \<le> n \<and> n \<le> 57)"

definition digit_val :: "char \<Rightarrow> int" where
  "digit_val c = (of_char c :: int) - 48"

definition digits_val :: "string \<Rightarrow> int" where
  "digits_val ds = foldl (\<lambda>n c. 10 * n + digit_val c) 0 ds"

text \<open>An underscore is allowed between two digits only.\<close>

fun drop_underscores :: "char \<Rightarrow> string \<Rightarrow> string option" where
  "drop_underscores prev [] = (if prev = CHR ''_'' then None else Some [])"
| "drop_underscores prev (c # cs) =
     (if c = CHR ''_''
      then (if is_digit prev then drop_underscores c cs else None)
      else if prev = CHR ''_'' \<and> \<not> is_digit c then None
      else map_option (Cons c) (drop_underscores c cs))"

definition split_sign :: "string \<Rightarrow> bool \<times> string" where
  "split_sign s =
     (case s of [] \<Rightarrow> (False, [])
      | c # cs \<Rightarrow> if c = CHR ''-'' then (True, cs) else if c = CHR ''+'' then (False, cs) else (False, s))"

text \<open>The optional exponent at the end of a decimal literal.\<close>

definition parse_exponent :: "string \<Rightarrow> int option" where
  "parse_exponent s =
     (case s of [] \<Rightarrow> Some 0
      | c # cs \<Rightarrow>
          if c = CHR ''e'' \<or> c = CHR ''E''
          then (let (neg, ds) = split_sign cs
                in if ds \<noteq> [] \<and> list_all is_digit ds
                   then Some (if neg then - digits_val ds else digits_val ds)
                   else None)
          else None)"

text \<open>An unsigned decimal literal as the rational it denotes.\<close>

definition parse_decimal :: "string \<Rightarrow> rat option" where
  "parse_decimal s =
     (let ip = takeWhile is_digit s; r1 = dropWhile is_digit s;
          (fp, r2) = (case r1 of [] \<Rightarrow> ([], [])
                      | c # cs \<Rightarrow> if c = CHR ''.'' then (takeWhile is_digit cs, dropWhile is_digit cs)
                                 else ([], r1))
      in if ip = [] \<and> fp = [] then None
         else map_option (\<lambda>e. of_int (digits_val (ip @ fp)) * pow_rat 10 (e - int (length fp)))
                (parse_exponent r2))"

text \<open>\<open>float(s)\<close> for a text; \<open>None\<close> is its ValueError.\<close>

definition float_of_text :: "string \<Rightarrow> pyfloat option" where
  "float_of_text s =
     (case drop_underscores (CHR '' '') (strip s) of None \<Rightarrow> None
      | Some t \<Rightarrow>
          let (neg, u) = split_sign t; l = lower u
          in if l = ''inf'' \<or> l = ''infinity'' then Some (if neg then PNegInf else PInf)
             else if l = ''nan'' then Some PNaN
             else map_option (double_of neg) (parse_decimal u))"

text \<open>\<open>int(s)\<close> for a text; \<open>None\<close> is its ValueError.\<close>

definition int_of_text :: "string \<Rightarrow> int option" where
  "int_of_text s =
     (case drop_underscores (CHR '' '') (strip s) of None \<Rightarrow> None
      | Some t \<Rightarrow>
          let (neg, u) = split_sign t
          in if u \<noteq> [] \<and> list_all is_digit u
             then Some (if neg then - digits_val u else digits_val u)
             else None)"

section \<open>To text\<close>

text \<open>The exponent \<open>p\<close> with \<open>10 ^ (p - 1) \<le> a < 10 ^ p\<close>; 400 steps cover every binary64 value.\<close>

fun lead_zeros :: "nat \<Rightarrow> rat \<Rightarrow> nat" where
  "lead_zeros 0 a = 0"
| "lead_zeros (Suc n) a = (if 1 \<le> a * 10 then 0 else Suc (lead_zeros n (a * 10)))"

definition dec_point :: "rat \<Rightarrow> int" where
  "dec_point a = (if 1 \<le> a then int (length (dec \<lfloor>a\<rfloor>)) else - int (lead_zeros 400 a))"

text \<open>
  The shortest run of at most 17 digits that reads back as \<open>a\<close>: of the two neighbours with
  \<open>n\<close> digits, the nearer one that does.
\<close>

definition digits_at :: "rat \<Rightarrow> int \<Rightarrow> nat \<Rightarrow> int option" where
  "digits_at a p n =
     (let u = pow_rat 10 (p - int n); q = a / u; lo = \<lfloor>q\<rfloor>; hi = lo + 1;
          ok = (\<lambda>m. double_of False (of_int m * u) = PFin a);
          near = (if q - of_int lo < of_int hi - q \<or> (q - of_int lo = of_int hi - q \<and> even lo)
                  then [lo, hi] else [hi, lo])
      in case filter ok near of [] \<Rightarrow> None | m # _ \<Rightarrow> Some m)"

fun shortest_from :: "rat \<Rightarrow> int \<Rightarrow> nat \<Rightarrow> nat \<Rightarrow> nat \<times> int" where
  "shortest_from a p n 0 = (n, case digits_at a p n of None \<Rightarrow> 0 | Some m \<Rightarrow> m)"
| "shortest_from a p n (Suc k) =
     (case digits_at a p n of Some m \<Rightarrow> (n, m) | None \<Rightarrow> shortest_from a p (Suc n) k)"

definition strip_zeros :: "string \<Rightarrow> string" where
  "strip_zeros s = rev (dropWhile (\<lambda>c. c = CHR ''0'') (rev s))"

definition two_digits :: "int \<Rightarrow> string" where
  "two_digits n = (if n < 10 then CHR ''0'' # dec n else dec n)"

definition repr_pos :: "rat \<Rightarrow> string" where
  "repr_pos a =
     (let p0 = dec_point a; (n, m) = shortest_from a p0 1 16;
          ds0 = dec m; p = p0 + int (length ds0) - int n; ds = strip_zeros ds0; k = int (length ds)
      in if p - 1 < - 4 \<or> 16 \<le> p - 1
         then [hd ds] @ (if tl ds = [] then [] else CHR ''.'' # tl ds) @ ''e''
              @ (if p - 1 < 0 then ''-'' @ two_digits (1 - p) else ''+'' @ two_digits (p - 1))
         else if p \<le> 0 then ''0.'' @ replicate (nat (- p)) (CHR ''0'') @ ds
         else if k \<le> p then ds @ replicate (nat (p - k)) (CHR ''0'') @ ''.0''
         else take (nat p) ds @ ''.'' @ drop (nat p) ds)"

fun repr_float :: "pyfloat \<Rightarrow> string" where
  "repr_float (PFin r) = (if r = 0 then ''0.0'' else if r < 0 then ''-'' @ repr_pos (- r) else repr_pos r)"
| "repr_float PNegZero = ''-0.0''"
| "repr_float PInf = ''inf''"
| "repr_float PNegInf = ''-inf''"
| "repr_float PNaN = ''nan''"

lemma pf_max_fin: "pf_max (PFin a) (PFin b) = PFin (max a b)"
  by (auto simp: pf_max_def max_def)

lemma pf_min_fin: "pf_min (PFin a) (PFin b) = PFin (min a b)"
  by (auto simp: pf_min_def min_def)

lemma trunc_rat_mono: "a \<le> b \<Longrightarrow> trunc_rat a \<le> trunc_rat b"
proof -
  assume le: "a \<le> b"
  have down: "\<lfloor>a\<rfloor> \<le> \<lfloor>b\<rfloor>" and up: "\<lfloor>- b\<rfloor> \<le> \<lfloor>- a\<rfloor>"
    using le by (simp_all add: floor_mono)
  show ?thesis
  proof (cases "0 \<le> a")
    case True
    with le down show ?thesis by (simp add: trunc_rat_def)
  next
    case False
    then have neg: "0 \<le> \<lfloor>- a\<rfloor>" by simp
    have "0 \<le> b \<Longrightarrow> 0 \<le> \<lfloor>b\<rfloor>" by simp
    with neg have "0 \<le> b \<Longrightarrow> - \<lfloor>- a\<rfloor> \<le> \<lfloor>b\<rfloor>" by linarith
    with False up show ?thesis by (auto simp: trunc_rat_def)
  qed
qed

lemma trunc_rat_of_int [simp]: "trunc_rat (of_int i) = i"
  by (simp add: trunc_rat_def)

end
