(* ===== verification/PyJson.thy ===== *)
theory PyJson
  imports PyFloat
begin

text \<open>
  The values that JSON documents, JSONB columns, JWT claims and tool arguments hold in Python,
  with the operations of the language and of its \<open>json\<close> module that the repository applies to
  them: truthiness, \<open>.get\<close>, \<open>str\<close>, \<open>int\<close>, \<open>float\<close>, \<open>json.dumps\<close> and \<open>json.loads\<close>. A
  \<open>dict\<close> is kept in insertion order. Numbers longer than CPython's 4300-digit limit and nesting
  beyond its recursion limit are not treated specially.
\<close>

datatype json =
    JNull
  | JBool bool
  | JInt int
  | JFloat pyfloat
  | JStr string
  | JList "json list"
  | JObj "(string \<times> json) list"

section \<open>Type, truth value, lookup\<close>

fun type_name :: "json \<Rightarrow> string" where
  "type_name JNull = ''NoneType''"
| "type_name (JBool _) = ''bool''"
| "type_name (JInt _) = ''int''"
| "type_name (JFloat _) = ''float''"
| "type_name (JStr _) = ''str''"
| "type_name (JList _) = ''list''"
| "type_name (JObj _) = ''dict''"

fun truthy :: "json \<Rightarrow> bool" where
  "truthy JNull = False"
| "truthy (JBool b) = b"
| "truthy (JInt i) = (i \<noteq> 0)"
| "truthy (JFloat f) = (\<not> pf_is_zero f)"
| "truthy (JStr s) = (s \<noteq> [])"
| "truthy (JList xs) = (xs \<noteq> [])"
| "truthy (JObj kvs) = (kvs \<noteq> [])"

text \<open>\<open>a or b\<close>.\<close>

definition py_or :: "json \<Rightarrow> json \<Rightarrow> json" where
  "py_or a b = (if truthy a then a else b)"

fun is_str :: "json \<Rightarrow> bool" where "is_str (JStr _) = True" | "is_str _ = False"

fun is_obj :: "json \<Rightarrow> bool" where "is_obj (JObj _) = True" | "is_obj _ = False"

fun is_list :: "json \<Rightarrow> bool" where "is_list (JList _) = True" | "is_list _ = False"

text \<open>\<open>d.get(k)\<close> and \<open>d.get(k, v)\<close> on a dictionary.\<close>

definition jget :: "json dict \<Rightarrow> string \<Rightarrow> json" where
  "jget d k = (case map_of d k of None \<Rightarrow> JNull | Some v \<Rightarrow> v)"

definition jget_default :: "json dict \<Rightarrow> string \<Rightarrow> json \<Rightarrow> json" where
  "jget_default d k v0 = (case map_of d k of None \<Rightarrow> v0 | Some v \<Rightarrow> v)"

text \<open>An attribute access on a value that may be no dictionary.\<close>

definition quoted :: "string \<Rightarrow> string" where
  "quoted s = [CHR 0x27] @ s @ [CHR 0x27]"

definition no_attr :: "json \<Rightarrow> string \<Rightarrow> exn" where
  "no_attr v a = AttributeError (quoted (type_name v) @ '' object has no attribute '' @ quoted a)"

fun as_dict :: "json \<Rightarrow> json dict res" where
  "as_dict (JObj d) = Inr d"
| "as_dict v = Inl (no_attr v ''get'')"

text \<open>\<open>for x in v\<close>: the elements of a list, the characters of a text, the keys of a dictionary.\<close>

fun iterate :: "json \<Rightarrow> json list res" where
  "iterate (JList xs) = Inr xs"
| "iterate (JStr s) = Inr (map JStr (chars_of s))"
| "iterate (JObj kvs) = Inr (map (\<lambda>kv. JStr (fst kv)) kvs)"
| "iterate v = Inl (TypeError (quoted (type_name v) @ '' object is not iterable''))"

text \<open>
  A value as a dictionary key: numbers that are equal are the same key whatever their type, lists
  and dictionaries cannot be keys.
\<close>

fun hash_key :: "json \<Rightarrow> json res" where
  "hash_key (JBool b) = Inr (JInt (if b then 1 else 0))"
| "hash_key (JFloat (PFin q)) = Inr (if of_int \<lfloor>q\<rfloor> = q then JInt \<lfloor>q\<rfloor> else JFloat (PFin q))"
| "hash_key (JFloat PNegZero) = Inr (JInt 0)"
| "hash_key (JList xs) = Inl (TypeError (''unhashable type: '' @ quoted ''list''))"
| "hash_key (JObj d) = Inl (TypeError (''unhashable type: '' @ quoted ''dict''))"
| "hash_key v = Inr v"

text \<open>\<open>d[k]\<close> and \<open>d[k] = v\<close> with such keys; a NaN read from a document equals no key.\<close>

definition key_lookup :: "(json \<times> 'v) list \<Rightarrow> json \<Rightarrow> 'v option" where
  "key_lookup d k = (if k = JFloat PNaN then None else map_of d k)"

definition key_store :: "json \<Rightarrow> 'v \<Rightarrow> (json \<times> 'v) list \<Rightarrow> (json \<times> 'v) list" where
  "key_store k v d = (if k = JFloat PNaN then d @ [(k, v)] else AList.update k v d)"

section \<open>str and repr\<close>

text \<open>\<open>repr\<close> of a text: single quotes unless it holds one and no double quote.\<close>

definition repr_char :: "char \<Rightarrow> char \<Rightarrow> string" where
  "repr_char q c =
     (let n = of_char c :: nat
      in if c = q \<or> n = 92 then [CHR 0x5C, c]
         else if n = 10 then [CHR 0x5C, CHR ''n'']
         else if n = 13 then [CHR 0x5C, CHR ''r'']
         else if n = 9 then [CHR 0x5C, CHR ''t'']
         else if n < 32 \<or> n = 127
              then [CHR 0x5C, CHR ''x'', hex_digit_lower (n div 16), hex_digit_lower (n mod 16)]
         else [c])"

definition repr_text :: "string \<Rightarrow> string" where
  "repr_text s =
     (let q = (if CHR 0x27 \<in> set s \<and> CHR 0x22 \<notin> set s then CHR 0x22 else CHR 0x27)
      in [q] @ concat (map (repr_char q) s) @ [q])"

fun py_repr :: "json \<Rightarrow> string" where
  "py_repr JNull = ''None''"
| "py_repr (JBool b) = (if b then ''True'' else ''False'')"
| "py_repr (JInt i) = int_str i"
| "py_repr (JFloat f) = repr_float f"
| "py_repr (JStr s) = repr_text s"
| "py_repr (JList xs) = ''['' @ join '', '' (map py_repr xs) @ '']''"
| "py_repr (JObj kvs) = ''{'' @ join '', '' (map (\<lambda>kv. repr_text (fst kv) @ '': '' @ py_repr (snd kv)) kvs) @ ''}''"

fun py_str :: "json \<Rightarrow> string" where
  "py_str (JStr s) = s"
| "py_str v = py_repr v"

section \<open>int and float of a value\<close>

fun to_int :: "json \<Rightarrow> int res" where
  "to_int (JInt i) = Inr i"
| "to_int (JBool b) = Inr (if b then 1 else 0)"
| "to_int (JFloat f) = int_of_float f"
| "to_int (JStr s) =
     (case int_of_text s of Some i \<Rightarrow> Inr i
      | None \<Rightarrow> Inl (ValueError (''invalid literal for int() with base 10: '' @ repr_text s)))"
| "to_int v = Inl (TypeError (''int() argument must be a string, a bytes-like object or a real number, not '' @ quoted (type_name v)))"

fun to_float :: "json \<Rightarrow> pyfloat res" where
  "to_float (JFloat f) = Inr f"
| "to_float (JInt i) = float_of_int i"
| "to_float (JBool b) = Inr (PFin (if b then 1 else 0))"
| "to_float (JStr s) =
     (case float_of_text s of Some f \<Rightarrow> Inr f
      | None \<Rightarrow> Inl (ValueError (''could not convert string to float: '' @ repr_text s)))"
| "to_float v = Inl (TypeError (''float() argument must be a string or a real number, not '' @ quoted (type_name v)))"

end
