(* ===== verification/PyJsonText.thy ===== *)
theory PyJsonText
  imports PyJson
begin

text \<open>
  The \<open>json\<close> module of the standard library: \<open>json_dumps\<close> prints a value with the default
  separators, with or without \<open>ensure_ascii\<close> and \<open>sort_keys\<close>; \<open>json_loads\<close> follows CPython's
  scanner, error messages with their positions included. The main result, \<open>loads_dumps\<close>, is
  that a document printed from a value without floats reads back as that value.
\<close>

section \<open>Characters beyond ASCII\<close>

text \<open>The code point of a character's UTF-8 bytes, and back.\<close>

fun code_point :: "string \<Rightarrow> nat" where
  "code_point [a] = of_char a"
| "code_point [a, b] = (of_char a - 192) * 64 + (of_char b - 128)"
| "code_point [a, b, c] = (of_char a - 224) * 4096 + (of_char b - 128) * 64 + (of_char c - 128)"
| "code_point [a, b, c, d] =
     (of_char a - 240) * 262144 + (of_char b - 128) * 4096 + (of_char c - 128) * 64 + (of_char d - 128)"
| "code_point _ = 0"

definition utf8 :: "nat \<Rightarrow> string" where
  "utf8 n =
     (if n < 128 then [char_of n]
      else if n < 2048 then [char_of (192 + n div 64), char_of (128 + n mod 64)]
      else if n < 65536 then
        [char_of (224 + n div 4096), char_of (128 + n div 64 mod 64), char_of (128 + n mod 64)]
      else
        [char_of (240 + n div 262144), char_of (128 + n div 4096 mod 64),
         char_of (128 + n div 64 mod 64), char_of (128 + n mod 64)])"

section \<open>json.dumps\<close>

definition u_escape :: "nat \<Rightarrow> string" where
  "u_escape n = [CHR 0x5C, CHR ''u'', hex_digit_lower (n div 4096 mod 16), hex_digit_lower (n div 256 mod 16),
                 hex_digit_lower (n div 16 mod 16), hex_digit_lower (n mod 16)]"

text \<open>Outside the basic plane \<open>ensure_ascii\<close> writes a surrogate pair.\<close>

definition ascii_escape :: "nat \<Rightarrow> string" where
  "ascii_escape n =
     (if n < 65536 then u_escape n
      else u_escape (55296 + (n - 65536) div 1024) @ u_escape (56320 + (n - 65536) mod 1024))"

definition dump_byte :: "char \<Rightarrow> string" where
  "dump_byte c =
     (if c = CHR 0x22 then [CHR 0x5C, CHR 0x22]
      else if c = CHR 0x5C then [CHR 0x5C, CHR 0x5C]
      else if c = CHR 0x0A then [CHR 0x5C, CHR ''n'']
      else if c = CHR 0x0D then [CHR 0x5C, CHR ''r'']
      else if c = CHR 0x09 then [CHR 0x5C, CHR ''t'']
      else if c = CHR 0x0C then [CHR 0x5C, CHR ''f'']
      else if c = CHR 0x08 then [CHR 0x5C, CHR ''b'']
      else if (of_char c :: nat) < 32 then u_escape (of_char c)
      else [c])"

definition dump_char :: "bool \<Rightarrow> string \<Rightarrow> string" where
  "dump_char ea g =
     (case g of
        [c] \<Rightarrow> (if ea \<and> (of_char c :: nat) \<ge> 127 then u_escape (of_char c) else dump_byte c)
      | _ \<Rightarrow> (if ea then ascii_escape (code_point g) else g))"

definition dump_text :: "bool \<Rightarrow> string \<Rightarrow> string" where
  "dump_text ea s = [CHR 0x22] @ concat (map (dump_char ea) (chars_of s)) @ [CHR 0x22]"

fun dump_float :: "pyfloat \<Rightarrow> string" where
  "dump_float PInf = ''Infinity''"
| "dump_float PNegInf = ''-Infinity''"
| "dump_float PNaN = ''NaN''"
| "dump_float f = repr_float f"

fun json_dumps :: "bool \<Rightarrow> json \<Rightarrow> string" where
  "json_dumps ea JNull = ''null''"
| "json_dumps ea (JBool b) = (if b then ''true'' else ''false'')"
| "json_dumps ea (JInt i) = int_str i"
| "json_dumps ea (JFloat f) = dump_float f"
| "json_dumps ea (JStr s) = dump_text ea s"
| "json_dumps ea (JList xs) = ''['' @ join '', '' (map (json_dumps ea) xs) @ '']''"
| "json_dumps ea (JObj kvs) =
     ''{'' @ join '', '' (map (\<lambda>kv. dump_text ea (fst kv) @ '': '' @ json_dumps ea (snd kv)) kvs) @ ''}''"

text \<open>\<open>sort_keys=True\<close> orders every dictionary by key.\<close>

fun sort_json :: "json \<Rightarrow> json" where
  "sort_json (JList xs) = JList (map sort_json xs)"
| "sort_json (JObj kvs) = JObj (sort_key fst (map (\<lambda>kv. (fst kv, sort_json (snd kv))) kvs))"
| "sort_json v = v"

section \<open>json.loads\<close>

text \<open>
  A scanner returns the value read and the rest of the document, or the message of the
  JSONDecodeError and the rest of the document at the position it names.
\<close>

type_synonym 'a scan = "(string \<times> string) + ('a \<times> string)"

definition is_ws :: "char \<Rightarrow> bool" where
  "is_ws c \<longleftrightarrow> c = CHR '' '' \<or> c = CHR 0x09 \<or> c = CHR 0x0A \<or> c = CHR 0x0D"

definition skip_ws :: "string \<Rightarrow> string" where "skip_ws s = dropWhile is_ws s"

definition hex_val :: "char \<Rightarrow> nat option" where
  "hex_val c =
     (let n = of_char c :: nat
      in if 48 \<le> n \<and> n \<le> 57 then Some (n - 48)
         else if 97 \<le> n \<and> n \<le> 102 then Some (n - 87)
         else if 65 \<le> n \<and> n \<le> 70 then Some (n - 55)
         else None)"

definition hex4 :: "char \<Rightarrow> char \<Rightarrow> char \<Rightarrow> char \<Rightarrow> nat option" where
  "hex4 a b c d =
     (case (hex_val a, hex_val b, hex_val c, hex_val d) of
        (Some w, Some x, Some y, Some z) \<Rightarrow> Some (w * 4096 + x * 256 + y * 16 + z)
      | _ \<Rightarrow> None)"

definition simple_escape :: "char \<Rightarrow> char option" where
  "simple_escape e =
     (if e = CHR 0x22 \<or> e = CHR 0x5C \<or> e = CHR ''/'' then Some e
      else if e = CHR ''b'' then Some (CHR 0x08)
      else if e = CHR ''f'' then Some (CHR 0x0C)
      else if e = CHR ''n'' then Some (CHR 0x0A)
      else if e = CHR ''r'' then Some (CHR 0x0D)
      else if e = CHR ''t'' then Some (CHR 0x09)
      else None)"

definition prepend :: "string \<Rightarrow> string scan \<Rightarrow> string scan" where
  "prepend p r = (case r of Inl e \<Rightarrow> Inl e | Inr (s, rest) \<Rightarrow> Inr (p @ s, rest))"

definition bad_u :: string where "bad_u = ''Invalid '' @ [CHR 0x5C] @ ''uXXXX escape''"

text \<open>
  One unit of a text: the closing quote, an error, or a character with the rest. \<open>q\<close> is the
  document from the opening quote on.
\<close>

datatype text_unit = Closed string | Broken string string | Unit string string

text \<open>After \<open>u\<close>: four hexadecimal digits, and for a high surrogate the low one if it follows.\<close>

definition scan_u :: "string \<Rightarrow> string \<Rightarrow> text_unit" where
  "scan_u at_u es =
     (if length es < 5 then Broken bad_u es
      else
        (case hex4 (es ! 0) (es ! 1) (es ! 2) (es ! 3) of
           None \<Rightarrow> Broken bad_u at_u
         | Some u \<Rightarrow>
             (let r = drop 4 es
              in if 55296 \<le> u \<and> u < 56320 \<and> 7 \<le> length r \<and> startswith [CHR 0x5C, CHR ''u''] r
                 then (case hex4 (r ! 2) (r ! 3) (r ! 4) (r ! 5) of
                         None \<Rightarrow> Broken bad_u (tl r)
                       | Some w \<Rightarrow>
                           if 56320 \<le> w \<and> w < 57344
                           then Unit (utf8 (65536 + (u - 55296) * 1024 + (w - 56320))) (drop 6 r)
                           else Unit (utf8 u) r)
                 else Unit (utf8 u) r)))"

definition scan_unit :: "string \<Rightarrow> string \<Rightarrow> text_unit" where
  "scan_unit q s =
     (case s of
        [] \<Rightarrow> Broken ''Unterminated string starting at'' q
      | c # cs \<Rightarrow>
          if c = CHR 0x22 then Closed cs
          else if c = CHR 0x5C then
            (case cs of
               [] \<Rightarrow> Broken ''Unterminated string starting at'' q
             | e # es \<Rightarrow>
                 if e = CHR ''u'' then scan_u cs es
                 else (case simple_escape e of
                         None \<Rightarrow> Broken (''Invalid '' @ [CHR 0x5C] @ ''escape: '') s
                       | Some d \<Rightarrow> Unit [d] es))
          else if (of_char c :: nat) < 32 then Broken ''Invalid control character at'' s
          else Unit [c] cs)"

lemma scan_u_rest: "scan_u a es = Unit t r \<Longrightarrow> length r < length es"
  by (auto simp: scan_u_def Let_def split: if_splits option.splits)

lemma scan_unit_rest: "scan_unit q s = Unit t r \<Longrightarrow> length r < length s"
  by (auto simp: scan_unit_def split: list.splits if_splits option.splits dest!: scan_u_rest)

lemma scan_unit_closed: "scan_unit q s = Closed r \<Longrightarrow> length r < length s"
  by (auto simp: scan_unit_def scan_u_def Let_def split: list.splits if_splits option.splits)

function scan_text :: "string \<Rightarrow> string \<Rightarrow> string scan" where
  "scan_text q s =
     (case scan_unit q s of
        Closed r \<Rightarrow> Inr ([], r)
      | Broken msg p \<Rightarrow> Inl (msg, p)
      | Unit t r \<Rightarrow> prepend t (scan_text q r))"
  by pat_completeness auto
termination
  by (relation "measure (\<lambda>(q, s). length s)") (auto dest: scan_unit_rest)

declare scan_text.simps [simp del]

text \<open>A number; the fraction and the exponent are taken only when digits follow.\<close>

definition scan_fraction :: "string \<Rightarrow> string \<times> string" where
  "scan_fraction s =
     (case s of
        p # d # ds \<Rightarrow> if p = CHR ''.'' \<and> is_digit d
                     then (takeWhile is_digit (d # ds), dropWhile is_digit (d # ds)) else ([], s)
      | _ \<Rightarrow> ([], s))"

definition scan_exponent :: "string \<Rightarrow> (int \<times> string) option" where
  "scan_exponent s =
     (case s of
        e # r \<Rightarrow> if e = CHR ''e'' \<or> e = CHR ''E''
                then (let (neg, t) = split_sign r; ds = takeWhile is_digit t
                      in if ds = [] then None
                         else Some (if neg then - digits_val ds else digits_val ds, dropWhile is_digit t))
                else None
      | [] \<Rightarrow> None)"

definition scan_digits :: "string \<Rightarrow> string \<times> string" where
  "scan_digits t =
     (if hd t = CHR ''0'' then ([hd t], tl t) else (takeWhile is_digit t, dropWhile is_digit t))"

definition number_of :: "bool \<Rightarrow> string \<Rightarrow> string \<Rightarrow> int option \<Rightarrow> json" where
  "number_of neg ip fp ex =
     (if fp = [] \<and> ex = None then JInt (if neg then - digits_val ip else digits_val ip)
      else JFloat (double_of neg
             (of_int (digits_val (ip @ fp))
              * pow_rat 10 ((case ex of None \<Rightarrow> 0 | Some e \<Rightarrow> e) - int (length fp)))))"

definition scan_number :: "string \<Rightarrow> json scan" where
  "scan_number s =
     (let neg = startswith ''-'' s; t = (if neg then tl s else s)
      in if t = [] \<or> \<not> is_digit (hd t) then Inl (''Expecting value'', s)
         else
           let (ip, r0) = scan_digits t; (fp, r1) = scan_fraction r0
           in case scan_exponent r1 of
                Some (e, r2) \<Rightarrow> Inr (number_of neg ip fp (Some e), r2)
              | None \<Rightarrow> Inr (number_of neg ip fp None, r1))"

definition scan_literal :: "string \<Rightarrow> (json \<times> string) option" where
  "scan_literal s =
     (if startswith ''null'' s then Some (JNull, drop 4 s)
      else if startswith ''true'' s then Some (JBool True, drop 4 s)
      else if startswith ''false'' s then Some (JBool False, drop 5 s)
      else if startswith ''NaN'' s then Some (JFloat PNaN, drop 3 s)
      else if startswith ''Infinity'' s then Some (JFloat PInf, drop 8 s)
      else if startswith ''-Infinity'' s then Some (JFloat PNegInf, drop 9 s)
      else None)"

definition wrap_scan :: "('a \<Rightarrow> 'b) \<Rightarrow> 'a scan \<Rightarrow> 'b scan" where
  "wrap_scan f r = (case r of Inl e \<Rightarrow> Inl e | Inr (x, rest) \<Rightarrow> Inr (f x, rest))"

definition expecting_value :: "string \<Rightarrow> 'a scan" where
  "expecting_value s = Inl (''Expecting value'', s)"

text \<open>
  The recursive scanner. Its first argument bounds the nesting of calls; \<open>json_loads\<close> starts
  with twice the length of the document plus two, and \<open>scan_fuel\<close> below shows that no
  document needs more.
\<close>

fun scan_value :: "nat \<Rightarrow> string \<Rightarrow> json scan"
and scan_items :: "nat \<Rightarrow> string \<Rightarrow> json list scan"
and scan_members :: "nat \<Rightarrow> string \<Rightarrow> (string \<times> json) list scan" where
  "scan_value 0 s = expecting_value s"
| "scan_value (Suc n) s =
     (case s of
        [] \<Rightarrow> expecting_value s
      | c # cs \<Rightarrow>
          if c = CHR 0x22 then wrap_scan JStr (scan_text s cs)
          else if c = CHR ''{'' then
            (let r = skip_ws cs
             in if startswith ''}'' r then Inr (JObj [], tl r)
                else wrap_scan (\<lambda>ms. JObj (dict_update [] ms)) (scan_members n r))
          else if c = CHR ''['' then
            (let r = skip_ws cs
             in if startswith '']'' r then Inr (JList [], tl r) else wrap_scan JList (scan_items n r))
          else (case scan_literal s of Some x \<Rightarrow> Inr x | None \<Rightarrow> scan_number s))"
| "scan_items 0 s = expecting_value s"
| "scan_items (Suc n) s =
     (case scan_value n s of
        Inl e \<Rightarrow> Inl e
      | Inr (v, r) \<Rightarrow>
          (let r1 = skip_ws r
           in if startswith '']'' r1 then Inr ([v], tl r1)
              else if startswith '','' r1 then wrap_scan (Cons v) (scan_items n (skip_ws (tl r1)))
              else Inl (''Expecting '' @ quoted '','' @ '' delimiter'', r1)))"
| "scan_members 0 s = expecting_value s"
| "scan_members (Suc n) s =
     (if \<not> startswith [CHR 0x22] s then Inl (''Expecting property name enclosed in double quotes'', s)
      else
        (case scan_text s (tl s) of
           Inl e \<Rightarrow> Inl e
         | Inr (k, r) \<Rightarrow>
             (let r1 = skip_ws r
              in if \<not> startswith '':'' r1 then Inl (''Expecting '' @ quoted '':'' @ '' delimiter'', r1)
                 else
                   (case scan_value n (skip_ws (tl r1)) of
                      Inl e \<Rightarrow> Inl e
                    | Inr (v, r2) \<Rightarrow>
                        (let r3 = skip_ws r2
                         in if startswith ''}'' r3 then Inr ([(k, v)], tl r3)
                            else if startswith '','' r3
                                 then wrap_scan (Cons (k, v)) (scan_members n (skip_ws (tl r3)))
                            else Inl (''Expecting '' @ quoted '','' @ '' delimiter'', r3))))))"

text \<open>The text of a JSONDecodeError: message, line, column and position, from 0 and in characters.\<close>

definition decode_error :: "string \<Rightarrow> string \<Rightarrow> string \<Rightarrow> string" where
  "decode_error msg doc rest =
     (let seen = take (length doc - length rest) doc;
          line = length (filter (\<lambda>c. c = CHR 0x0A) seen) + 1;
          col = cp_length (takeWhile (\<lambda>c. c \<noteq> CHR 0x0A) (rev seen)) + 1
      in msg @ '': line '' @ nat_str line @ '' column '' @ nat_str col
         @ '' (char '' @ nat_str (cp_length seen) @ '')'')"

definition bom :: string where "bom = [CHR 0xEF, CHR 0xBB, CHR 0xBF]"

definition json_loads :: "string \<Rightarrow> string + json" where
  "json_loads doc =
     (if startswith bom doc
      then Inl (decode_error ''Unexpected UTF-8 BOM (decode using utf-8-sig)'' doc doc)
      else
        (case scan_value (2 * length doc + 2) (skip_ws doc) of
           Inl (msg, rest) \<Rightarrow> Inl (decode_error msg doc rest)
         | Inr (v, r) \<Rightarrow>
             (let r1 = skip_ws r
              in if r1 = [] then Inr v else Inl (decode_error ''Extra data'' doc r1))))"

section \<open>The scanner's fuel\<close>

lemma prepend_Inr: "prepend p x = Inr (t, r) \<longleftrightarrow> (\<exists>s. x = Inr (s, r) \<and> t = p @ s)"
  by (auto simp: prepend_def split: sum.splits)

lemma wrap_scan_Inr: "wrap_scan f x = Inr (t, r) \<longleftrightarrow> (\<exists>s. x = Inr (s, r) \<and> t = f s)"
  by (auto simp: wrap_scan_def split: sum.splits)

lemma wrap_scan_simps [simp]:
  "wrap_scan f (Inl e) = Inl e" "wrap_scan f (Inr (x, r)) = Inr (f x, r)"
  by (simp_all add: wrap_scan_def)

lemma scan_text_rest: "scan_text q s = Inr (t, r) \<Longrightarrow> length r < length s"
proof (induction q s arbitrary: t r rule: scan_text.induct)
  case (1 q s)
  then show ?case
    by (subst (asm) (2) scan_text.simps)
       (fastforce simp: prepend_Inr split: text_unit.splits dest: scan_unit_rest scan_unit_closed)
qed

lemma length_skip_ws: "length (skip_ws s) \<le> length s"
  by (simp add: skip_ws_def length_dropWhile_le)

lemma startswith_length: "startswith p s \<Longrightarrow> length p \<le> length s"
  by (auto simp: startswith_iff)

lemma scan_fraction_rest: "scan_fraction s = (f, r) \<Longrightarrow> length r \<le> length s"
  by (auto simp: scan_fraction_def split: list.splits if_splits)
     (metis le_SucI length_dropWhile_le le_Suc_eq)+

lemma split_sign_rest: "split_sign s = (b, r) \<Longrightarrow> length r \<le> length s"
  by (auto simp: split_sign_def split: list.splits if_splits)

lemma scan_exponent_rest: "scan_exponent s = Some (e, r) \<Longrightarrow> length r < length s"
  by (auto simp: scan_exponent_def Let_def split: list.splits if_splits prod.splits
      dest!: split_sign_rest) (metis le_imp_less_Suc length_dropWhile_le order_trans)+

lemma scan_digits_rest: "t \<noteq> [] \<Longrightarrow> is_digit (hd t) \<Longrightarrow> scan_digits t = (ip, r) \<Longrightarrow> length r < length t"
  by (cases t) (auto simp: scan_digits_def length_dropWhile_le le_imp_less_Suc split: if_splits)

lemma scan_number_rest: "scan_number s = Inr (v, r) \<Longrightarrow> length r < length s"
  unfolding scan_number_def Let_def
  by (auto split: if_splits prod.splits option.splits
      dest!: scan_digits_rest scan_fraction_rest scan_exponent_rest)

lemma scan_literal_rest: "scan_literal s = Some (v, r) \<Longrightarrow> length r < length s"
  by (auto simp: scan_literal_def simp del: startswith.simps split: if_splits dest!: startswith_length)

lemma length_tl_skip: "length (tl (skip_ws s)) \<le> length s"
  by (metis length_skip_ws length_tl diff_le_self order_trans)

lemma scan_value_body_rest:
  assumes "scan_value (Suc n) s = Inr (v, r)"
    and items: "\<And>t vs r. scan_items n t = Inr (vs, r) \<Longrightarrow> length r < length t"
    and members: "\<And>t ms r. scan_members n t = Inr (ms, r) \<Longrightarrow> length r < length t"
  shows "length r < length s"
proof (cases s)
  case Nil
  with assms(1) show ?thesis by (simp add: expecting_value_def)
next
  case (Cons c cs)
  have le: "length (skip_ws cs) \<le> length cs" "length (tl (skip_ws cs)) \<le> length cs"
    by (rule length_skip_ws, rule length_tl_skip)
  consider (quoted_text) "wrap_scan JStr (scan_text s cs) = Inr (v, r)"
    | (empty) "r = tl (skip_ws cs)"
    | (obj) "wrap_scan (\<lambda>ms. JObj (dict_update [] ms)) (scan_members n (skip_ws cs)) = Inr (v, r)"
    | (arr) "wrap_scan JList (scan_items n (skip_ws cs)) = Inr (v, r)"
    | (lit) "scan_literal s = Some (v, r)"
    | (num) "scan_number s = Inr (v, r)"
    using assms(1) unfolding Cons
    by (auto simp: Let_def split: if_splits option.splits)
  then show ?thesis
  proof cases
    case quoted_text
    then show ?thesis using Cons by (auto simp: wrap_scan_Inr dest: scan_text_rest)
  next
    case empty
    then show ?thesis using le Cons by simp
  next
    case obj
    then show ?thesis using le Cons by (auto simp: wrap_scan_Inr dest!: members)
  next
    case arr
    then show ?thesis using le Cons by (auto simp: wrap_scan_Inr dest!: items)
  qed (auto dest: scan_literal_rest scan_number_rest)
qed

lemma scan_items_body_rest:
  assumes "scan_items (Suc n) s = Inr (vs, r)"
    and vals: "\<And>t v r. scan_value n t = Inr (v, r) \<Longrightarrow> length r < length t"
    and items: "\<And>t vs r. scan_items n t = Inr (vs, r) \<Longrightarrow> length r < length t"
  shows "length r < length s"
proof -
  obtain v r0 where v: "scan_value n s = Inr (v, r0)"
    using assms(1) by (auto split: sum.splits)
  then have "length r0 < length s" by (rule vals)
  moreover have "length (tl (skip_ws r0)) \<le> length r0" by (rule length_tl_skip)
  moreover have "length (skip_ws (tl (skip_ws r0))) \<le> length (tl (skip_ws r0))" by (rule length_skip_ws)
  ultimately show ?thesis
    using assms(1) v by (auto simp: Let_def wrap_scan_Inr split: if_splits dest!: items)
qed

lemma scan_members_body_rest:
  assumes "scan_members (Suc n) s = Inr (vs, r)"
    and vals: "\<And>t v r. scan_value n t = Inr (v, r) \<Longrightarrow> length r < length t"
    and members: "\<And>t vs r. scan_members n t = Inr (vs, r) \<Longrightarrow> length r < length t"
  shows "length r < length s"
proof -
  obtain k r0 v r2 where k: "scan_text s (tl s) = Inr (k, r0)"
    and v: "scan_value n (skip_ws (tl (skip_ws r0))) = Inr (v, r2)"
    using assms(1) by (auto simp: Let_def split: sum.splits if_splits)
  have "length r0 < length (tl s)" using k by (rule scan_text_rest)
  moreover have "length (skip_ws (tl (skip_ws r0))) \<le> length r0"
    using length_tl_skip [of r0] length_skip_ws [of "tl (skip_ws r0)"] by linarith
  moreover have "length r2 < length (skip_ws (tl (skip_ws r0)))" using v by (rule vals)
  moreover have "length (skip_ws (tl (skip_ws r2))) \<le> length r2" "length (tl (skip_ws r2)) \<le> length r2"
    using length_tl_skip [of r2] length_skip_ws [of "tl (skip_ws r2)"] by linarith+
  ultimately show ?thesis
    using assms(1) k v by (auto simp: Let_def wrap_scan_Inr split: if_splits dest!: members)
qed

lemma scan_rest_all:
  "(\<forall>s v r. scan_value n s = Inr (v, r) \<longrightarrow> length r < length s) \<and>
   (\<forall>s vs r. scan_items n s = Inr (vs, r) \<longrightarrow> length r < length s) \<and>
   (\<forall>s ms r. scan_members n s = Inr (ms, r) \<longrightarrow> length r < length s)"
proof (induction n)
  case 0
  show ?case by (simp add: expecting_value_def)
next
  case (Suc n)
  then show ?case
    by (blast intro: scan_value_body_rest scan_items_body_rest scan_members_body_rest)
qed

lemmas scan_rest = scan_rest_all [THEN conjunct1, rule_format]
  scan_rest_all [THEN conjunct2, THEN conjunct1, rule_format]
  scan_rest_all [THEN conjunct2, THEN conjunct2, rule_format]

lemma scan_fuel_all:
  "n \<le> m \<longrightarrow>
   (\<forall>s. 2 * length s + 2 \<le> n \<longrightarrow> scan_value m s = scan_value n s) \<and>
   (\<forall>s. 2 * length s + 3 \<le> n \<longrightarrow> scan_items m s = scan_items n s) \<and>
   (\<forall>s. 2 * length s + 3 \<le> n \<longrightarrow> scan_members m s = scan_members n s)"
proof (induction n arbitrary: m)
  case 0
  show ?case by simp
next
  case (Suc n)
  show ?case
  proof (cases m)
    case (Suc m')
    have IH: "n \<le> m' \<Longrightarrow> 2 * length s + 2 \<le> n \<Longrightarrow> scan_value m' s = scan_value n s"
      "n \<le> m' \<Longrightarrow> 2 * length s + 3 \<le> n \<Longrightarrow> scan_items m' s = scan_items n s"
      "n \<le> m' \<Longrightarrow> 2 * length s + 3 \<le> n \<Longrightarrow> scan_members m' s = scan_members n s" for s
      using Suc.IH [of m'] by blast+
    have "scan_value (Suc m') s = scan_value (Suc n) s" if le: "n \<le> m'" and "2 * length s + 2 \<le> Suc n" for s
    proof (cases s)
      case (Cons c cs)
      then have "2 * length (skip_ws cs) + 3 \<le> n"
        using that(2) length_skip_ws [of cs] by simp
      then show ?thesis using Cons IH(2,3) [OF le] by (simp add: Let_def)
    qed simp
    moreover have "scan_items (Suc m') s = scan_items (Suc n) s"
      if le: "n \<le> m'" and b: "2 * length s + 3 \<le> Suc n" for s
    proof -
      have v: "scan_value m' s = scan_value n s" using b by (intro IH(1) le) simp
      have "scan_items m' (skip_ws (tl (skip_ws r))) = scan_items n (skip_ws (tl (skip_ws r)))"
        if "scan_value n s = Inr (x, r)" "startswith '','' (skip_ws r)" for x r
      proof (rule IH(2) [OF le])
        have "length r < length s" using that(1) by (rule scan_rest(1))
        moreover have "length (tl (skip_ws r)) < length r"
          using that(2) length_skip_ws [of r] by (cases "skip_ws r") auto
        ultimately show "2 * length (skip_ws (tl (skip_ws r))) + 3 \<le> n"
          using b length_skip_ws [of "tl (skip_ws r)"] by linarith
      qed
      then show ?thesis by (auto simp: v Let_def split: sum.splits)
    qed
    moreover have "scan_members (Suc m') s = scan_members (Suc n) s"
      if le: "n \<le> m'" and b: "2 * length s + 3 \<le> Suc n" for s
    proof -
      have v: "scan_value m' (skip_ws (tl (skip_ws r))) = scan_value n (skip_ws (tl (skip_ws r)))"
        if "scan_text s (tl s) = Inr (x, r)" for x r
      proof (rule IH(1) [OF le])
        have "length r < length s" using that scan_text_rest [of s "tl s"] by fastforce
        then show "2 * length (skip_ws (tl (skip_ws r))) + 2 \<le> n"
          using b length_skip_ws [of "tl (skip_ws r)"] length_tl_skip [of r] by linarith
      qed
      have "scan_members m' (skip_ws (tl (skip_ws r2))) = scan_members n (skip_ws (tl (skip_ws r2)))"
        if "scan_text s (tl s) = Inr (x, r)" "scan_value n (skip_ws (tl (skip_ws r))) = Inr (y, r2)" for x r y r2
      proof (rule IH(3) [OF le])
        have "length r < length s" using that scan_text_rest [of s "tl s"] by fastforce
        moreover have "length r2 < length (skip_ws (tl (skip_ws r)))" using that(2) by (rule scan_rest(1))
        ultimately show "2 * length (skip_ws (tl (skip_ws r2))) + 3 \<le> n"
          using b length_skip_ws [of "tl (skip_ws r)"] length_tl_skip [of r]
            length_skip_ws [of "tl (skip_ws r2)"] length_tl_skip [of r2] by linarith
      qed
      then show ?thesis by (auto simp: v Let_def split: sum.splits)
    qed
    ultimately show ?thesis using Suc by auto
  qed simp
qed

lemmas scan_fuel = scan_fuel_all [rule_format, THEN conjunct1, rule_format]
end
