(* ===== verification/World.thy ===== *)
theory World
  imports PyJsonText
begin

text \<open>
  Everything outside the process. Each interaction with it (an HTTP request, a clock reading, a
  Redis command, a database statement, a call of the sandbox SDK) appends an \<open>event\<close> to the
  trace, and the answer is a function of the trace up to and including that event: a \<open>world\<close> is
  one such choice of answers, so a theorem for every world covers every adaptive environment.
  Third-party code (python-jose, jsonschema, httpx, the Daytona SDK) is a field of the world.
\<close>

section \<open>HTTP\<close>

record http_req =
  hr_verb :: string
  hr_url :: string
  hr_params :: "json dict"
  hr_body :: "json option"
  hr_headers :: "string dict"
  hr_timeout :: pyfloat

record http_resp =
  rs_status :: int
  rs_headers :: "string dict"
  rs_text :: string

text \<open>
  How a request of the httpx client ends: \<open>Timeout\<close> is httpx.TimeoutException, \<open>TransportError\<close>
  any other httpx.HTTPError, \<open>Raised\<close> an exception outside that hierarchy.
\<close>

datatype http_outcome =
    Response http_resp
  | Timeout string
  | TransportError string
  | Raised string string

text \<open>Header names are compared without case.\<close>

definition header_of :: "http_resp \<Rightarrow> string \<Rightarrow> string option" where
  "header_of r name = map_of (map (\<lambda>(k, v). (lower k, v)) (rs_headers r)) (lower name)"

text \<open>\<open>raise_for_status\<close> accepts 2xx only.\<close>

definition is_success :: "http_resp \<Rightarrow> bool" where
  "is_success r \<longleftrightarrow> 200 \<le> rs_status r \<and> rs_status r < 300"

text \<open>\<open>resp.json()\<close>: the document, or the text of the ValueError.\<close>

definition resp_json :: "http_resp \<Rightarrow> string + json" where
  "resp_json r = json_loads (rs_text r)"

section \<open>The sandbox SDK\<close>

datatype sdk_error =
    AuthenticationError | AuthorizationError | NotFoundError | ValidationError | TimeoutError
  | ConnectionError | RateLimitError | OtherDaytonaError | AsyncioTimeout | OtherError

datatype sdk_call =
    SdkClient string string
  | SdkCreate string pyfloat
  | SdkRun string int
  | SdkDelete
  | SdkClose

text \<open>The artifacts of a run: what \<open>model_dump()\<close> gives, or their \<open>str\<close> when it raises.\<close>

datatype sdk_artifacts = Dumped json | Undumped string

record sdk_response =
  sr_exit_code :: "json option"
  sr_result :: "json option"
  sr_artifacts :: "sdk_artifacts option"

datatype sdk_outcome = SdkOk | SdkRan sdk_response | SdkFail sdk_error string

section \<open>The trace\<close>

datatype event =
    EvHttp http_req
  | EvClock
  | EvNow
  | EvUuid
  | EvSleep rat
  | EvRedisGet string
  | EvRedisSet string int string
  | EvRedisDel string
  | EvRedisPing
  | EvDb string
  | EvSdk sdk_call

type_synonym trace = "event list"

section \<open>Third-party functions\<close>

text \<open>
  Options of \<open>jose.jwt.decode\<close>: the algorithms allowed, the audience and issuer expected (when
  given), whether \<open>aud\<close> and \<open>iss\<close> are checked, and the leeway.
\<close>

record jwt_options =
  jo_algorithms :: "string list"
  jo_audience :: "string option"
  jo_issuer :: "string option"
  jo_verify_aud :: bool
  jo_verify_iss :: bool
  jo_leeway :: int

datatype jwt_key = SecretKey string | JwkKey json

text \<open>A call of python-jose returns, raises a JWTError with a text, or raises something else.\<close>

datatype 'a jose = JoseOk 'a | JWTError string | JoseRaised string string

fun jose_res :: "'a jose \<Rightarrow> 'a res" where
  "jose_res (JoseOk x) = Inr x"
| "jose_res (JWTError t) = Inl (PyError ''JWTError'' t)"
| "jose_res (JoseRaised c t) = Inl (PyError c t)"

text \<open>\<open>jsonschema.validate\<close>: valid, a ValidationError, or another exception (a SchemaError).\<close>

datatype schema_outcome = SchemaOk | SchemaInvalid string | SchemaBroken string string

record world =
  w_environ :: "string \<Rightarrow> string option"
  w_http :: "trace \<Rightarrow> http_outcome"
  w_clock :: "trace \<Rightarrow> rat"
  w_now :: "trace \<Rightarrow> int"
  w_uuid :: "trace \<Rightarrow> string"
  w_redis_get :: "trace \<Rightarrow> string + string option"
  w_redis_ok :: "trace \<Rightarrow> string option"
  w_db_error :: "trace \<Rightarrow> (string \<times> string) option"
  w_sdk_installed :: bool
  w_sdk :: "trace \<Rightarrow> sdk_outcome"
  w_collate :: "string \<Rightarrow> string"
  w_jwt_decode :: "string \<Rightarrow> jwt_key \<Rightarrow> jwt_options \<Rightarrow> json dict jose"
  w_jwt_unverified_claims :: "string \<Rightarrow> json dict jose"
  w_jwt_unverified_header :: "string \<Rightarrow> json dict jose"
  w_schema :: "json dict \<Rightarrow> json dict \<Rightarrow> schema_outcome"

section \<open>Environment variables\<close>

text \<open>\<open>os.environ.get(name, "")\<close>.\<close>

definition environ_get :: "world \<Rightarrow> string \<Rightarrow> string" where
  "environ_get w name = (case w_environ w name of None \<Rightarrow> [] | Some v \<Rightarrow> v)"

text \<open>The same with a name that comes out of a JSON document.\<close>

fun environ_get_json :: "world \<Rightarrow> json \<Rightarrow> string res" where
  "environ_get_json w (JStr name) = Inr (environ_get w name)"
| "environ_get_json w v = Inl (TypeError (''str expected, not '' @ type_name v))"

text \<open>The monotonic clock of \<open>time.monotonic\<close>.\<close>

definition monotonic :: "world \<Rightarrow> bool" where
  "monotonic w \<longleftrightarrow> (\<forall>t t'. w_clock w t \<le> w_clock w (t @ t'))"

section \<open>A sample world\<close>

text \<open>
  An environment for examples: the clocks count events, no service answers, no variable is set,
  every token is refused and every document is valid.
\<close>

definition sample_world :: world where
  "sample_world =
     \<lparr>w_environ = (\<lambda>_. None), w_http = (\<lambda>_. TransportError ''no route''),
      w_clock = (\<lambda>t. of_nat (length t)), w_now = (\<lambda>t. int (length t)), w_uuid = (\<lambda>t. nat_str (length t)),
      w_redis_get = (\<lambda>_. Inr None), w_redis_ok = (\<lambda>_. None), w_db_error = (\<lambda>_. None),
      w_sdk_installed = False, w_sdk = (\<lambda>_. SdkFail OtherError ''none''), w_collate = (\<lambda>s. s),
      w_jwt_decode = (\<lambda>_ _ _. JWTError ''bad''), w_jwt_unverified_claims = (\<lambda>_. JWTError ''bad''),
      w_jwt_unverified_header = (\<lambda>_. JWTError ''bad''), w_schema = (\<lambda>_ _. SchemaOk)\<rparr>"

text \<open>The same with one variable.\<close>

definition env_world :: world where
  "env_world = sample_world\<lparr>w_environ := (\<lambda>n. if n = ''ECHO_URL'' then Some ''http://up/'' else None)\<rparr>"

text \<open>
  The same with two tokens, \<open>staff\<close> signed with one secret and \<open>cust\<close> with another, and a ticket
  system that knows one customer.
\<close>

definition staff_claims :: "json dict" where
  "staff_claims = [(''sub'', JStr ''u1''), (''roles'', JList [JStr ''dev''])]"

definition customer_claims :: "json dict" where
  "customer_claims = [(''sub'', JStr ''c1''), (''role'', JStr ''CUSTOMER''), (''roles'', JList [JStr ''dev''])]"

definition token_world :: world where
  "token_world = sample_world
     \<lparr>w_jwt_decode := (\<lambda>tok key _.
        if tok = ''staff'' \<and> key = SecretKey ''dev-key'' then JoseOk staff_claims
        else if tok = ''cust'' \<and> key = SecretKey ''gd-key'' then JoseOk customer_claims
        else JWTError ''bad signature''),
      w_jwt_unverified_claims := (\<lambda>tok. JoseOk (if tok = ''cust'' then customer_claims else staff_claims)),
      w_http := (\<lambda>_. Response \<lparr>rs_status = 200, rs_headers = [],
        rs_text = json_dumps False (JObj [(''id'', JStr ''c1''), (''customerCode'', JStr ''CUST-1'')])\<rparr>)\<rparr>"

end
