(* ===== verification/GwState.thy ===== *)
theory GwState
  imports World
begin

text \<open>
  The data of the gateway: the tables of \<open>app/db/models.py\<close>, the immutable \<open>ToolView\<close>
  snapshots and the \<open>ToolCache\<close> of \<open>app/registry/cache.py\<close>, the JWKS cache, the sessions of the
  MCP proxy, the resolved identity of a request, and the state \<open>gw\<close> that holds all of them with
  the trace of interactions. The operations are in the theories of their components.
\<close>

section \<open>Tables\<close>

text \<open>
  A JSONB column holds an object or JSON null (\<open>None\<close>): the API can store both.
\<close>

record tool_row =
  t_id :: int
  t_name :: string
  t_display_name :: string
  t_description :: string
  t_category :: "string option"
  t_enabled :: bool
  t_dispatcher :: string
  t_config :: "json dict option"
  t_auth_mode :: string
  t_secret_env_name :: "string option"
  t_auth_header :: "string option"
  t_auth_prefix :: string
  t_input_schema :: "json dict option"
  t_output_schema :: "json dict option"
  t_created_at :: int
  t_updated_at :: int
  t_created_by :: "string option"
  t_version :: int

text \<open>\<open>column or {}\<close>.\<close>

definition dict_or :: "json dict option \<Rightarrow> json dict" where
  "dict_or o' = (case o' of None \<Rightarrow> [] | Some d \<Rightarrow> d)"

datatype audit_status = Allowed | Denied | Error | Ok

record audit_row =
  a_id :: int
  a_trace_id :: string
  a_user_id :: string
  a_user_email :: json
  a_roles :: "string list"
  a_tool_name :: string
  a_tool_id :: "int option"
  a_arguments :: json
  a_sensitive_fields_hit :: "string list"
  a_status :: audit_status
  a_deny_reason :: "string option"
  a_error_message :: "string option"
  a_error_code :: "int option"
  a_error_kind :: "string option"
  a_latency_ms :: "int option"
  a_started_at :: int
  a_finished_at :: int

text \<open>
  Rows of \<open>tool_role_grants\<close> and of \<open>tool_customer_grants\<close>: the tool, the role or customer code,
  and who granted it when. Both tables have the first two columns as primary key.
\<close>

record grant_row =
  gr_tool :: int
  gr_key :: string
  gr_at :: int
  gr_by :: "string option"

text \<open>The tables, and the next values of the id sequences of tools and audit rows.\<close>

record db =
  db_tools :: "tool_row list"
  db_role_grants :: "grant_row list"
  db_customer_grants :: "grant_row list"
  db_audit :: "audit_row list"
  db_tool_seq :: int
  db_audit_seq :: int

section \<open>Registry snapshot\<close>

record tool_view =
  v_id :: int
  v_name :: string
  v_display_name :: string
  v_description :: string
  v_category :: "string option"
  v_dispatcher :: string
  v_config :: "json dict"
  v_auth_mode :: string
  v_secret_env_name :: "string option"
  v_auth_header :: "string option"
  v_auth_prefix :: string
  v_input_schema :: "json dict"
  v_output_schema :: "json dict option"
  v_roles :: "string set"
  v_customer_codes :: "string set"

text \<open>
  A subscriber is a queue of at most 16 events, here with the number that identifies the queue
  object; \<open>tc_next_queue\<close> supplies fresh numbers.
\<close>

record tool_cache =
  tc_ttl :: rat
  tc_tools :: "tool_view list"
  tc_by_name :: "tool_view dict"
  tc_loaded_at :: rat
  tc_subscribers :: "(nat \<times> string list) list"
  tc_next_queue :: nat

section \<open>Identity\<close>

record auth_ctx =
  user_id :: string
  roles :: "string list"
  raw_token :: string
  email :: json
  user_name :: json
  customer_code :: "string option"
  customer_id :: "string option"
  customer_tier :: json
  customer_queue_type :: json
  claims :: "json dict"

section \<open>JWKS cache\<close>

record jwks_cache =
  jw_url :: string
  jw_ttl :: rat
  jw_cooldown :: rat
  jw_keys :: "(json \<times> json) list"
  jw_fetched_at :: rat
  jw_last_attempt :: rat

section \<open>Process state\<close>

record gw =
  g_trace :: trace
  g_db :: db
  g_cache :: tool_cache
  g_jwks :: "jwks_cache option"
  g_proxy_sessions :: "((string \<times> string) \<times> string) list"

text \<open>Recording an interaction.\<close>

definition emit :: "event \<Rightarrow> gw \<Rightarrow> gw" where
  "emit e g = g\<lparr>g_trace := g_trace g @ [e]\<rparr>"

lemma emit_simps [simp]:
  "g_trace (emit e g) = g_trace g @ [e]" "g_db (emit e g) = g_db g" "g_cache (emit e g) = g_cache g"
  "g_jwks (emit e g) = g_jwks g" "g_proxy_sessions (emit e g) = g_proxy_sessions g"
  by (simp_all add: emit_def)

text \<open>The outside world's answers, each recorded first.\<close>

definition read_clock :: "world \<Rightarrow> gw \<Rightarrow> rat \<times> gw" where
  "read_clock w g = (let g' = emit EvClock g in (w_clock w (g_trace g'), g'))"

definition read_now :: "world \<Rightarrow> gw \<Rightarrow> int \<times> gw" where
  "read_now w g = (let g' = emit EvNow g in (w_now w (g_trace g'), g'))"

definition new_uuid :: "world \<Rightarrow> gw \<Rightarrow> string \<times> gw" where
  "new_uuid w g = (let g' = emit EvUuid g in (w_uuid w (g_trace g'), g'))"

definition http_request :: "world \<Rightarrow> http_req \<Rightarrow> gw \<Rightarrow> http_outcome \<times> gw" where
  "http_request w r g = (let g' = emit (EvHttp r) g in (w_http w (g_trace g'), g'))"

definition sdk :: "world \<Rightarrow> sdk_call \<Rightarrow> gw \<Rightarrow> sdk_outcome \<times> gw" where
  "sdk w c g = (let g' = emit (EvSdk c) g in (w_sdk w (g_trace g'), g'))"

definition sleep :: "rat \<Rightarrow> gw \<Rightarrow> gw" where
  "sleep d g = emit (EvSleep d) g"

text \<open>A database round trip: the exception it raises, if any.\<close>

definition db_call :: "world \<Rightarrow> string \<Rightarrow> gw \<Rightarrow> unit res \<times> gw" where
  "db_call w what g =
     (let g' = emit (EvDb what) g
      in (case w_db_error w (g_trace g') of
            None \<Rightarrow> Inr () | Some (cls, txt) \<Rightarrow> Inl (PyError cls txt), g'))"

section \<open>Interactions extend the trace\<close>

text \<open>
  \<open>extends g g'\<close>: the trace of \<open>g'\<close> is that of \<open>g\<close> followed by the events that \<open>new_events g g'\<close>
  names.
\<close>

definition extends :: "gw \<Rightarrow> gw \<Rightarrow> bool" where
  "extends g g' \<longleftrightarrow> (\<exists>es. g_trace g' = g_trace g @ es)"

definition new_events :: "gw \<Rightarrow> gw \<Rightarrow> trace" where
  "new_events g g' = drop (length (g_trace g)) (g_trace g')"

lemma extends_refl [simp, intro]: "extends g g"
  by (simp add: extends_def)

lemma extends_trans [trans]: "extends g g' \<Longrightarrow> extends g' g'' \<Longrightarrow> extends g g''"
  by (auto simp: extends_def)

lemma extends_emit [simp, intro]: "extends g (emit e g)"
  by (simp add: extends_def)

lemma new_events_refl [simp]: "new_events g g = []"
  by (simp add: new_events_def)

lemma new_events_emit [simp]: "new_events g (emit e g) = [e]"
  by (simp add: new_events_def)

lemma new_events_trans:
  "extends g g' \<Longrightarrow> extends g' g'' \<Longrightarrow> new_events g g'' = new_events g g' @ new_events g' g''"
  by (auto simp: extends_def new_events_def)

lemma extends_trace: "extends g g' \<Longrightarrow> g_trace g' = g_trace g @ new_events g g'"
  by (auto simp: extends_def new_events_def)

text \<open>Does an event reach an upstream service (HTTP or sandbox)?\<close>

fun upstream :: "event \<Rightarrow> bool" where
  "upstream (EvHttp _) = True"
| "upstream (EvSdk _) = True"
| "upstream _ = False"

text \<open>\<open>quiet g g'\<close>: what happened between the two states reached no upstream service.\<close>

definition quiet :: "gw \<Rightarrow> gw \<Rightarrow> bool" where
  "quiet g g' \<longleftrightarrow> extends g g' \<and> list_all (\<lambda>e. \<not> upstream e) (new_events g g')"

lemma quiet_refl [simp, intro]: "quiet g g"
  by (simp add: quiet_def)

lemma quiet_trans [trans]: "quiet g g' \<Longrightarrow> quiet g' g'' \<Longrightarrow> quiet g g''"
  using new_events_trans [of g g' g''] extends_trans [of g g' g''] by (simp add: quiet_def)

lemma quiet_emit [simp, intro]: "\<not> upstream e \<Longrightarrow> quiet g (emit e g)"
  by (simp add: quiet_def)

lemma quiet_extends: "quiet g g' \<Longrightarrow> extends g g'"
  by (simp add: quiet_def)

lemma quiet_same_trace: "g_trace g' = g_trace g \<Longrightarrow> quiet g g'"
  by (simp add: quiet_def extends_def new_events_def)

text \<open>
  \<open>outside_only g g'\<close>: the trace grew, and the tables, the registry snapshot and the proxy sessions
  stayed; the operations of authentication are of this kind.
\<close>

definition outside_only :: "gw \<Rightarrow> gw \<Rightarrow> bool" where
  "outside_only g g' \<longleftrightarrow>
     extends g g' \<and> g_db g' = g_db g \<and> g_cache g' = g_cache g \<and> g_proxy_sessions g' = g_proxy_sessions g"

lemma outside_only_refl [simp, intro]: "outside_only g g"
  by (simp add: outside_only_def)

lemma outside_only_emit [simp, intro]: "outside_only g (emit e g)"
  by (simp add: outside_only_def)

lemma outside_only_trans: "outside_only g g' \<Longrightarrow> outside_only g' g'' \<Longrightarrow> outside_only g g''"
  using extends_trans [of g g' g''] by (simp add: outside_only_def)

text \<open>The number of requests to upstream services between two states.\<close>

definition requests :: "gw \<Rightarrow> gw \<Rightarrow> nat" where
  "requests g g' = length (filter upstream (new_events g g'))"

lemma requests_refl [simp]: "requests g g = 0"
  by (simp add: requests_def)

lemma requests_trans: "extends g g' \<Longrightarrow> extends g' g'' \<Longrightarrow> requests g g'' = requests g g' + requests g' g''"
  using new_events_trans [of g g' g''] by (simp add: requests_def)

lemma quiet_requests: "quiet g g' \<Longrightarrow> requests g g' = 0"
  by (simp add: quiet_def requests_def filter_empty_conv list_all_iff)

text \<open>What the basic interactions leave alone.\<close>

lemma read_clock_frame [simp]: "snd (read_clock w g) = emit EvClock g"
  by (simp add: read_clock_def Let_def)

lemma read_now_frame [simp]: "snd (read_now w g) = emit EvNow g"
  by (simp add: read_now_def Let_def)

lemma new_uuid_frame [simp]: "snd (new_uuid w g) = emit EvUuid g"
  by (simp add: new_uuid_def Let_def)

lemma http_request_frame [simp]: "snd (http_request w r g) = emit (EvHttp r) g"
  by (simp add: http_request_def Let_def)

lemma sdk_frame [simp]: "snd (sdk w c g) = emit (EvSdk c) g"
  by (simp add: sdk_def Let_def)

lemma db_call_frame [simp]: "snd (db_call w what g) = emit (EvDb what) g"
  by (simp add: db_call_def Let_def)

section \<open>A sample state\<close>

definition sample_tool :: tool_row where
  "sample_tool =
     \<lparr>t_id = 1, t_name = ''echo'', t_display_name = ''Echo'', t_description = ''Echoes'', t_category = None,
      t_enabled = True, t_dispatcher = ''http_adapter'', t_config = Some [(''base_url_env'', JStr ''ECHO_URL'')],
      t_auth_mode = ''user_passthrough'', t_secret_env_name = None, t_auth_header = None, t_auth_prefix = [],
      t_input_schema = Some [(''type'', JStr ''object'')], t_output_schema = None, t_created_at = 0,
      t_updated_at = 0, t_created_by = None, t_version = 1\<rparr>"

definition sample_db :: db where
  "sample_db =
     \<lparr>db_tools = [sample_tool],
      db_role_grants = [\<lparr>gr_tool = 1, gr_key = ''dev'', gr_at = 0, gr_by = None\<rparr>],
      db_customer_grants = [\<lparr>gr_tool = 1, gr_key = ''CUST-1'', gr_at = 0, gr_by = None\<rparr>],
      db_audit = [], db_tool_seq = 2, db_audit_seq = 1\<rparr>"

definition sample_gw :: gw where
  "sample_gw =
     \<lparr>g_trace = [], g_db = sample_db,
      g_cache = \<lparr>tc_ttl = 30, tc_tools = [], tc_by_name = [], tc_loaded_at = 0, tc_subscribers = [],
                 tc_next_queue = 0\<rparr>,
      g_jwks = None, g_proxy_sessions = []\<rparr>"

definition sample_ctx :: auth_ctx where
  "sample_ctx =
     \<lparr>user_id = ''u1'', roles = [''dev''], raw_token = ''tok'', email = JNull, user_name = JNull,
      customer_code = Some ''CUST-1'', customer_id = None, customer_tier = JNull,
      customer_queue_type = JNull, claims = []\<rparr>"

definition sample_view :: tool_view where
  "sample_view =
     \<lparr>v_id = 1, v_name = ''echo'', v_display_name = ''Echo'', v_description = ''Echoes'', v_category = None,
      v_dispatcher = ''http_adapter'',
      v_config = [(''base_url_env'', JStr ''ECHO_URL''), (''path'', JStr ''/t/{id}'')],
      v_auth_mode = ''user_passthrough'', v_secret_env_name = None, v_auth_header = Some ''Authorization'',
      v_auth_prefix = ''Bearer '', v_input_schema = [], v_output_schema = None, v_roles = {''dev''},
      v_customer_codes = {}\<rparr>"

end
