(* ===== verification/DispatchBase.thy ===== *)
theory DispatchBase
  imports GwState
begin

text \<open>
  \<open>app/dispatchers/base.py\<close>: invocations and results, and the two interfaces of this layer.
  \<open>dispatcher\<close> is what the MCP handler relies on when it calls one, \<open>status_map\<close> what the
  dispatchers over HTTP share in turning an upstream status into an error.
\<close>

section \<open>Invocation and result\<close>

record tool_invocation =
  inv_tool :: tool_view
  inv_arguments :: "json dict"
  inv_auth :: auth_ctx
  inv_trace_id :: string

record tool_result =
  tr_content :: "json list"
  tr_is_error :: bool

definition to_mcp :: "tool_result \<Rightarrow> json" where
  "to_mcp r =
     JObj ([(''content'', JList (tr_content r))] @ (if tr_is_error r then [(''isError'', JBool True)] else []))"

definition text_result :: "string \<Rightarrow> tool_result" where
  "text_result s =
     \<lparr>tr_content = [JObj [(''type'', JStr ''text''), (''text'', JStr s)]], tr_is_error = False\<rparr>"

text \<open>A sample.\<close>

definition sample_inv :: tool_invocation where
  "sample_inv =
     \<lparr>inv_tool = sample_view, inv_arguments = [(''id'', JStr ''a/b''), (''q'', JInt 3)],
      inv_auth = sample_ctx, inv_trace_id = ''t1''\<rparr>"

section \<open>The interface of a dispatcher\<close>

text \<open>
  Invoking a dispatcher only adds to the trace, and leaves the tables, the registry snapshot and
  the signing keys alone.
\<close>

locale dispatcher =
  fixes invoke_tool :: "tool_invocation \<Rightarrow> gw \<Rightarrow> tool_result res \<times> gw"
  assumes invoke_extends: "extends g (snd (invoke_tool i g))"
    and invoke_db: "g_db (snd (invoke_tool i g)) = g_db g"
    and invoke_cache: "g_cache (snd (invoke_tool i g)) = g_cache g"
    and invoke_jwks: "g_jwks (snd (invoke_tool i g)) = g_jwks g"
begin

lemma invoke_audit: "db_audit (g_db (snd (invoke_tool i g))) = db_audit (g_db g)"
  by (simp add: invoke_db)

lemma invoke_catalog: "P (g_cache g) (g_db g) \<Longrightarrow> P (g_cache (snd (invoke_tool i g))) (g_db (snd (invoke_tool i g)))"
  by (simp add: invoke_db invoke_cache)

end

section \<open>The interface of an error mapping\<close>

text \<open>
  Success is 2xx; any other status gives a DispatchError with that status, and the kind and code
  of the table 401/403, 404, 400, other.
\<close>

locale status_map =
  fixes check_status :: "http_resp \<Rightarrow> 'a res"
  assumes success: "is_success r \<Longrightarrow> \<exists>x. check_status r = Inr x"
    and denied: "rs_status r \<in> {401, 403} \<Longrightarrow>
      \<exists>m. check_status r = Inl (DispatchError m (-32001) ''upstream_denied'' (Some (rs_status r)))"
    and not_found: "rs_status r = 404 \<Longrightarrow>
      \<exists>m. check_status r = Inl (DispatchError m (-32001) ''upstream_not_found'' (Some 404))"
    and bad_request: "rs_status r = 400 \<Longrightarrow>
      \<exists>m. check_status r = Inl (DispatchError m (-32602) ''upstream_bad_request'' (Some 400))"
    and other: "\<not> is_success r \<Longrightarrow> rs_status r \<notin> {400, 401, 403, 404} \<Longrightarrow>
      \<exists>m. check_status r = Inl (DispatchError m (-32603) ''upstream_error'' (Some (rs_status r)))"
begin

lemma failure_reports_status:
  assumes "\<not> is_success r"
  shows "\<exists>m c k. check_status r = Inl (DispatchError m c k (Some (rs_status r))) \<and>
    k \<in> {''upstream_denied'', ''upstream_not_found'', ''upstream_bad_request'', ''upstream_error''}"
proof -
  consider "rs_status r \<in> {401, 403}" | "rs_status r = 404" | "rs_status r = 400"
    | "rs_status r \<notin> {400, 401, 403, 404}" by auto
  then show ?thesis
    using denied [of r] not_found [of r] bad_request [of r] other [of r] assms by cases auto
qed

lemma success_iff: "(\<exists>x. check_status r = Inr x) \<longleftrightarrow> is_success r"
  using success [of r] failure_reports_status [of r] by (cases "is_success r") auto

lemma denied_iff: "(\<exists>m s. check_status r = Inl (DispatchError m (-32001) ''upstream_denied'' s)) \<longleftrightarrow>
    rs_status r \<in> {401, 403}"
proof
  assume ex: "\<exists>m s. check_status r = Inl (DispatchError m (-32001) ''upstream_denied'' s)"
  consider "is_success r" | "rs_status r \<in> {401, 403}" | "rs_status r = 404" | "rs_status r = 400"
    | "\<not> is_success r" "rs_status r \<notin> {400, 401, 403, 404}" by auto
  then show "rs_status r \<in> {401, 403}"
    using ex success [of r] not_found [of r] bad_request [of r] other [of r] by cases auto
qed (use denied [of r] in blast)

end

end
