(* ===== verification/PyJsonRound.thy ===== *)
theory PyJsonRound
  imports PyJsonText
begin

text \<open>
  Reading back what \<open>json_dumps\<close> printed. A value is \<open>plain\<close> when it holds no float, its
  dictionaries have distinct keys and, with \<open>ensure_ascii\<close>, its texts are ASCII;
  \<open>loads_dumps\<close> shows that \<open>json_loads\<close> returns exactly the value that was printed.
\<close>

section \<open>Printing and reading back\<close>

definition text_ok :: "bool \<Rightarrow> string \<Rightarrow> bool" where
  "text_ok ea s \<longleftrightarrow> (ea \<longrightarrow> list_all (\<lambda>c. (of_char c :: nat) < 128) s)"

fun plain :: "bool \<Rightarrow> json \<Rightarrow> bool" where
  "plain ea (JFloat f) = False"
| "plain ea (JStr s) = text_ok ea s"
| "plain ea (JList xs) = list_all (plain ea) xs"
| "plain ea (JObj kvs) = (wf_dict kvs \<and> list_all (\<lambda>kv. text_ok ea (fst kv) \<and> plain ea (snd kv)) kvs)"
| "plain ea v = True"

definition delim :: "string \<Rightarrow> bool" where
  "delim r \<longleftrightarrow> (case r of [] \<Rightarrow> True | c # _ \<Rightarrow> c = CHR '','' \<or> c = CHR '']'' \<or> c = CHR ''}'')"

subsection \<open>Texts\<close>

lemma hex_val_digit: "d < 16 \<Longrightarrow> hex_val (hex_digit_lower d) = Some d"
  by (auto simp: hex_val_def hex_digit_lower_def Let_def)

lemma hex4_digits:
  "n < 256 \<Longrightarrow> hex4 (hex_digit_lower 0) (hex_digit_lower 0) (hex_digit_lower (n div 16)) (hex_digit_lower (n mod 16)) = Some n"
  by (simp add: hex4_def hex_val_digit less_mult_imp_div_less)

lemma u_escape_byte:
  "n < 128 \<Longrightarrow> u_escape n = [CHR 0x5C, CHR ''u'', hex_digit_lower 0, hex_digit_lower 0,
     hex_digit_lower (n div 16), hex_digit_lower (n mod 16)]"
  by (simp add: u_escape_def)

lemma scan_u_byte:
  assumes "n < 128" and "rest \<noteq> []"
  shows "scan_u p (hex_digit_lower 0 # hex_digit_lower 0 # hex_digit_lower (n div 16) # hex_digit_lower (n mod 16) # rest)
     = Unit [char_of n] rest"
proof -
  have "5 \<le> length (hex_digit_lower 0 # hex_digit_lower 0 # hex_digit_lower (n div 16) # hex_digit_lower (n mod 16) # rest)"
    using assms(2) by (cases rest) auto
  then show ?thesis
    using assms hex4_digits [of n] by (simp add: scan_u_def utf8_def Let_def)
qed

lemma scan_unit_escape:
  "scan_unit q (CHR 0x5C # e # es) =
     (if e = CHR ''u'' then scan_u (e # es) es
      else (case simple_escape e of
              None \<Rightarrow> Broken (''Invalid '' @ [CHR 0x5C] @ ''escape: '') (CHR 0x5C # e # es)
            | Some d \<Rightarrow> Unit [d] es))"
  by (simp add: scan_unit_def)

lemma scan_unit_u:
  "n < 128 \<Longrightarrow> rest \<noteq> [] \<Longrightarrow> scan_unit q (u_escape n @ rest) = Unit [char_of n] rest"
  by (simp add: u_escape_byte scan_unit_escape scan_u_byte)

lemma scan_unit_plain:
  "c \<noteq> CHR 0x22 \<Longrightarrow> c \<noteq> CHR 0x5C \<Longrightarrow> 32 \<le> (of_char c :: nat) \<Longrightarrow> scan_unit q (c # rest) = Unit [c] rest"
  by (simp add: scan_unit_def)

definition dump_one :: "bool \<Rightarrow> char \<Rightarrow> string" where
  "dump_one ea c = (if ea \<and> (of_char c :: nat) \<ge> 127 then u_escape (of_char c) else dump_byte c)"

lemma scan_unit_dump_byte:
  assumes "rest \<noteq> []"
  shows "scan_unit q (dump_byte c @ rest) = Unit [c] rest"
proof -
  consider "c = CHR 0x22" | "c = CHR 0x5C" | "c = CHR 0x0A" | "c = CHR 0x0D" | "c = CHR 0x09"
    | "c = CHR 0x0C" | "c = CHR 0x08"
    | "dump_byte c = u_escape (of_char c)" "(of_char c :: nat) < 32"
    | "dump_byte c = [c]" "c \<noteq> CHR 0x22" "c \<noteq> CHR 0x5C" "32 \<le> (of_char c :: nat)"
    by (cases "c \<in> {CHR 0x22, CHR 0x5C, CHR 0x0A, CHR 0x0D, CHR 0x09, CHR 0x0C, CHR 0x08}";
        cases "(of_char c :: nat) < 32") (auto simp: dump_byte_def)
  then show ?thesis
  proof cases
    case 8
    then show ?thesis using assms by (simp add: scan_unit_u)
  next
    case 9
    then show ?thesis by (simp add: scan_unit_plain)
  qed (simp_all add: dump_byte_def scan_unit_escape simple_escape_def)
qed

lemma scan_unit_dump_one:
  "rest \<noteq> [] \<Longrightarrow> (ea \<longrightarrow> (of_char c :: nat) < 128) \<Longrightarrow> scan_unit q (dump_one ea c @ rest) = Unit [c] rest"
  by (auto simp: dump_one_def scan_unit_dump_byte scan_unit_u)

lemma scan_text_dump:
  "text_ok ea s \<Longrightarrow> scan_text q (concat (map (dump_one ea) s) @ CHR 0x22 # r) = Inr (s, r)"
proof (induction s)
  case Nil
  show ?case by (subst scan_text.simps) (simp add: scan_unit_def)
next
  case (Cons c s)
  then have "text_ok ea s" "ea \<longrightarrow> (of_char c :: nat) < 128" by (auto simp: text_ok_def)
  with Cons.IH show ?case
    by (subst scan_text.simps) (simp add: scan_unit_dump_one prepend_def)
qed

lemma concat_chars_of: "concat (chars_of s) = s"
  by (induction s) (auto split: list.splits)

lemma chars_of_groups:
  "g \<in> set (chars_of s) \<Longrightarrow> g \<noteq> [] \<and> (length g > 1 \<longrightarrow> list_all (\<lambda>c. 128 \<le> (of_char c :: nat)) g)"
proof (induction s arbitrary: g)
  case (Cons c cs)
  show ?case
  proof (cases "chars_of cs")
    case Nil
    with Cons.prems show ?thesis by simp
  next
    case (Cons h hs)
    have h: "h \<noteq> []" "length h > 1 \<longrightarrow> list_all (\<lambda>c. 128 \<le> (of_char c :: nat)) h"
      using Cons.IH [of h] Cons by auto
    have "list_all (\<lambda>c. 128 \<le> (of_char c :: nat)) h" if "continues_char (hd h)"
    proof (cases "length h > 1")
      case False
      with h(1) obtain x where "h = [x]" by (cases h) auto
      with that show ?thesis by (simp add: continues_char_def Let_def)
    qed (use h(2) in simp)
    note hi = this
    have "g = c # h \<and> 128 \<le> (of_char c :: nat) \<and> continues_char (hd h) \<or> g = [c] \<or> g \<in> set (chars_of cs)"
      using Cons.prems unfolding chars_of.simps Cons list.case by (simp split: if_splits) blast+
    then show ?thesis
    proof (elim disjE conjE)
      assume "g \<in> set (chars_of cs)"
      then show ?thesis by (rule Cons.IH)
    qed (simp_all add: hi)
  qed
qed simp

lemma dump_byte_high: "128 \<le> (of_char c :: nat) \<Longrightarrow> dump_byte c = [c]"
  unfolding dump_byte_def
  by (cases "c = CHR 0x22"; cases "c = CHR 0x5C"; cases "c = CHR 0x0A"; cases "c = CHR 0x0D";
      cases "c = CHR 0x09"; cases "c = CHR 0x0C"; cases "c = CHR 0x08"; simp)

lemma dump_char_False: "g \<noteq> [] \<Longrightarrow> (length g > 1 \<longrightarrow> list_all (\<lambda>c. 128 \<le> (of_char c :: nat)) g) \<Longrightarrow>
  dump_char False g = concat (map dump_byte g)"
proof (cases g rule: list.exhaust)
  case (Cons c cs)
  assume a: "length g > 1 \<longrightarrow> list_all (\<lambda>c. 128 \<le> (of_char c :: nat)) g"
  have hi: "list_all (\<lambda>c. 128 \<le> (of_char c :: nat)) l \<Longrightarrow> concat (map dump_byte l) = l" for l
    by (induction l) (auto simp: dump_byte_high)
  show ?thesis
  proof (cases cs)
    case Nil
    with Cons show ?thesis by (simp add: dump_char_def)
  next
    case (Cons d ds)
    with \<open>g = c # cs\<close> a hi [of g] show ?thesis by (simp add: dump_char_def)
  qed
qed simp

lemma concat_map_groups:
  "(\<And>g. g \<in> set gs \<Longrightarrow> f g = concat (map h g)) \<Longrightarrow> concat (map f gs) = concat (map h (concat gs))"
  by (induction gs) auto

lemma chars_of_ascii: "list_all (\<lambda>c. (of_char c :: nat) < 128) s \<Longrightarrow> chars_of s = map (\<lambda>c. [c]) s"
  by (induction s) (auto split: list.splits)

lemma dump_text_bytes:
  assumes "text_ok ea s"
  shows "dump_text ea s = [CHR 0x22] @ concat (map (dump_one ea) s) @ [CHR 0x22]"
proof (cases ea)
  case True
  with assms have "chars_of s = map (\<lambda>c. [c]) s" by (simp add: text_ok_def chars_of_ascii)
  with True show ?thesis by (simp add: dump_text_def dump_char_def dump_one_def [abs_def] comp_def)
next
  case False
  have "concat (map (dump_char False) (chars_of s)) = concat (map dump_byte (concat (chars_of s)))"
    by (rule concat_map_groups) (auto intro!: dump_char_False dest!: chars_of_groups)
  with False show ?thesis by (simp add: dump_text_def dump_one_def [abs_def] concat_chars_of)
qed

subsection \<open>Numbers\<close>

lemma less_10_cases:
  "0 \<le> (d::int) \<Longrightarrow> d < 10 \<Longrightarrow>
   d = 0 \<or> d = 1 \<or> d = 2 \<or> d = 3 \<or> d = 4 \<or> d = 5 \<or> d = 6 \<or> d = 7 \<or> d = 8 \<or> d = 9"
  by arith

lemma digit_char_table:
  "digit_char 0 = CHR ''0''" "digit_char 1 = CHR ''1''" "digit_char 2 = CHR ''2''"
  "digit_char 3 = CHR ''3''" "digit_char 4 = CHR ''4''" "digit_char 5 = CHR ''5''"
  "digit_char 6 = CHR ''6''" "digit_char 7 = CHR ''7''" "digit_char 8 = CHR ''8''"
  "digit_char 9 = CHR ''9''"
  by code_simp+

lemma is_digit_char: "0 \<le> d \<Longrightarrow> d < 10 \<Longrightarrow> is_digit (digit_char d)"
  by (drule (1) less_10_cases, elim disjE) (simp_all add: digit_char_table is_digit_def)

lemma digit_val_char: "0 \<le> d \<Longrightarrow> d < 10 \<Longrightarrow> digit_val (digit_char d) = d"
  by (drule (1) less_10_cases, elim disjE) (simp_all add: digit_char_table digit_val_def)

lemma digit_char_zero: "0 \<le> d \<Longrightarrow> d < 10 \<Longrightarrow> digit_char d = CHR ''0'' \<longleftrightarrow> d = 0"
  by (drule (1) less_10_cases, elim disjE) (simp_all add: digit_char_table)

lemma digits_val_snoc: "digits_val (ds @ [c]) = 10 * digits_val ds + digit_val c"
  by (simp add: digits_val_def)

lemma dec_digits:
  "0 \<le> n \<Longrightarrow> list_all is_digit (dec n) \<and> digits_val (dec n) = n \<and> (hd (dec n) = CHR ''0'' \<longrightarrow> dec n = [CHR ''0''])"
proof (induction n rule: dec.induct)
  case (1 n)
  show ?case
  proof (cases "n < 10")
    case True
    with "1.prems" have "dec n = [digit_char n]" by (subst dec.simps) simp
    with True "1.prems" show ?thesis
      by (simp add: is_digit_char digits_val_def digit_val_char)
  next
    case False
    then have rec: "dec n = dec (n div 10) @ [digit_char (n mod 10)]" by (subst dec.simps) simp
    have "0 < n div 10" using False by simp
    then have IH: "list_all is_digit (dec (n div 10))" "digits_val (dec (n div 10)) = n div 10"
      "hd (dec (n div 10)) = CHR ''0'' \<longrightarrow> dec (n div 10) = [CHR ''0'']"
      using "1.IH" False by auto
    have "hd (dec (n div 10)) \<noteq> CHR ''0''"
    proof
      assume "hd (dec (n div 10)) = CHR ''0''"
      with IH(2,3) have "n div 10 = digits_val [CHR ''0'']" by simp
      with \<open>0 < n div 10\<close> show False by (simp add: digits_val_def digit_val_def)
    qed
    with IH show ?thesis
      by (simp add: rec digits_val_snoc digit_val_char is_digit_char)
  qed
qed

lemma takeWhile_digits: "list_all is_digit ds \<Longrightarrow> delim r \<Longrightarrow> takeWhile is_digit (ds @ r) = ds"
  "list_all is_digit ds \<Longrightarrow> delim r \<Longrightarrow> dropWhile is_digit (ds @ r) = r"
  by (induction ds; cases r; auto simp: delim_def is_digit_def)+

lemma scan_digits_dec: "0 \<le> n \<Longrightarrow> delim r \<Longrightarrow> scan_digits (dec n @ r) = (dec n, r)"
  using dec_digits [of n] by (auto simp: scan_digits_def takeWhile_digits)

lemma scan_fraction_delim: "delim r \<Longrightarrow> scan_fraction r = ([], r)"
  by (auto simp: delim_def scan_fraction_def split: list.splits)

lemma scan_exponent_delim: "delim r \<Longrightarrow> scan_exponent r = None"
  by (auto simp: delim_def scan_exponent_def split: list.splits)

lemma dec_hd_digit: "0 \<le> n \<Longrightarrow> is_digit (hd (dec n))"
  using dec_digits [of n] by (cases "dec n") auto

lemma scan_number_int:
  assumes "delim r"
  shows "scan_number (int_str i @ r) = Inr (JInt i, r)"
proof (cases "i < 0")
  case True
  with assms show ?thesis
    using dec_digits [of "- i"] dec_hd_digit [of "- i"]
    by (simp add: scan_number_def int_str_def Let_def scan_digits_dec scan_fraction_delim
        scan_exponent_delim number_of_def)
next
  case False
  then have "\<not> startswith ''-'' (dec i @ r)"
    using dec_hd_digit [of i] by (cases "dec i") (auto simp: is_digit_def)
  with False assms show ?thesis
    using dec_digits [of i] dec_hd_digit [of i]
    by (simp add: scan_number_def int_str_def Let_def scan_digits_dec scan_fraction_delim
        scan_exponent_delim number_of_def)
qed

subsection \<open>The first character of a printed value\<close>

definition starts_value :: "string \<Rightarrow> bool" where
  "starts_value s \<longleftrightarrow> s \<noteq> [] \<and> \<not> is_ws (hd s) \<and> hd s \<noteq> CHR '']'' \<and> hd s \<noteq> CHR ''}''"

lemma int_str_hd: "hd (int_str i) = CHR ''-'' \<or> is_digit (hd (int_str i))" "int_str i \<noteq> []"
  using dec_hd_digit [of i] by (auto simp: int_str_def)

lemma starts_dumps: "plain ea v \<Longrightarrow> starts_value (json_dumps ea v @ r)"
proof (cases v)
  case (JInt i)
  then show ?thesis
    using int_str_hd [of i] by (auto simp: starts_value_def is_ws_def is_digit_def)
qed (auto simp: starts_value_def dump_text_def is_ws_def)

lemma skip_ws_starts: "starts_value s \<Longrightarrow> skip_ws s = s"
  by (cases s) (auto simp: starts_value_def skip_ws_def)

lemma skip_ws_delim: "delim r \<Longrightarrow> skip_ws r = r"
  by (cases r) (auto simp: delim_def skip_ws_def is_ws_def)

lemma scan_literal_int: "scan_literal (int_str i @ r) = None"
proof -
  obtain c cs where c: "int_str i = c # cs" "c = CHR ''-'' \<or> is_digit c"
    using int_str_hd [of i] by (cases "int_str i") auto
  have "\<not> startswith ''-Infinity'' (int_str i @ r)"
  proof (cases "i < 0")
    case True
    then show ?thesis using dec_hd_digit [of "- i"]
      by (cases "dec (- i)") (auto simp: int_str_def is_digit_def)
  next
    case False
    then show ?thesis using dec_hd_digit [of i]
      by (cases "dec i") (auto simp: int_str_def is_digit_def)
  qed
  moreover have "c \<noteq> CHR ''n''" "c \<noteq> CHR ''t''" "c \<noteq> CHR ''f''" "c \<noteq> CHR ''N''" "c \<noteq> CHR ''I''"
    using c(2) by (auto simp: is_digit_def)
  ultimately show ?thesis using c(1) by (simp add: scan_literal_def)
qed

subsection \<open>Values\<close>

text \<open>What the recursive scanner has to return for one value, whatever delimiter follows.\<close>

definition reads_back :: "bool \<Rightarrow> json \<Rightarrow> bool" where
  "reads_back ea v \<longleftrightarrow>
     (\<forall>r n. delim r \<longrightarrow> 2 * length (json_dumps ea v @ r) + 2 \<le> n \<longrightarrow>
        scan_value n (json_dumps ea v @ r) = Inr (v, r))"

lemma reads_backD:
  "reads_back ea v \<Longrightarrow> delim r \<Longrightarrow> 2 * length (json_dumps ea v @ r) + 2 \<le> n \<Longrightarrow>
   scan_value n (json_dumps ea v @ r) = Inr (v, r)"
  by (simp add: reads_back_def)

lemma skip_ws_space: "starts_value s \<Longrightarrow> skip_ws (CHR '' '' # s) = s"
  by (cases s) (auto simp: starts_value_def skip_ws_def is_ws_def)

lemma scan_items_dumps:
  assumes "xs \<noteq> []" and "\<And>x. x \<in> set xs \<Longrightarrow> reads_back ea x \<and> plain ea x"
    and "2 * length (join '', '' (map (json_dumps ea) xs) @ '']'' @ r) + 3 \<le> n"
  shows "scan_items n (join '', '' (map (json_dumps ea) xs) @ '']'' @ r) = Inr (xs, r)"
  using assms
proof (induction xs arbitrary: n)
  case (Cons x xs)
  then obtain m where n: "n = Suc m" by (cases n) auto
  show ?case
  proof (cases xs)
    case Nil
    have "scan_value m (json_dumps ea x @ '']'' @ r) = Inr (x, '']'' @ r)"
      using Cons.prems n Nil by (intro reads_backD) (auto simp: delim_def)
    with Nil n show ?thesis by (simp add: skip_ws_delim delim_def)
  next
    case (Cons y ys)
    let ?rest = "join '', '' (map (json_dumps ea) xs) @ '']'' @ r"
    have len: "length (json_dumps ea x) + length ?rest + 2 = length (join '', '' (map (json_dumps ea) (x # xs)) @ '']'' @ r)"
      using Cons by simp
    have "scan_value m (json_dumps ea x @ '', '' @ ?rest) = Inr (x, '', '' @ ?rest)"
      using Cons.prems n len by (intro reads_backD) (auto simp: delim_def)
    moreover have "scan_items m ?rest = Inr (xs, r)"
      using Cons.prems n len Cons by (intro Cons.IH) auto
    moreover have "starts_value ?rest"
      using Cons Cons.prems(2) [of y] starts_dumps [of ea y]
      by (cases ys) auto
    ultimately show ?thesis
      using n Cons by (simp add: skip_ws_delim delim_def skip_ws_space)
  qed
qed simp

definition dump_member :: "bool \<Rightarrow> string \<times> json \<Rightarrow> string" where
  "dump_member ea kv = dump_text ea (fst kv) @ '': '' @ json_dumps ea (snd kv)"

lemma json_dumps_obj:
  "json_dumps ea (JObj kvs) = ''{'' @ join '', '' (map (dump_member ea) kvs) @ ''}''"
  by (simp add: dump_member_def [abs_def])

lemma scan_text_dump_text:
  "text_ok ea k \<Longrightarrow> scan_text (dump_text ea k @ r) (tl (dump_text ea k @ r)) = Inr (k, r)"
  by (simp add: dump_text_bytes scan_text_dump)

lemma startswith_dump_text: "startswith [CHR 0x22] (dump_text ea k @ r)" "dump_text ea k \<noteq> []"
  by (simp_all add: dump_text_def)

lemma length_dump_text: "1 \<le> length (dump_text ea k)"
  by (simp add: dump_text_def)

lemma scan_members_dumps:
  assumes "kvs \<noteq> []"
    and "\<And>kv. kv \<in> set kvs \<Longrightarrow> text_ok ea (fst kv) \<and> reads_back ea (snd kv) \<and> plain ea (snd kv)"
    and "2 * length (join '', '' (map (dump_member ea) kvs) @ ''}'' @ r) + 3 \<le> n"
  shows "scan_members n (join '', '' (map (dump_member ea) kvs) @ ''}'' @ r) = Inr (kvs, r)"
  using assms
proof (induction kvs arbitrary: n)
  case (Cons kv kvs)
  obtain k v where kv: "kv = (k, v)" by (cases kv)
  from Cons.prems(3) obtain m where n: "n = Suc m" by (cases n) auto
  have k: "text_ok ea k" and v: "reads_back ea v" "plain ea v" using Cons.prems(2) [of kv] kv by auto
  have member: "scan_members (Suc m) (dump_member ea (k, v) @ t) =
      (if startswith ''}'' t then Inr ([(k, v)], tl t)
       else if startswith '','' t then wrap_scan (Cons (k, v)) (scan_members m (skip_ws (tl t)))
       else Inl (''Expecting '' @ quoted '','' @ '' delimiter'', t))"
    if "delim t" "2 * length (json_dumps ea v @ t) + 2 \<le> m" for t
  proof -
    have "scan_text (dump_text ea k @ '': '' @ json_dumps ea v @ t)
        (tl (dump_text ea k @ '': '' @ json_dumps ea v @ t)) = Inr (k, '': '' @ json_dumps ea v @ t)"
      by (rule scan_text_dump_text [OF k])
    moreover have "skip_ws ('': '' @ json_dumps ea v @ t) = '': '' @ json_dumps ea v @ t"
      by (simp add: skip_ws_def is_ws_def)
    moreover have "skip_ws (tl ('': '' @ json_dumps ea v @ t)) = json_dumps ea v @ t"
      using skip_ws_space [OF starts_dumps [OF v(2), of t]] by simp
    moreover have "scan_value m (json_dumps ea v @ t) = Inr (v, t)"
      using v(1) that by (rule reads_backD)
    ultimately show ?thesis
      using that(1) startswith_dump_text [of ea k]
      by (simp add: dump_member_def skip_ws_delim Let_def)
  qed
  have length_member: "length (json_dumps ea v) + 3 \<le> length (dump_member ea (k, v))"
    using length_dump_text [of ea k] by (simp add: dump_member_def)
  show ?case
  proof (cases kvs)
    case Nil
    have "2 * length (json_dumps ea v @ ''}'' @ r) + 2 \<le> m"
      using Cons.prems(3) n kv Nil length_dump_text [of ea k] by (simp add: dump_member_def)
    then show ?thesis using member [of "''}'' @ r"] Nil n kv by (simp add: delim_def)
  next
    case (Cons kv' kvs')
    let ?rest = "join '', '' (map (dump_member ea) kvs) @ ''}'' @ r"
    have len: "length (dump_member ea (k, v)) + length ?rest + 2
        = length (join '', '' (map (dump_member ea) (kv # kvs)) @ ''}'' @ r)"
      using Cons kv by simp
    have "2 * length (json_dumps ea v @ '', '' @ ?rest) + 2 \<le> m"
      using Cons.prems(3) n len length_member by (simp del: list.map)
    then have "scan_members (Suc m) (dump_member ea (k, v) @ '', '' @ ?rest)
        = wrap_scan (Cons (k, v)) (scan_members m (skip_ws (tl ('', '' @ ?rest))))"
      using member [of "'', '' @ ?rest"] by (simp add: delim_def)
    moreover have "starts_value ?rest"
      using Cons by (cases kvs') (auto simp: starts_value_def dump_member_def dump_text_def is_ws_def)
    then have "skip_ws (tl ('', '' @ ?rest)) = ?rest" using skip_ws_space by simp
    moreover have "scan_members m ?rest = Inr (kvs, r)"
      using Cons.prems n len Cons by (intro Cons.IH) auto
    ultimately show ?thesis using n Cons kv by simp
  qed
qed simp

lemma dict_update_append:
  "wf_dict (d @ e) \<Longrightarrow> dict_update d e = d @ e"
proof (induction d e rule: dict_update.induct)
  case (2 d k v e)
  have "AList.update k v d = d @ [(k, v)]"
    using 2(2) by (induction d) (auto simp: wf_dict_def)
  with 2 show ?case by simp
qed simp


lemma plain_reads_back: "plain ea v \<Longrightarrow> reads_back ea v"
proof (induction v)
  case (JInt i)
  show ?case unfolding reads_back_def
  proof (intro allI impI)
    fix r n assume r: "delim r" and "2 * length (json_dumps ea (JInt i) @ r) + 2 \<le> n"
    then obtain m where n: "n = Suc m" by (cases n) auto
    obtain c cs where c: "int_str i @ r = c # cs" "c = CHR ''-'' \<or> is_digit c"
      using int_str_hd [of i] by (cases "int_str i") auto
    then have "c \<noteq> CHR 0x22" "c \<noteq> CHR ''{''" "c \<noteq> CHR ''[''" by (auto simp: is_digit_def)
    with n c(1) scan_literal_int [of i r] scan_number_int [OF r, of i]
    show "scan_value n (json_dumps ea (JInt i) @ r) = Inr (JInt i, r)" by simp
  qed
next
  case (JStr s)
  then have "text_ok ea s" by simp
  then show ?case unfolding reads_back_def
    by (auto simp: dump_text_bytes scan_text_dump Suc_le_D dest!: Suc_le_D)
next
  case (JList xs)
  then have xs: "\<And>x. x \<in> set xs \<Longrightarrow> reads_back ea x \<and> plain ea x"
    by (auto simp: list_all_iff)
  show ?case unfolding reads_back_def
  proof (intro allI impI)
    fix r n assume r: "delim r" and b: "2 * length (json_dumps ea (JList xs) @ r) + 2 \<le> n"
    then obtain m where n: "n = Suc m" by (cases n) auto
    let ?t = "join '', '' (map (json_dumps ea) xs) @ '']'' @ r"
    show "scan_value n (json_dumps ea (JList xs) @ r) = Inr (JList xs, r)"
    proof (cases xs)
      case Nil
      with n show ?thesis by (simp add: skip_ws_def is_ws_def)
    next
      case (Cons y ys)
      have start: "starts_value ?t"
        using Cons xs [of y] starts_dumps [of ea y] by (cases ys) auto
      then have "\<not> startswith '']'' ?t" by (cases ?t) (auto simp: starts_value_def)
      moreover have "scan_items m ?t = Inr (xs, r)"
        using Cons xs b n by (intro scan_items_dumps) auto
      ultimately show ?thesis using n start by (simp add: skip_ws_starts)
    qed
  qed
next
  case (JObj kvs)
  then have kvs: "\<And>kv. kv \<in> set kvs \<Longrightarrow> text_ok ea (fst kv) \<and> reads_back ea (snd kv) \<and> plain ea (snd kv)"
    and wf: "wf_dict kvs"
    by (auto simp: list_all_iff) 
  show ?case unfolding reads_back_def
  proof (intro allI impI)
    fix r n assume r: "delim r" and b: "2 * length (json_dumps ea (JObj kvs) @ r) + 2 \<le> n"
    then obtain m where n: "n = Suc m" by (cases n) auto
    let ?t = "join '', '' (map (dump_member ea) kvs) @ ''}'' @ r"
    show "scan_value n (json_dumps ea (JObj kvs) @ r) = Inr (JObj kvs, r)"
    proof (cases kvs)
      case Nil
      with n show ?thesis by (simp add: skip_ws_def is_ws_def)
    next
      case (Cons y ys)
      have start: "starts_value ?t"
        using Cons by (cases ys) (auto simp: starts_value_def dump_member_def dump_text_def is_ws_def)
      then have "\<not> startswith ''}'' ?t" by (cases ?t) (auto simp: starts_value_def)
      moreover have "scan_members m ?t = Inr (kvs, r)"
        using Cons kvs b n by (intro scan_members_dumps) (auto simp: json_dumps_obj simp del: json_dumps.simps)
      moreover have "dict_update [] kvs = kvs" using wf dict_update_append [of "[]" kvs] by simp
      ultimately show ?thesis
        using n start by (simp add: skip_ws_starts json_dumps_obj del: json_dumps.simps)
    qed
  qed
next
  case JNull
  show ?case unfolding reads_back_def
  proof (intro allI impI)
    fix r n assume "2 * length (json_dumps ea JNull @ r) + 2 \<le> n"
    then obtain m where "n = Suc m" by (cases n) auto
    then show "scan_value n (json_dumps ea JNull @ r) = Inr (JNull, r)" by (simp add: scan_literal_def)
  qed
next
  case (JBool b)
  show ?case unfolding reads_back_def
  proof (intro allI impI)
    fix r n assume "2 * length (json_dumps ea (JBool b) @ r) + 2 \<le> n"
    then obtain m where "n = Suc m" by (cases n) auto
    then show "scan_value n (json_dumps ea (JBool b) @ r) = Inr (JBool b, r)"
      by (simp add: scan_literal_def)
  qed
qed simp

lemma not_bom_int: "\<not> startswith bom (int_str i)"
  using int_str_hd [of i] by (cases "int_str i") (auto simp: bom_def is_digit_def)

lemma loads_dumps: "plain ea v \<Longrightarrow> json_loads (json_dumps ea v) = Inr v"
proof -
  assume v: "plain ea v"
  have "scan_value (2 * length (json_dumps ea v) + 2) (json_dumps ea v @ []) = Inr (v, [])"
    using plain_reads_back [OF v] by (rule reads_backD) (simp_all add: delim_def)
  moreover have "skip_ws (json_dumps ea v) = json_dumps ea v"
    using skip_ws_starts [OF starts_dumps [OF v, of "[]"]] by simp
  moreover have "\<not> startswith bom (json_dumps ea v)"
    using v not_bom_int by (cases v) (auto simp: dump_text_def, auto simp: bom_def)
  ultimately show ?thesis by (simp add: json_loads_def skip_ws_def)
qed

end
