(* ===== verification/McpProxy.thy ===== *)
theory McpProxy
  imports DispatchBase Settings PyJsonRound
begin

text \<open>
  \<open>app/dispatchers/mcp_proxy.py\<close>: the dispatcher that forwards a call to a remote MCP server, with
  the session handshake, the server-sent-event decoder and the mapping of responses. Sessions are
  kept in \<open>g_proxy_sessions\<close> by remote URL and identity.
\<close>

section \<open>Server-sent events\<close>

text \<open>
  \<open>str.splitlines\<close>: the rest after a line boundary at the front. Besides the ASCII boundaries these
  are U+0085, U+2028 and U+2029.
\<close>

definition line_break :: "string \<Rightarrow> string option" where
  "line_break s =
     (if startswith [CHR 0x0D, CHR 0x0A] s then Some (drop 2 s)
      else if startswith [CHR 0xC2, CHR 0x85] s then Some (drop 2 s)
      else if startswith [CHR 0xE2, CHR 0x80, CHR 0xA8] s \<or> startswith [CHR 0xE2, CHR 0x80, CHR 0xA9] s then Some (drop 3 s)
      else (case s of
              [] \<Rightarrow> None
            | c # cs \<Rightarrow> (if c \<in> {CHR 0x0A, CHR 0x0B, CHR 0x0C, CHR 0x0D, CHR 0x1C, CHR 0x1D, CHR 0x1E} then Some cs else None)))"

fun next_line :: "string \<Rightarrow> string \<times> string option" where
  "next_line [] = ([], None)"
| "next_line (c # cs) =
     (case line_break (c # cs) of
        Some r \<Rightarrow> ([], Some r)
      | None \<Rightarrow> (case next_line cs of (l, r) \<Rightarrow> (c # l, r)))"

lemma line_break_shorter: "s \<noteq> [] \<Longrightarrow> line_break s = Some r \<Longrightarrow> length r < length s"
  by (cases s) (auto simp: line_break_def split: if_splits)

lemma next_line_shorter: "next_line s = (l, Some r) \<Longrightarrow> length r < length s"
proof (induction s arbitrary: l r)
  case (Cons c cs)
  show ?case
  proof (cases "line_break (c # cs)")
    case None
    with Cons show ?thesis by (cases "next_line cs") fastforce
  next
    case (Some r')
    with Cons.prems line_break_shorter [of "c # cs" r] show ?thesis by simp
  qed
qed simp

function splitlines :: "string \<Rightarrow> string list" where
  "splitlines s =
     (if s = [] then []
      else (case next_line s of (l, None) \<Rightarrow> [l] | (l, Some r) \<Rightarrow> l # splitlines r))"
  by pat_completeness auto
termination
  by (relation "measure length") (auto dest: next_line_shorter dest!: sym [of "(_, Some _)" "next_line _"])

declare splitlines.simps [simp del]

text \<open>The \<open>data:\<close> lines up to the first blank or comment line after one.\<close>

fun sse_chunks :: "string list \<Rightarrow> string list \<Rightarrow> string list" where
  "sse_chunks [] chunks = chunks"
| "sse_chunks (line # ls) chunks =
     (if startswith '':'' line \<or> strip line = []
      then (if chunks \<noteq> [] then chunks else sse_chunks ls chunks)
      else if startswith ''data:'' line then sse_chunks ls (chunks @ [lstrip (drop 5 line)])
      else sse_chunks ls chunks)"

definition upstream_error :: "string \<Rightarrow> exn" where
  "upstream_error m = DispatchError m (-32603) ''upstream_error'' None"

definition parse_sse_envelope :: "string \<Rightarrow> json res" where
  "parse_sse_envelope body =
     (let chunks = sse_chunks (splitlines body) []
      in if chunks = [] then Inl (upstream_error ''mcp_proxy: SSE response contained no data frames'')
         else (case json_loads (concat chunks) of
                 Inl e \<Rightarrow> Inl (upstream_error (''mcp_proxy: SSE payload is not JSON: '' @ e))
               | Inr v \<Rightarrow> Inr v))"

section \<open>Responses\<close>

definition raise_for_http_error :: "http_resp \<Rightarrow> unit res" where
  "raise_for_http_error r =
     (let status = rs_status r; snippet = cp_take 500 (rs_text r)
      in if 200 \<le> status \<and> status < 300 then Inr ()
         else if status \<in> {401, 403}
              then Inl (DispatchError (''mcp_proxy upstream denied: '' @ int_str status) (-32001) ''upstream_denied'' (Some status))
         else if status = 404
              then Inl (DispatchError ''mcp_proxy upstream not found'' (-32001) ''upstream_not_found'' (Some status))
         else if status = 400
              then Inl (DispatchError (''mcp_proxy upstream bad request: '' @ snippet) (-32602) ''upstream_bad_request''
                          (Some status))
         else Inl (DispatchError (''mcp_proxy upstream error '' @ int_str status @ '': '' @ snippet) (-32603)
                     ''upstream_error'' (Some status)))"

definition decode_response :: "http_resp \<Rightarrow> json dict res" where
  "decode_response r =
     (let content_type = lower (text_or (header_of r ''content-type'') []); body = rs_text r
      in bindE (if contains ''text/event-stream'' content_type then parse_sse_envelope body
                else if body = [] then Inr (JObj [])
                else (case json_loads body of
                        Inl e \<Rightarrow> Inl (upstream_error (''mcp_proxy: invalid JSON response: '' @ e))
                      | Inr v \<Rightarrow> Inr v)) (\<lambda>payload.
           case payload of
             JObj d \<Rightarrow> Inr d
           | _ \<Rightarrow> Inl (upstream_error ''mcp_proxy: response envelope not a JSON-RPC object'')))"

definition remote_error :: "json dict \<Rightarrow> exn" where
  "remote_error err =
     (case to_int (jget_default err ''code'' (JInt (-32603))) of
        Inl e \<Rightarrow> e
      | Inr code \<Rightarrow>
          DispatchError (''mcp_proxy remote error: '' @ py_str (py_or (jget err ''message'') (JStr ''remote mcp error'')))
            code ''remote_mcp_error'' None)"

definition build_result :: "json dict \<Rightarrow> tool_result res" where
  "build_result payload =
     (case jget payload ''error'' of
        JObj err \<Rightarrow> Inl (remote_error err)
      | _ \<Rightarrow>
          (case map_of payload ''result'' of
             None \<Rightarrow> Inl (upstream_error ''mcp_proxy: response missing result'')
           | Some result \<Rightarrow>
               (case result of
                  JObj d \<Rightarrow>
                    (case jget d ''content'' of
                       JList content \<Rightarrow> Inr \<lparr>tr_content = content, tr_is_error = truthy (jget d ''isError'')\<rparr>
                     | _ \<Rightarrow> Inr (text_result (json_dumps False result)))
                | _ \<Rightarrow> Inr (text_result (json_dumps False result)))))"

section \<open>Requests\<close>

record mcp_proxy =
  px_timeout :: pyfloat
  px_client_name :: string
  px_client_version :: string

definition mcp_proxy_of :: "settings \<Rightarrow> mcp_proxy" where
  "mcp_proxy_of s =
     \<lparr>px_timeout = mcp_proxy_default_timeout_sec s, px_client_name = server_name s,
      px_client_version = server_version s\<rparr>"

definition DEFAULT_PROTOCOL_VERSION :: string where
  "DEFAULT_PROTOCOL_VERSION = ''2024-11-05''"

definition remote_tool_name :: "string \<Rightarrow> json dict \<Rightarrow> string" where
  "remote_tool_name local_name cfg =
     (case jget cfg ''remote_tool_name'' of
        JStr explicit \<Rightarrow>
          (if explicit \<noteq> [] then explicit
           else (case jget cfg ''prefix'' of
                   JStr prefix \<Rightarrow> (if prefix \<noteq> [] \<and> startswith prefix local_name then drop (length prefix) local_name
                                  else local_name)
                 | _ \<Rightarrow> local_name))
      | _ \<Rightarrow> (case jget cfg ''prefix'' of
                JStr prefix \<Rightarrow> (if prefix \<noteq> [] \<and> startswith prefix local_name then drop (length prefix) local_name
                               else local_name)
              | _ \<Rightarrow> local_name))"

text \<open>The bearer value and the identity under which a session is shared.\<close>

definition resolve_token :: "world \<Rightarrow> tool_invocation \<Rightarrow> (string \<times> string) res" where
  "resolve_token w i =
     (if v_auth_mode (inv_tool i) = ''user_passthrough''
      then (if raw_token (inv_auth i) = []
            then Inl (config_error ''mcp_proxy: user_passthrough requires raw bearer token'')
            else Inr (raw_token (inv_auth i), ''user:'' @ user_id (inv_auth i)))
      else (let env = text_or (v_secret_env_name (inv_tool i)) []
            in if env = [] then Inl (config_error ''mcp_proxy: tool missing secret_env_name for service_key auth'')
               else (let token = environ_get w env
                     in if token = [] then Inl (config_error (''mcp_proxy: missing secret env '' @ env))
                        else Inr (token, ''svc:'' @ env))))"

definition base_headers :: "tool_invocation \<Rightarrow> string \<Rightarrow> string dict" where
  "base_headers i token =
     [(''Authorization'', (if v_auth_prefix (inv_tool i) \<noteq> [] then v_auth_prefix (inv_tool i) else ''Bearer '') @ token),
      (''Accept'', ''application/json, text/event-stream''), (''Content-Type'', ''application/json''),
      (''X-Gateway-User-Id'', user_id (inv_auth i)),
      (''X-Gateway-User-Roles'', join '','' (roles (inv_auth i))),
      (''X-Gateway-Trace-Id'', inv_trace_id i), (''X-Gateway-Tool-Name'', v_name (inv_tool i))]"

definition rpc_request :: "string \<Rightarrow> json \<Rightarrow> string dict \<Rightarrow> pyfloat \<Rightarrow> http_req" where
  "rpc_request url rpc headers timeout =
     \<lparr>hr_verb = ''POST'', hr_url = url, hr_params = [], hr_body = Some rpc, hr_headers = headers,
      hr_timeout = timeout\<rparr>"

definition proxy_post :: "world \<Rightarrow> http_req \<Rightarrow> gw \<Rightarrow> http_resp res \<times> gw" where
  "proxy_post w req g =
     (case http_request w req g of (out, g) \<Rightarrow>
       (case out of
          Response r \<Rightarrow> (bindE (raise_for_http_error r) (\<lambda>_. Inr r), g)
        | Timeout t \<Rightarrow>
            (Inl (DispatchError (''mcp_proxy timeout after '' @ repr_float (hr_timeout req) @ ''s'') (-32603)
                    ''upstream_timeout'' None), g)
        | TransportError t \<Rightarrow> (Inl (upstream_error (''mcp_proxy connection error: '' @ t)), g)
        | Raised c t \<Rightarrow> (Inl (PyError c t), g)))"

definition init_rpc :: "mcp_proxy \<Rightarrow> string \<Rightarrow> string \<Rightarrow> json" where
  "init_rpc p uid version =
     JObj [(''jsonrpc'', JStr ''2.0''), (''id'', JStr (''init-'' @ uid)), (''method'', JStr ''initialize''),
           (''params'', JObj [(''protocolVersion'', JStr version),
              (''capabilities'', JObj [(''tools'', JObj [])]),
              (''clientInfo'', JObj [(''name'', JStr (px_client_name p)), (''version'', JStr (px_client_version p))])])]"

definition call_rpc :: "string \<Rightarrow> string \<Rightarrow> json dict \<Rightarrow> json" where
  "call_rpc trace_id name args =
     JObj [(''jsonrpc'', JStr ''2.0''), (''id'', JStr trace_id), (''method'', JStr ''tools/call''),
           (''params'', JObj [(''name'', JStr name), (''arguments'', JObj args)])]"

text \<open>The session id of a response; \<open>headers.get\<close> ignores case, so both spellings agree.\<close>

definition session_id_of :: "http_resp \<Rightarrow> string" where
  "session_id_of r = text_or (header_of r ''mcp-session-id'') (text_or (header_of r ''Mcp-Session-Id'') [])"

text \<open>The handshake; a session that is known, be it with an empty id, is not opened again.\<close>

definition ensure_initialized ::
  "world \<Rightarrow> mcp_proxy \<Rightarrow> string \<Rightarrow> (string \<times> string) \<Rightarrow> string dict \<Rightarrow> pyfloat \<Rightarrow> string \<Rightarrow> gw \<Rightarrow> unit res \<times> gw" where
  "ensure_initialized w p url key headers timeout version g =
     (if map_of (g_proxy_sessions g) key \<noteq> None then (Inr (), g)
      else (case new_uuid w g of (uid, g) \<Rightarrow>
        andThen (proxy_post w (rpc_request url (init_rpc p uid version) headers timeout) g) (\<lambda>r g.
          (case decode_response r of
             Inl e \<Rightarrow> (Inl e, g)
           | Inr _ \<Rightarrow> (Inr (), g\<lparr>g_proxy_sessions := AList.update key (session_id_of r) (g_proxy_sessions g)\<rparr>)))))"

section \<open>invoke\<close>

text \<open>What is worked out before the first request.\<close>

record proxy_plan =
  pp_url :: string
  pp_timeout :: pyfloat
  pp_tool :: string
  pp_key :: "string \<times> string"
  pp_headers :: "string dict"

definition proxy_prepare :: "world \<Rightarrow> mcp_proxy \<Rightarrow> tool_invocation \<Rightarrow> proxy_plan res" where
  "proxy_prepare w p i =
     (let cfg = v_config (inv_tool i)
      in bindE (case jget cfg ''remote_url'' of
                  JStr url \<Rightarrow> (if url \<noteq> [] then Inr url else Inl (config_error ''mcp_proxy: missing remote_url in tool.config''))
                | _ \<Rightarrow> Inl (config_error ''mcp_proxy: missing remote_url in tool.config'')) (\<lambda>url.
         bindE (to_float (py_or (jget cfg ''timeout_sec'') (JFloat (px_timeout p)))) (\<lambda>timeout.
         bindE (resolve_token w i) (\<lambda>(token, identity).
           Inr \<lparr>pp_url = url, pp_timeout = timeout, pp_tool = remote_tool_name (v_name (inv_tool i)) cfg,
                pp_key = (url, identity), pp_headers = base_headers i token\<rparr>))))"

definition with_session :: "(string \<times> string) \<Rightarrow> string dict \<Rightarrow> gw \<Rightarrow> string dict" where
  "with_session key headers g =
     (if some_text (map_of (g_proxy_sessions g) key)
      then AList.update ''Mcp-Session-Id'' (the (map_of (g_proxy_sessions g) key)) headers else headers)"

definition proxy_call :: "world \<Rightarrow> tool_invocation \<Rightarrow> proxy_plan \<Rightarrow> gw \<Rightarrow> tool_result res \<times> gw" where
  "proxy_call w i pl g =
     andThen (proxy_post w (rpc_request (pp_url pl) (call_rpc (inv_trace_id i) (pp_tool pl) (inv_arguments i))
                (with_session (pp_key pl) (pp_headers pl) g) (pp_timeout pl)) g) (\<lambda>r g.
       (bindE (decode_response r) build_result, g))"

definition proxy_invoke :: "world \<Rightarrow> mcp_proxy \<Rightarrow> tool_invocation \<Rightarrow> gw \<Rightarrow> tool_result res \<times> gw" where
  "proxy_invoke w p i g =
     (case proxy_prepare w p i of
        Inl e \<Rightarrow> (Inl e, g)
      | Inr pl \<Rightarrow>
          andThen (if truthy (jget (v_config (inv_tool i)) ''skip_initialize'') then (Inr (), g)
                   else ensure_initialized w p (pp_url pl) (pp_key pl) (pp_headers pl) (pp_timeout pl)
                          (py_str (py_or (jget (v_config (inv_tool i)) ''protocol_version'') (JStr DEFAULT_PROTOCOL_VERSION))) g)
            (\<lambda>_ g. proxy_call w i pl g))"

text \<open>\<open>close\<close>.\<close>

definition proxy_close :: "gw \<Rightarrow> gw" where
  "proxy_close g = g\<lparr>g_proxy_sessions := []\<rparr>"

section \<open>Contracts\<close>

interpretation proxy_status: status_map raise_for_http_error
  by unfold_locales (auto simp: raise_for_http_error_def is_success_def Let_def)

lemma proxy_post_state: "snd (proxy_post w req g) = emit (EvHttp req) g"
  by (auto simp: proxy_post_def http_request_def Let_def split: http_outcome.split)

lemma proxy_post_Inr:
  "proxy_post w req g = (Inr r, g') \<Longrightarrow>
     g' = emit (EvHttp req) g \<and> w_http w (g_trace g') = Response r \<and> is_success r"
  using proxy_status.success_iff [of r]
  by (auto simp: proxy_post_def http_request_def Let_def bindE_eq_Inr split: http_outcome.splits)

text \<open>The state after a handshake: the known session, a failed attempt, or a new entry.\<close>

definition init_request :: "world \<Rightarrow> mcp_proxy \<Rightarrow> string \<Rightarrow> string dict \<Rightarrow> pyfloat \<Rightarrow> string \<Rightarrow> gw \<Rightarrow> http_req" where
  "init_request w p url headers timeout version g =
     rpc_request url (init_rpc p (w_uuid w (g_trace g @ [EvUuid])) version) headers timeout"

lemma ensure_initialized_cases:
  fixes w p url headers timeout version g key
  defines "req \<equiv> init_request w p url headers timeout version g"
  obtains (known) "map_of (g_proxy_sessions g) key \<noteq> None"
      "ensure_initialized w p url key headers timeout version g = (Inr (), g)"
  | (failed) e where "map_of (g_proxy_sessions g) key = None"
      "ensure_initialized w p url key headers timeout version g = (Inl e, emit (EvHttp req) (emit EvUuid g))"
  | (opened) r where "map_of (g_proxy_sessions g) key = None"
      "w_http w (g_trace g @ [EvUuid, EvHttp req]) = Response r" "is_success r"
      "ensure_initialized w p url key headers timeout version g =
        (Inr (), (emit (EvHttp req) (emit EvUuid g))
           \<lparr>g_proxy_sessions := AList.update key (session_id_of r) (g_proxy_sessions g)\<rparr>)"
proof (cases "map_of (g_proxy_sessions g) key")
  case (Some sid)
  then show thesis by (intro known) (simp_all add: ensure_initialized_def)
next
  case None
  let ?g1 = "emit EvUuid g"
  have eq: "ensure_initialized w p url key headers timeout version g =
      andThen (proxy_post w req ?g1) (\<lambda>r g.
          (case decode_response r of
             Inl e \<Rightarrow> (Inl e, g)
           | Inr _ \<Rightarrow> (Inr (), g\<lparr>g_proxy_sessions := AList.update key (session_id_of r) (g_proxy_sessions g)\<rparr>)))"
    using None by (simp add: ensure_initialized_def new_uuid_def Let_def req_def init_request_def)
  obtain o' g2 where post: "proxy_post w req ?g1 = (o', g2)" by fastforce
  with proxy_post_state [of w req ?g1] have g2: "g2 = emit (EvHttp req) ?g1" by simp
  show thesis
  proof (cases o')
    case (Inl e)
    then show thesis using None eq post g2 by (intro failed [of e]) simp_all
  next
    case (Inr r)
    with post proxy_post_Inr have r: "w_http w (g_trace g @ [EvUuid, EvHttp req]) = Response r" "is_success r"
      by (fastforce simp: g2)+
    show thesis
    proof (cases "decode_response r")
      case (Inl e)
      then show thesis using None eq post g2 Inr by (intro failed [of e]) simp_all
    next
      case d: (Inr d)
      show thesis by (rule opened [OF None r]) (use eq post g2 Inr d in simp)
    qed
  qed
qed

lemma ensure_initialized_frame:
  assumes "ensure_initialized w p url key headers timeout version g = (r, g1)"
  shows "extends g g1 \<and> g_db g1 = g_db g \<and> g_cache g1 = g_cache g \<and> g_jwks g1 = g_jwks g"
  using assms
  by (cases rule: ensure_initialized_cases [of g key w p url headers timeout version]) (auto simp: extends_def)

lemma proxy_call_state:
  "snd (proxy_call w i pl g) =
     emit (EvHttp (rpc_request (pp_url pl) (call_rpc (inv_trace_id i) (pp_tool pl) (inv_arguments i))
                     (with_session (pp_key pl) (pp_headers pl) g) (pp_timeout pl))) g"
proof -
  let ?req = "rpc_request (pp_url pl) (call_rpc (inv_trace_id i) (pp_tool pl) (inv_arguments i))
                     (with_session (pp_key pl) (pp_headers pl) g) (pp_timeout pl)"
  show ?thesis
    using proxy_post_state [of w ?req g]
    by (cases "proxy_post w ?req g"; cases "fst (proxy_post w ?req g)") (auto simp: proxy_call_def)
qed

text \<open>
  The states an invocation goes through: after preparation, after the handshake (unless skipped),
  after the call.
\<close>

lemma proxy_invoke_cases:
  obtains (refused) e where "proxy_prepare w p i = Inl e" "proxy_invoke w p i g = (Inl e, g)"
  | (no_session) pl e g1 version where "proxy_prepare w p i = Inr pl"
      "ensure_initialized w p (pp_url pl) (pp_key pl) (pp_headers pl) (pp_timeout pl) version g = (Inl e, g1)"
      "proxy_invoke w p i g = (Inl e, g1)"
  | (called) pl g1 version where "proxy_prepare w p i = Inr pl"
      "(truthy (jget (v_config (inv_tool i)) ''skip_initialize'') \<and> g1 = g) \<or>
       (\<not> truthy (jget (v_config (inv_tool i)) ''skip_initialize'') \<and>
        ensure_initialized w p (pp_url pl) (pp_key pl) (pp_headers pl) (pp_timeout pl) version g = (Inr (), g1))"
      "proxy_invoke w p i g = proxy_call w i pl g1"
proof (cases "proxy_prepare w p i")
  case (Inl e)
  then show thesis by (intro refused) (simp_all add: proxy_invoke_def)
next
  case (Inr pl)
  show thesis
  proof (cases "truthy (jget (v_config (inv_tool i)) ''skip_initialize'')")
    case True
    then show thesis using Inr by (intro called [of pl g]) (simp_all add: proxy_invoke_def)
  next
    case False
    let ?v = "py_str (py_or (jget (v_config (inv_tool i)) ''protocol_version'') (JStr DEFAULT_PROTOCOL_VERSION))"
    obtain r g1 where e: "ensure_initialized w p (pp_url pl) (pp_key pl) (pp_headers pl) (pp_timeout pl) ?v g = (r, g1)"
      by fastforce
    show thesis
    proof (cases r)
      case r: (Inl x)
      with False Inr e show thesis by (intro no_session [of pl ?v x g1]) (simp_all add: proxy_invoke_def)
    next
      case r: (Inr x)
      with False Inr e show thesis by (intro called [of pl g1 ?v]) (simp_all add: proxy_invoke_def)
    qed
  qed
qed

lemma proxy_invoke_frame:
  "extends g (snd (proxy_invoke w p i g)) \<and> g_db (snd (proxy_invoke w p i g)) = g_db g \<and>
   g_cache (snd (proxy_invoke w p i g)) = g_cache g \<and> g_jwks (snd (proxy_invoke w p i g)) = g_jwks g"
proof (cases rule: proxy_invoke_cases [of w p i g])
  case (no_session pl e g1 version)
  then show ?thesis
    using ensure_initialized_frame [OF no_session(2)] by simp
next
  case (called pl g1 version)
  then have "extends g g1 \<and> g_db g1 = g_db g \<and> g_cache g1 = g_cache g \<and> g_jwks g1 = g_jwks g"
    by (auto dest: ensure_initialized_frame)
  then show ?thesis
    using called(3) extends_trans [of g g1 "snd (proxy_call w i pl g1)"] by (simp add: proxy_call_state)
qed simp

interpretation proxy: dispatcher "proxy_invoke w p"
  for w p
  by unfold_locales (simp_all add: proxy_invoke_frame)

section \<open>Properties\<close>

lemma requests_emit: "requests g (emit e g) = (if upstream e then 1 else 0)"
  by (simp add: requests_def)

lemma ensure_initialized_requests:
  assumes "ensure_initialized w p url key headers timeout version g = (r, g1)"
  shows "requests g g1 = (if map_of (g_proxy_sessions g) key \<noteq> None then 0 else 1)"
  using assms
  by (cases rule: ensure_initialized_cases [of g key w p url headers timeout version])
     (auto simp: requests_def new_events_def)

lemma ensure_initialized_sessions:
  assumes "ensure_initialized w p url key headers timeout version g = (r, g1)"
  shows "(\<forall>k sid. map_of (g_proxy_sessions g) k = Some sid \<longrightarrow> map_of (g_proxy_sessions g1) k = Some sid) \<and>
    (\<forall>k. k \<noteq> key \<longrightarrow> map_of (g_proxy_sessions g1) k = map_of (g_proxy_sessions g) k) \<and>
    (r = Inr () \<longrightarrow> map_of (g_proxy_sessions g1) key \<noteq> None) \<and>
    (\<forall>e. r = Inl e \<longrightarrow> g_proxy_sessions g1 = g_proxy_sessions g)"
  using assms
  by (cases rule: ensure_initialized_cases [of g key w p url headers timeout version]) (auto simp: update_conv')

text \<open>
  a session, once there, stays as it is and no other is touched; the handshake happens only for
  an unknown session, so a call costs one request, or two the first time; a failed handshake sends
  no call and stores nothing; and a call that succeeds was sent with the stored session id.
\<close>

lemma proxy_session_once:
  assumes "proxy_prepare w p i = Inr pl" and "proxy_invoke w p i g = (r, g')"
  shows "(\<forall>k sid. map_of (g_proxy_sessions g) k = Some sid \<longrightarrow> map_of (g_proxy_sessions g') k = Some sid) \<and>
    (\<forall>k. k \<noteq> pp_key pl \<longrightarrow> map_of (g_proxy_sessions g') k = map_of (g_proxy_sessions g) k) \<and>
    requests g g' \<le> (if map_of (g_proxy_sessions g) (pp_key pl) = None then 2 else 1) \<and>
    (\<forall>x. r = Inr x \<longrightarrow>
       (\<exists>t. g_trace g' = t @ [EvHttp (rpc_request (pp_url pl) (call_rpc (inv_trace_id i) (pp_tool pl) (inv_arguments i))
               (with_session (pp_key pl) (pp_headers pl) g') (pp_timeout pl))]) \<and>
       (truthy (jget (v_config (inv_tool i)) ''skip_initialize'') \<or> map_of (g_proxy_sessions g') (pp_key pl) \<noteq> None))"
proof (cases rule: proxy_invoke_cases [of w p i g])
  case (refused e)
  with assms(1) show ?thesis by simp
next
  case (no_session pl' e g1 version)
  then have eq: "pl' = pl" "r = Inl e" "g' = g1" using assms by simp_all
  then show ?thesis
    using ensure_initialized_sessions [OF no_session(2)] ensure_initialized_requests [OF no_session(2)] by auto
next
  case (called pl' g1 version)
  then have pl: "pl' = pl" using assms(1) by simp
  let ?req = "rpc_request (pp_url pl) (call_rpc (inv_trace_id i) (pp_tool pl) (inv_arguments i))
               (with_session (pp_key pl) (pp_headers pl) g1) (pp_timeout pl)"
  have "g' = snd (proxy_call w i pl g1)" using called(3) assms(2) pl by (simp add: prod_eq_iff)
  then have g': "g' = emit (EvHttp ?req) g1" by (simp add: proxy_call_state)
  have same: "with_session k h g' = with_session k h g1" for k h by (simp add: g' with_session_def)
  have "requests g1 g' = 1" unfolding g' by (simp add: requests_emit)
  have ext: "extends g1 g'" unfolding g' by simp
  from called(2) show ?thesis
  proof
    assume skip: "truthy (jget (v_config (inv_tool i)) ''skip_initialize'') \<and> g1 = g"
    then show ?thesis using same \<open>requests g1 g' = 1\<close> by (auto simp: g')
  next
    assume "\<not> truthy (jget (v_config (inv_tool i)) ''skip_initialize'') \<and>
        ensure_initialized w p (pp_url pl') (pp_key pl') (pp_headers pl') (pp_timeout pl') version g = (Inr (), g1)"
    then have e: "ensure_initialized w p (pp_url pl) (pp_key pl) (pp_headers pl) (pp_timeout pl) version g = (Inr (), g1)"
      unfolding pl by blast
    have "extends g g1" using ensure_initialized_frame [OF e] by simp
    from requests_trans [OF this ext] ensure_initialized_requests [OF e] \<open>requests g1 g' = 1\<close>
    have "requests g g' \<le> (if map_of (g_proxy_sessions g) (pp_key pl) = None then 2 else 1)" by auto
    then show ?thesis
      using ensure_initialized_sessions [OF e] same by (auto simp: g')
  qed
qed

definition proxy_view :: tool_view where
  "proxy_view = sample_view\<lparr>v_dispatcher := ''mcp_proxy'', v_config := [(''remote_url'', JStr ''https://mcp/x'')]\<rparr>"

definition proxy_inv :: tool_invocation where
  "proxy_inv = sample_inv\<lparr>inv_tool := proxy_view\<rparr>"

definition sample_proxy :: mcp_proxy where
  "sample_proxy = \<lparr>px_timeout = PFin 60, px_client_name = ''chat-gw'', px_client_version = ''0.2.1''\<rparr>"

definition known_session :: gw where
  "known_session = sample_gw\<lparr>g_proxy_sessions := [((''https://mcp/x'', ''user:u1''), ''s1'')]\<rparr>"

text \<open>
  C19: a session is shared only by invocations of the same remote by the same identity: the same user
  with the user's own token, or any user under the same service secret.
\<close>

theorem proxy_session_identity:
  assumes "proxy_prepare w p i = Inr pl" and "proxy_prepare w' p' j = Inr pl'" and "pp_key pl = pp_key pl'"
  shows "pp_url pl = pp_url pl' \<and>
    ((v_auth_mode (inv_tool i) = ''user_passthrough'' \<and> v_auth_mode (inv_tool j) = ''user_passthrough'' \<and>
      user_id (inv_auth i) = user_id (inv_auth j)) \<or>
     (v_auth_mode (inv_tool i) \<noteq> ''user_passthrough'' \<and> v_auth_mode (inv_tool j) \<noteq> ''user_passthrough'' \<and>
      v_secret_env_name (inv_tool i) = v_secret_env_name (inv_tool j)))"
proof -
  have parts: "\<exists>token ident. resolve_token w i = Inr (token, ident) \<and> pp_key pl = (pp_url pl, ident)"
    if "proxy_prepare w p i = Inr pl" for w p i pl
    using that by (auto simp: proxy_prepare_def Let_def bindE_eq_Inr)
  from parts [OF assms(1)] parts [OF assms(2)] obtain t u ident where
    r: "resolve_token w i = Inr (t, ident)" "resolve_token w' j = Inr (u, ident)" and url: "pp_url pl = pp_url pl'"
    using assms(3) by auto
  define env where "env = (\<lambda>k :: tool_invocation. text_or (v_secret_env_name (inv_tool k)) [])"
  have ident: "(v_auth_mode (inv_tool k) = ''user_passthrough'' \<and> ident = ''user:'' @ user_id (inv_auth k)) \<or>
      (v_auth_mode (inv_tool k) \<noteq> ''user_passthrough'' \<and> env k \<noteq> [] \<and> ident = ''svc:'' @ env k)"
    if "resolve_token v k = Inr (tok, ident)" for v k tok ident
    using that by (auto simp: resolve_token_def Let_def env_def split: if_splits)
  have secret: "v_secret_env_name (inv_tool i) = v_secret_env_name (inv_tool j)" if "env i = env j" "env i \<noteq> []"
    using that unfolding env_def
    by (cases "v_secret_env_name (inv_tool i)"; cases "v_secret_env_name (inv_tool j)") (auto split: if_splits)
  from ident [OF r(1)] ident [OF r(2)] show ?thesis
  proof (elim disjE conjE)
    assume "v_auth_mode (inv_tool i) \<noteq> ''user_passthrough''" "v_auth_mode (inv_tool j) \<noteq> ''user_passthrough''"
      "env i \<noteq> []" "ident = ''svc:'' @ env i" "ident = ''svc:'' @ env j"
    with secret url show ?thesis by simp
  qed (use url in simp_all)
qed

definition other_inv :: tool_invocation where
  "other_inv = proxy_inv\<lparr>inv_arguments := [], inv_trace_id := ''t2''\<rparr>"

lemma proxy_session_identity_witness:
  "pp_url (projr (proxy_prepare sample_world sample_proxy proxy_inv)) =
     pp_url (projr (proxy_prepare sample_world sample_proxy other_inv))"
proof -
  let ?p = "proxy_prepare sample_world sample_proxy proxy_inv"
  let ?q = "proxy_prepare sample_world sample_proxy other_inv"
  have "\<not> isl ?p" "\<not> isl ?q" by code_simp+
  then have p: "?p = Inr (projr ?p)" "?q = Inr (projr ?q)" by (cases ?p; cases ?q; simp)+
  have "pp_key (projr ?p) = pp_key (projr ?q)" by code_simp
  from proxy_session_identity [OF p this] show ?thesis by blast
qed

end
