(* ===== verification/ProxyTasks.thy ===== *)
theory ProxyTasks
  imports Locks McpProxy
begin

text \<open>
  Invocations of the MCP proxy side by side (\<open>app/dispatchers/mcp_proxy.py\<close>): the same operations as in
  McpProxy, cut at every place where the code awaits, with one lock per session. A schedule says which
  task goes on next and when one is cancelled. An invocation that runs alone is that of McpProxy.
\<close>

section \<open>Tasks\<close>

text \<open>
  Where a task is: not started, waiting for a lock (by its number), waiting for the answer to the
  handshake or to the call (with what was asked so far, which determines the answer), finished, or
  cancelled.
\<close>

datatype job =
    Fresh
  | Queued nat proxy_plan
  | Opening nat proxy_plan http_req "event list"
  | Calling proxy_plan http_req "event list"
  | Over "tool_result res"
  | Gone

text \<open>The gateway, the lock objects, \<open>_init_locks\<close>, and the tasks.\<close>

record floor =
  fl_gw :: gw
  fl_heap :: "lock list"
  fl_locks :: "((string \<times> string) \<times> nat) list"
  fl_jobs :: "job list"

datatype act = Start nat | Wake nat | Answer nat | Cancel nat | Close

definition set_job :: "nat \<Rightarrow> job \<Rightarrow> floor \<Rightarrow> floor" where
  "set_job t j s = s\<lparr>fl_jobs := (fl_jobs s)[t := j]\<rparr>"

definition set_lock :: "nat \<Rightarrow> lock \<Rightarrow> floor \<Rightarrow> floor" where
  "set_lock n l s = s\<lparr>fl_heap := (fl_heap s)[n := l]\<rparr>"

definition release_lock :: "nat \<Rightarrow> floor \<Rightarrow> floor" where
  "release_lock n s = set_lock n (release (fl_heap s ! n)) s"

text \<open>What \<open>_post\<close> makes of the answer to a request.\<close>

definition post_outcome :: "http_req \<Rightarrow> http_outcome \<Rightarrow> http_resp res" where
  "post_outcome req out =
     (case out of
        Response r \<Rightarrow> bindE (raise_for_http_error r) (\<lambda>_. Inr r)
      | Timeout t \<Rightarrow>
          Inl (DispatchError (''mcp_proxy timeout after '' @ repr_float (hr_timeout req) @ ''s'') (-32603)
                 ''upstream_timeout'' None)
      | TransportError t \<Rightarrow> Inl (upstream_error (''mcp_proxy connection error: '' @ t))
      | Raised c t \<Rightarrow> Inl (PyError c t))"

definition skips :: "tool_invocation \<Rightarrow> bool" where
  "skips i = truthy (jget (v_config (inv_tool i)) ''skip_initialize'')"

definition asked_version :: "tool_invocation \<Rightarrow> string" where
  "asked_version i =
     py_str (py_or (jget (v_config (inv_tool i)) ''protocol_version'') (JStr DEFAULT_PROTOCOL_VERSION))"

text \<open>The call is sent with the session id known at that moment.\<close>

definition begin_call :: "tool_invocation \<Rightarrow> nat \<Rightarrow> proxy_plan \<Rightarrow> floor \<Rightarrow> floor" where
  "begin_call i t pl s =
     (let req = rpc_request (pp_url pl) (call_rpc (inv_trace_id i) (pp_tool pl) (inv_arguments i))
                  (with_session (pp_key pl) (pp_headers pl) (fl_gw s)) (pp_timeout pl);
          g = emit (EvHttp req) (fl_gw s)
      in set_job t (Calling pl req (g_trace g)) (s\<lparr>fl_gw := g\<rparr>))"

text \<open>
  Inside the lock: the second look at the sessions, then the handshake. Leaving the lock and sending
  the call do not await.
\<close>

definition enter_section :: "world \<Rightarrow> mcp_proxy \<Rightarrow> tool_invocation \<Rightarrow> nat \<Rightarrow> nat \<Rightarrow> proxy_plan \<Rightarrow> floor \<Rightarrow> floor" where
  "enter_section w p i t n pl s =
     (if map_of (g_proxy_sessions (fl_gw s)) (pp_key pl) \<noteq> None then begin_call i t pl (release_lock n s)
      else (case new_uuid w (fl_gw s) of (uid, g) \<Rightarrow>
        (let req = rpc_request (pp_url pl) (init_rpc p uid (asked_version i)) (pp_headers pl) (pp_timeout pl);
             g = emit (EvHttp req) g
         in set_job t (Opening n pl req (g_trace g)) (s\<lparr>fl_gw := g\<rparr>))))"

text \<open>\<open>_init_locks.setdefault\<close>: the number of the lock of a session.\<close>

definition lock_for :: "(string \<times> string) \<Rightarrow> floor \<Rightarrow> nat \<times> floor" where
  "lock_for key s =
     (case map_of (fl_locks s) key of
        Some n \<Rightarrow> (n, s)
      | None \<Rightarrow> (length (fl_heap s),
          s\<lparr>fl_heap := fl_heap s @ [new_lock], fl_locks := AList.update key (length (fl_heap s)) (fl_locks s)\<rparr>))"

definition begin_task :: "world \<Rightarrow> mcp_proxy \<Rightarrow> tool_invocation \<Rightarrow> nat \<Rightarrow> floor \<Rightarrow> floor" where
  "begin_task w p i t s =
     (case proxy_prepare w p i of
        Inl e \<Rightarrow> set_job t (Over (Inl e)) s
      | Inr pl \<Rightarrow>
          (if skips i \<or> map_of (g_proxy_sessions (fl_gw s)) (pp_key pl) \<noteq> None then begin_call i t pl s
           else (case lock_for (pp_key pl) s of (n, s) \<Rightarrow>
             (case acquire t (fl_heap s ! n) of (got, l) \<Rightarrow>
               (if got then enter_section w p i t n pl (set_lock n l s)
                else set_job t (Queued n pl) (set_lock n l s))))))"

text \<open>The answer to the handshake, and to the call.\<close>

definition opened :: "world \<Rightarrow> tool_invocation \<Rightarrow> nat \<Rightarrow> nat \<Rightarrow> proxy_plan \<Rightarrow> http_req \<Rightarrow> event list \<Rightarrow> floor \<Rightarrow> floor" where
  "opened w i t n pl req tr s =
     (case bindE (post_outcome req (w_http w tr)) (\<lambda>r. bindE (decode_response r) (\<lambda>_. Inr r)) of
        Inl e \<Rightarrow> set_job t (Over (Inl e)) (release_lock n s)
      | Inr r \<Rightarrow> begin_call i t pl (release_lock n
          (s\<lparr>fl_gw := (fl_gw s)\<lparr>g_proxy_sessions :=
               AList.update (pp_key pl) (session_id_of r) (g_proxy_sessions (fl_gw s))\<rparr>\<rparr>)))"

definition finish_call :: "world \<Rightarrow> http_req \<Rightarrow> event list \<Rightarrow> tool_result res" where
  "finish_call w req tr =
     bindE (post_outcome req (w_http w tr)) (\<lambda>r. bindE (decode_response r) build_result)"

text \<open>One step of task \<open>t\<close>, and \<open>close\<close>. None: the task cannot go on that way now.\<close>

fun fl_step :: "world \<Rightarrow> mcp_proxy \<Rightarrow> tool_invocation list \<Rightarrow> act \<Rightarrow> floor \<Rightarrow> floor option" where
  "fl_step w p is (Start t) s =
     (if t < length is \<and> t < length (fl_jobs s) \<and> fl_jobs s ! t = Fresh then Some (begin_task w p (is ! t) t s) else None)"
| "fl_step w p is (Wake t) s =
     (if t < length is \<and> t < length (fl_jobs s)
      then (case fl_jobs s ! t of
              Queued n pl \<Rightarrow> (case awaken t (fl_heap s ! n) of
                  None \<Rightarrow> None
                | Some l \<Rightarrow> Some (enter_section w p (is ! t) t n pl (set_lock n l s)))
            | _ \<Rightarrow> None)
      else None)"
| "fl_step w p is (Answer t) s =
     (if t < length is \<and> t < length (fl_jobs s)
      then (case fl_jobs s ! t of
              Opening n pl req tr \<Rightarrow> Some (opened w (is ! t) t n pl req tr s)
            | Calling pl req tr \<Rightarrow> Some (set_job t (Over (finish_call w req tr)) s)
            | _ \<Rightarrow> None)
      else None)"
| "fl_step w p is (Cancel t) s =
     (if t < length (fl_jobs s)
      then (case fl_jobs s ! t of
              Fresh \<Rightarrow> Some (set_job t Gone s)
            | Queued n pl \<Rightarrow> Some (set_job t Gone (set_lock n (leave_queue t (fl_heap s ! n)) s))
            | Opening n pl req tr \<Rightarrow> Some (set_job t Gone (release_lock n s))
            | Calling pl req tr \<Rightarrow> Some (set_job t Gone s)
            | _ \<Rightarrow> None)
      else None)"
| "fl_step w p is Close s = Some (s\<lparr>fl_gw := proxy_close (fl_gw s), fl_locks := []\<rparr>)"

fun fl_run :: "world \<Rightarrow> mcp_proxy \<Rightarrow> tool_invocation list \<Rightarrow> act list \<Rightarrow> floor \<Rightarrow> floor option" where
  "fl_run w p is [] s = Some s"
| "fl_run w p is (a # as) s = (case fl_step w p is a s of None \<Rightarrow> None | Some s \<Rightarrow> fl_run w p is as s)"

definition fl_start :: "gw \<Rightarrow> nat \<Rightarrow> floor" where
  "fl_start g n = \<lparr>fl_gw = g, fl_heap = [], fl_locks = [], fl_jobs = replicate n Fresh\<rparr>"

section \<open>The locks are kept\<close>

definition lk_at :: "nat \<Rightarrow> floor \<Rightarrow> lock" where
  "lk_at m s = (if m < length (fl_heap s) then fl_heap s ! m else new_lock)"

fun opens :: "nat \<Rightarrow> job \<Rightarrow> bool" where
  "opens m (Opening n pl req tr) = (n = m)"
| "opens m _ = False"

fun queues :: "nat \<Rightarrow> job \<Rightarrow> bool" where
  "queues m (Queued n pl) = (n = m)"
| "queues m _ = False"

definition tasks_where :: "(job \<Rightarrow> bool) \<Rightarrow> floor \<Rightarrow> nat set" where
  "tasks_where P s = {t. t < length (fl_jobs s) \<and> P (fl_jobs s ! t)}"

definition lock_view :: "nat \<Rightarrow> floor \<Rightarrow> lock \<times> nat set \<times> nat set" where
  "lock_view m s = (lk_at m s, tasks_where (opens m) s, tasks_where (queues m) s)"

lemma tasks_where_job:
  "t < length (fl_jobs s) \<Longrightarrow>
     tasks_where P (set_job t j s) = (if P j then insert t (tasks_where P s) else tasks_where P s - {t})"
  by (auto simp: tasks_where_def set_job_def nth_list_update)

lemma tasks_where_frame [simp]:
  "tasks_where P (set_lock n l s) = tasks_where P s" "tasks_where P (release_lock n s) = tasks_where P s"
  "tasks_where P (s\<lparr>fl_gw := g\<rparr>) = tasks_where P s" "tasks_where P (s\<lparr>fl_locks := ls\<rparr>) = tasks_where P s"
  "tasks_where P (s\<lparr>fl_heap := h\<rparr>) = tasks_where P s"
  by (simp_all add: tasks_where_def set_lock_def release_lock_def)

lemma lk_at_frame [simp]:
  "lk_at m (set_job t j s) = lk_at m s" "lk_at m (s\<lparr>fl_gw := g\<rparr>) = lk_at m s"
  "lk_at m (s\<lparr>fl_locks := ls\<rparr>) = lk_at m s"
  by (simp_all add: lk_at_def set_job_def)

lemma lk_at_set: "n < length (fl_heap s) \<Longrightarrow> lk_at m (set_lock n l s) = (if m = n then l else lk_at m s)"
  by (auto simp: lk_at_def set_lock_def nth_list_update)

lemma lk_at_release:
  "n < length (fl_heap s) \<Longrightarrow> lk_at m (release_lock n s) = (if m = n then release (lk_at m s) else lk_at m s)"
  by (auto simp: release_lock_def lk_at_set) (simp_all add: lk_at_def)

lemma floor_frame [simp]:
  "fl_jobs (set_lock n l s) = fl_jobs s" "fl_locks (set_lock n l s) = fl_locks s" "fl_gw (set_lock n l s) = fl_gw s"
  "length (fl_heap (set_lock n l s)) = length (fl_heap s)"
  "fl_jobs (release_lock n s) = fl_jobs s" "fl_locks (release_lock n s) = fl_locks s" "fl_gw (release_lock n s) = fl_gw s"
  "length (fl_heap (release_lock n s)) = length (fl_heap s)"
  "fl_heap (set_job t j s) = fl_heap s" "fl_locks (set_job t j s) = fl_locks s" "fl_gw (set_job t j s) = fl_gw s"
  "fl_jobs (set_job t j s) = (fl_jobs s)[t := j]"
  by (simp_all add: set_lock_def release_lock_def set_job_def)

text \<open>Every lock number in use belongs to a lock, and every task waits at the lock of its session.\<close>

fun job_lock :: "job \<Rightarrow> nat option" where
  "job_lock (Queued n pl) = Some n"
| "job_lock (Opening n pl req tr) = Some n"
| "job_lock _ = None"

definition fl_wf :: "floor \<Rightarrow> bool" where
  "fl_wf s \<longleftrightarrow> (\<forall>key n. map_of (fl_locks s) key = Some n \<longrightarrow> n < length (fl_heap s)) \<and>
     (\<forall>j n. j \<in> set (fl_jobs s) \<longrightarrow> job_lock j = Some n \<longrightarrow> n < length (fl_heap s))"

lemma fl_wf_job: "fl_wf s \<Longrightarrow> (\<And>n. job_lock j = Some n \<Longrightarrow> n < length (fl_heap s)) \<Longrightarrow> fl_wf (set_job t j s)"
  by (auto simp: fl_wf_def dest: in_set_conv_nth [THEN iffD1] dest!: set_update_subset_insert [THEN subsetD])

lemma fl_wf_frame [simp]:
  "fl_wf (set_lock n l s) = fl_wf s" "fl_wf (release_lock n s) = fl_wf s" "fl_wf (s\<lparr>fl_gw := g\<rparr>) = fl_wf s"
  by (simp_all add: fl_wf_def)

lemma lock_for_ok:
  assumes "lock_for key s = (n, s1)" and "fl_wf s"
  shows "fl_wf s1" "n < length (fl_heap s1)" "lk_at m s1 = lk_at m s" "fl_jobs s1 = fl_jobs s" "fl_gw s1 = fl_gw s"
    "map_of (fl_locks s1) key = Some n" "map_of (fl_locks s) key' = Some n' \<Longrightarrow> map_of (fl_locks s1) key' = Some n'"
    "tasks_where P s1 = tasks_where P s"
  using assms
  by (auto simp del: split_paired_All simp: lock_for_def fl_wf_def lk_at_def nth_append update_conv' tasks_where_def less_Suc_eq
      split: option.splits if_splits)

lemma begin_call_view:
  assumes "t < length (fl_jobs s)"
  shows "lk_at m (begin_call i t pl s) = lk_at m s"
    "tasks_where (opens m) (begin_call i t pl s) = tasks_where (opens m) s - {t}"
    "tasks_where (queues m) (begin_call i t pl s) = tasks_where (queues m) s - {t}"
  using assms by (simp_all add: begin_call_def Let_def tasks_where_job)

lemma begin_call_wf: "fl_wf s \<Longrightarrow> fl_wf (begin_call i t pl s)"
  by (auto simp: begin_call_def Let_def intro: fl_wf_job)

lemma enter_section_wf: "fl_wf s \<Longrightarrow> n < length (fl_heap s) \<Longrightarrow> fl_wf (enter_section w p i t n pl s)"
  by (auto simp: enter_section_def new_uuid_def Let_def intro: fl_wf_job begin_call_wf)

lemma begin_task_wf:
  assumes "fl_wf s" shows "fl_wf (begin_task w p i t s)"
proof (cases "proxy_prepare w p i")
  case (Inr pl)
  obtain n s1 where "lock_for (pp_key pl) s = (n, s1)" by fastforce
  with Inr assms lock_for_ok(1,2) [OF this assms] show ?thesis
    by (auto simp: begin_task_def intro!: fl_wf_job begin_call_wf enter_section_wf split: prod.splits)
qed (auto simp: begin_task_def intro!: fl_wf_job assms)

lemma job_lock_bound:
  "fl_wf s \<Longrightarrow> t < length (fl_jobs s) \<Longrightarrow> job_lock (fl_jobs s ! t) = Some n \<Longrightarrow> n < length (fl_heap s)"
  using nth_mem by (fastforce simp: fl_wf_def)

lemma fl_step_wf: "fl_step w p is a s = Some s' \<Longrightarrow> fl_wf s \<Longrightarrow> fl_wf s'"
proof (cases a)
  case (Start t)
  then show "fl_step w p is a s = Some s' \<Longrightarrow> fl_wf s \<Longrightarrow> fl_wf s'"
    by (auto intro: begin_task_wf split: if_splits)
next
  case (Wake t)
  then show "fl_step w p is a s = Some s' \<Longrightarrow> fl_wf s \<Longrightarrow> fl_wf s'"
    by (auto intro!: enter_section_wf dest: job_lock_bound split: if_splits job.splits option.splits)
next
  case (Answer t)
  then show "fl_step w p is a s = Some s' \<Longrightarrow> fl_wf s \<Longrightarrow> fl_wf s'"
    by (auto simp: opened_def intro!: fl_wf_job begin_call_wf split: if_splits job.splits sum.splits)
next
  case (Cancel t)
  then show "fl_step w p is a s = Some s' \<Longrightarrow> fl_wf s \<Longrightarrow> fl_wf s'"
    by (auto intro!: fl_wf_job split: if_splits job.splits)
next
  case Close
  then show "fl_step w p is a s = Some s' \<Longrightarrow> fl_wf s \<Longrightarrow> fl_wf s'" by (auto simp: fl_wf_def)
qed

text \<open>A step is a sequence of operations on each lock.\<close>

lemma enter_section_view:
  assumes "t < length (fl_jobs s)" and "n < length (fl_heap s)"
  shows "lk_at m (enter_section w p i t n pl s) =
      (if map_of (g_proxy_sessions (fl_gw s)) (pp_key pl) \<noteq> None \<and> m = n then release (lk_at m s) else lk_at m s)"
    and "tasks_where (opens m) (enter_section w p i t n pl s) =
      (if map_of (g_proxy_sessions (fl_gw s)) (pp_key pl) = None \<and> m = n then insert t (tasks_where (opens m) s)
       else tasks_where (opens m) s - {t})"
    and "tasks_where (queues m) (enter_section w p i t n pl s) = tasks_where (queues m) s - {t}"
  using assms
  by (auto simp: enter_section_def begin_call_view new_uuid_def Let_def tasks_where_job lk_at_release)

lemma not_where: "\<not> P (fl_jobs s ! t) \<Longrightarrow> t \<notin> tasks_where P s"
  by (simp add: tasks_where_def)

lemma begin_task_moves:
  assumes t: "t < length (fl_jobs s)" "fl_jobs s ! t = Fresh" and wf: "fl_wf s"
  shows "lock_move\<^sup>*\<^sup>* (lock_view m s) (lock_view m (begin_task w p i t s))"
proof -
  have out: "t \<notin> tasks_where (opens m) s" "t \<notin> tasks_where (queues m) s" by (simp_all add: not_where t)
  have keep: "tasks_where (opens m) s - {t} = tasks_where (opens m) s" "tasks_where (queues m) s - {t} = tasks_where (queues m) s"
    using out by simp_all
  show ?thesis
  proof (cases "proxy_prepare w p i")
    case (Inl e)
    then show ?thesis by (simp add: begin_task_def lock_view_def tasks_where_job t keep)
  next
    case (Inr pl)
    show ?thesis
    proof (cases "skips i \<or> map_of (g_proxy_sessions (fl_gw s)) (pp_key pl) \<noteq> None")
      case True
      then show ?thesis using Inr by (simp add: begin_task_def lock_view_def begin_call_view t keep)
    next
      case False
      obtain n s1 where lf: "lock_for (pp_key pl) s = (n, s1)" by fastforce
      note l1 = lock_for_ok [OF lf wf]
      obtain got l where ac: "acquire t (fl_heap s1 ! n) = (got, l)" by fastforce
      have at: "lk_at n s = fl_heap s1 ! n" using l1(2) l1(3) [of n] by (simp add: lk_at_def split: if_splits)
      have step: "begin_task w p i t s =
          (if got then enter_section w p i t n pl (set_lock n l s1) else set_job t (Queued n pl) (set_lock n l s1))"
        using Inr False lf ac by (simp add: begin_task_def)
      show ?thesis
        using False l1(2-5) at t out ac
        by (auto simp: step lock_view_def enter_section_view lk_at_set tasks_where_job keep l1(8)
            intro: entered_and_left one_move [OF enter] one_move [OF queue_up])
    qed
  qed
qed

lemma step_moves:
  assumes "fl_step w p is a s = Some s'" and wf: "fl_wf s"
  shows "lock_move\<^sup>*\<^sup>* (lock_view m s) (lock_view m s')"
proof (cases a)
  case (Start t)
  then show ?thesis using assms by (auto intro: begin_task_moves split: if_splits)
next
  case (Wake t)
  with assms(1) obtain n pl l where t: "t < length (fl_jobs s)" and job: "fl_jobs s ! t = Queued n pl"
    and aw: "awaken t (fl_heap s ! n) = Some l" and s': "s' = enter_section w p (is ! t) t n pl (set_lock n l s)"
    by (auto split: if_splits job.splits option.splits)
  have n: "n < length (fl_heap s)" using job_lock_bound [OF wf t] job by simp
  then have at: "fl_heap s ! n = lk_at n s" by (simp add: lk_at_def)
  have out: "t \<notin> tasks_where (opens m) s" by (simp add: not_where job)
  have "m \<noteq> n \<Longrightarrow> t \<notin> tasks_where (queues m) s" by (simp add: not_where job)
  with out n t aw s' show ?thesis
    by (auto simp: lock_view_def enter_section_view lk_at_set at
        intro: woken_and_left one_move [OF woken])
next
  case (Answer t)
  show ?thesis
  proof (cases "fl_jobs s ! t")
    case (Opening n pl req tr)
    with assms(1) Answer have t: "t < length (fl_jobs s)" and s': "s' = opened w (is ! t) t n pl req tr s"
      by (auto split: if_splits)
    have n: "n < length (fl_heap s)" using job_lock_bound [OF wf t] Opening by simp
    have "t \<notin> tasks_where (queues m) s" "t \<in> tasks_where (opens n) s" "m \<noteq> n \<Longrightarrow> t \<notin> tasks_where (opens m) s"
      using t by (simp_all add: tasks_where_def Opening)
    with n t s' show ?thesis
      by (auto simp: opened_def lock_view_def begin_call_view lk_at_release tasks_where_job
          intro: one_move [OF leave] split: sum.splits)
  next
    case (Calling pl req tr)
    then have "t \<notin> tasks_where (opens m) s" "t \<notin> tasks_where (queues m) s" by (simp_all add: not_where)
    then show ?thesis using assms(1) Answer Calling by (auto simp: lock_view_def tasks_where_job split: if_splits)
  qed (use assms(1) Answer in \<open>auto split: if_splits\<close>)
next
  case (Cancel t)
  then have t: "t < length (fl_jobs s)" using assms(1) by (auto split: if_splits)
  show ?thesis
  proof (cases "fl_jobs s ! t")
    case (Queued n pl)
    have n: "n < length (fl_heap s)" using job_lock_bound [OF wf t] Queued by simp
    have "t \<notin> tasks_where (opens m) s" "t \<in> tasks_where (queues n) s" "m \<noteq> n \<Longrightarrow> t \<notin> tasks_where (queues m) s"
      using t by (simp_all add: tasks_where_def Queued)
    with n t show ?thesis using assms(1) Cancel Queued
      by (auto simp: lock_view_def lk_at_set tasks_where_job lk_at_def [of n] intro: one_move [OF dropped])
  next
    case (Opening n pl req tr)
    have n: "n < length (fl_heap s)" using job_lock_bound [OF wf t] Opening by simp
    have "t \<notin> tasks_where (queues m) s" "t \<in> tasks_where (opens n) s" "m \<noteq> n \<Longrightarrow> t \<notin> tasks_where (opens m) s"
      using t by (simp_all add: tasks_where_def Opening)
    with n t show ?thesis using assms(1) Cancel Opening
      by (auto simp: lock_view_def lk_at_release tasks_where_job intro: one_move [OF leave])
  qed (use assms(1) Cancel t not_where [of "opens m" s t] not_where [of "queues m" s t] in
      \<open>auto simp: lock_view_def tasks_where_job\<close>)
next
  case Close
  then show ?thesis using assms(1) by (auto simp: lock_view_def)
qed

definition fl_moves :: "world \<Rightarrow> mcp_proxy \<Rightarrow> tool_invocation list \<Rightarrow> floor \<Rightarrow> floor \<Rightarrow> bool" where
  "fl_moves w p is s s' \<longleftrightarrow> (\<exists>a. fl_step w p is a s = Some s')"

definition fl_begins :: "floor \<Rightarrow> bool" where
  "fl_begins s \<longleftrightarrow> (\<exists>g n. s = fl_start g n)"

interpretation session_lock: guarded "lock_view m" fl_begins fl_wf "fl_moves w p is" for m w p "is"
proof unfold_locales
  show "lock_view m s = (new_lock, {}, {})" if "fl_begins s" for s
    using that by (auto simp: fl_begins_def fl_start_def lock_view_def lk_at_def tasks_where_def)
  show "fl_wf s" if "fl_begins s" for s
    using that by (auto simp: fl_begins_def fl_start_def fl_wf_def)
qed (auto simp: fl_moves_def intro: fl_step_wf step_moves)

lemma run_moves: "fl_run w p is as s = Some s' \<Longrightarrow> (fl_moves w p is)\<^sup>*\<^sup>* s s'"
proof (induction "as" arbitrary: s)
  case (Cons a "as")
  then obtain s1 where "fl_step w p is a s = Some s1" "fl_run w p is as s1 = Some s'" by (auto split: option.splits)
  moreover from this(1) have "fl_moves w p is s s1" by (auto simp: fl_moves_def)
  ultimately show ?case using Cons.IH converse_rtranclp_into_rtranclp by metis
qed simp

lemma run_append:
  "fl_run w p is (as @ bs) s = (case fl_run w p is as s of None \<Rightarrow> None | Some s' \<Rightarrow> fl_run w p is bs s')"
  by (induction "as" arbitrary: s) (auto split: option.splits)

lemma start_wf: "fl_wf (fl_start g n)" "fl_begins (fl_start g n)"
  by (auto simp: fl_begins_def fl_start_def fl_wf_def)

section \<open>Sessions\<close>

abbreviation sessions :: "floor \<Rightarrow> ((string \<times> string) \<times> string) list" where
  "sessions s \<equiv> g_proxy_sessions (fl_gw s)"

text \<open>The request headers once the session is known.\<close>

definition session_headers :: "string \<Rightarrow> string dict \<Rightarrow> string dict" where
  "session_headers sid headers = (if sid \<noteq> [] then AList.update ''Mcp-Session-Id'' sid headers else headers)"

text \<open>
  While nobody closes the adapter: a task waits at the lock of its session, a handshake is under way
  only while its session is unknown, and a call carries the id of its session.
\<close>

fun job_ok :: "world \<Rightarrow> mcp_proxy \<Rightarrow> tool_invocation \<Rightarrow> floor \<Rightarrow> job \<Rightarrow> bool" where
  "job_ok w p i s (Queued n pl) \<longleftrightarrow>
     proxy_prepare w p i = Inr pl \<and> \<not> skips i \<and> map_of (fl_locks s) (pp_key pl) = Some n"
| "job_ok w p i s (Opening n pl req tr) \<longleftrightarrow>
     proxy_prepare w p i = Inr pl \<and> \<not> skips i \<and> map_of (fl_locks s) (pp_key pl) = Some n \<and>
     map_of (sessions s) (pp_key pl) = None"
| "job_ok w p i s (Calling pl req tr) \<longleftrightarrow>
     proxy_prepare w p i = Inr pl \<and>
     (skips i \<or> (\<exists>sid. map_of (sessions s) (pp_key pl) = Some sid \<and> hr_headers req = session_headers sid (pp_headers pl)))"
| "job_ok w p i s _ \<longleftrightarrow> True"

definition fl_keyed :: "world \<Rightarrow> mcp_proxy \<Rightarrow> tool_invocation list \<Rightarrow> floor \<Rightarrow> bool" where
  "fl_keyed w p is s \<longleftrightarrow> (\<forall>t < length (fl_jobs s). job_ok w p (is ! t) s (fl_jobs s ! t))"

definition sessions_kept :: "floor \<Rightarrow> floor \<Rightarrow> bool" where
  "sessions_kept s s' \<longleftrightarrow>
     (\<forall>key sid. map_of (sessions s) key = Some sid \<longrightarrow> map_of (sessions s') key = Some sid)"

lemma sessions_kept_refl [simp]: "sessions_kept s s" by (simp add: sessions_kept_def)

lemma sessions_kept_trans: "sessions_kept s s' \<Longrightarrow> sessions_kept s' s'' \<Longrightarrow> sessions_kept s s''"
  by (simp add: sessions_kept_def)

text \<open>Only the locks and the sessions matter to the other tasks.\<close>

lemma job_ok_cong:
  "fl_locks s = fl_locks s' \<Longrightarrow> sessions s = sessions s' \<Longrightarrow> job_ok w p i s j = job_ok w p i s' j"
  by (cases j) auto

lemma job_ok_mono:
  "job_ok w p i s j \<Longrightarrow> sessions s' = sessions s \<Longrightarrow>
     (\<And>key n. map_of (fl_locks s) key = Some n \<Longrightarrow> map_of (fl_locks s') key = Some n) \<Longrightarrow> job_ok w p i s' j"
  by (cases j) auto

lemma keyed_update:
  assumes "fl_keyed w p is s" and "fl_jobs s' = (fl_jobs s)[t := j]"
    and "fl_locks s' = fl_locks s" "sessions s' = sessions s" and "job_ok w p (is ! t) s j"
  shows "fl_keyed w p is s'"
  unfolding fl_keyed_def
proof (intro allI impI)
  fix u
  assume "u < length (fl_jobs s')"
  then show "job_ok w p (is ! u) s' (fl_jobs s' ! u)"
    using assms job_ok_cong [OF assms(3,4)] by (cases "u = t") (auto simp: fl_keyed_def)
qed

lemma keyed_frame:
  "fl_jobs s' = fl_jobs s \<Longrightarrow> fl_locks s' = fl_locks s \<Longrightarrow> sessions s' = sessions s \<Longrightarrow>
     fl_keyed w p is s' = fl_keyed w p is s"
  using job_ok_cong [of s' s] by (simp add: fl_keyed_def)

lemma begin_call_frame [simp]:
  "fl_locks (begin_call i t pl s) = fl_locks s" "sessions (begin_call i t pl s) = sessions s"
  "fl_heap (begin_call i t pl s) = fl_heap s"
  by (simp_all add: begin_call_def Let_def set_job_def)

lemma begin_call_job:
  assumes "proxy_prepare w p i = Inr pl" and "skips i \<or> map_of (sessions s) (pp_key pl) \<noteq> None"
  obtains req tr where "fl_jobs (begin_call i t pl s) = (fl_jobs s)[t := Calling pl req tr]"
    "job_ok w p i s (Calling pl req tr)"
  using assms by (auto simp: begin_call_def Let_def with_session_def session_headers_def rpc_request_def some_text_def)

lemma begin_call_keyed:
  assumes "fl_keyed w p is s" and "proxy_prepare w p (is ! t) = Inr pl"
    and "skips (is ! t) \<or> map_of (sessions s) (pp_key pl) \<noteq> None"
  shows "fl_keyed w p is (begin_call (is ! t) t pl s)"
  using begin_call_job [OF assms(2,3), of t] keyed_update [OF assms(1)] begin_call_frame by metis

lemma enter_section_keyed:
  assumes "fl_keyed w p is s" and "proxy_prepare w p (is ! t) = Inr pl" "\<not> skips (is ! t)"
    and "map_of (fl_locks s) (pp_key pl) = Some n"
  shows "fl_keyed w p is (enter_section w p (is ! t) t n pl s)"
proof (cases "map_of (sessions s) (pp_key pl)")
  case None
  have "job_ok w p (is ! t) s (Opening n pl req tr)" for req tr using assms None by simp
  then show ?thesis
    using assms(1) None by (auto simp: enter_section_def new_uuid_def Let_def intro!: keyed_update [OF assms(1)])
next
  case (Some sid)
  have "fl_keyed w p is (release_lock n s)"
    using assms(1) by (simp add: keyed_frame [of "release_lock n s" s])
  then show ?thesis using Some assms(2) by (auto simp: enter_section_def intro!: begin_call_keyed)
qed

lemma enter_section_sessions [simp]: "sessions (enter_section w p i t n pl s) = sessions s"
  by (simp add: enter_section_def new_uuid_def Let_def set_job_def)

lemma begin_task_keyed:
  assumes "fl_keyed w p is s" and "fl_wf s" and "t < length (fl_jobs s)"
  shows "fl_keyed w p is (begin_task w p (is ! t) t s)" "sessions (begin_task w p (is ! t) t s) = sessions s"
proof -
  have "fl_keyed w p is (begin_task w p (is ! t) t s) \<and> sessions (begin_task w p (is ! t) t s) = sessions s"
  proof (cases "proxy_prepare w p (is ! t)")
    case (Inl e)
    then show ?thesis using keyed_update [OF assms(1), of "set_job t (Over (Inl e)) s" t] by (simp add: begin_task_def)
  next
    case (Inr pl)
    show ?thesis
    proof (cases "skips (is ! t) \<or> map_of (sessions s) (pp_key pl) \<noteq> None")
      case True
      then show ?thesis using Inr begin_call_keyed [OF assms(1) Inr] by (simp add: begin_task_def)
    next
      case False
      obtain n s1 where lf: "lock_for (pp_key pl) s = (n, s1)" by fastforce
      note l1 = lock_for_ok [OF lf assms(2)]
      obtain got l where ac: "acquire t (fl_heap s1 ! n) = (got, l)" by fastforce
      let ?s2 = "set_lock n l s1"
      have k1: "fl_keyed w p is s1"
        using assms(1) l1(4,5,7) job_ok_mono [of w p _ s _ s1] by (simp add: fl_keyed_def)
      then have k2: "fl_keyed w p is ?s2" by (simp add: keyed_frame [of ?s2 s1])
      have "fl_keyed w p is (enter_section w p (is ! t) t n pl ?s2)"
        using enter_section_keyed [OF k2 Inr] False l1(6) by simp
      moreover have "fl_keyed w p is (set_job t (Queued n pl) ?s2)"
        using keyed_update [OF k2, of "set_job t (Queued n pl) ?s2" t "Queued n pl"] Inr False l1(6) by simp
      ultimately show ?thesis using Inr False lf ac l1(5) by (simp add: begin_task_def)
    qed
  qed
  then show "fl_keyed w p is (begin_task w p (is ! t) t s)" "sessions (begin_task w p (is ! t) t s) = sessions s" by simp_all
qed

text \<open>Opening a session: the handshakes of the same session are excluded by its lock.\<close>

lemma keyed_opened:
  assumes key: "fl_keyed w p is s" and lock: "lock_ok (lock_view n s)" and t: "t < length (fl_jobs s)"
    and job: "fl_jobs s ! t = Opening n pl req tr"
  shows "fl_keyed w p is (opened w (is ! t) t n pl req tr s) \<and> sessions_kept s (opened w (is ! t) t n pl req tr s)"
proof -
  have ok: "job_ok w p (is ! t) s (Opening n pl req tr)" using key t job by (auto simp: fl_keyed_def dest!: spec [of _ t])
  have k1: "fl_keyed w p is (release_lock n s)" by (simp add: keyed_frame [of "release_lock n s" s] key)
  show ?thesis
  proof (cases "bindE (post_outcome req (w_http w tr)) (\<lambda>r. bindE (decode_response r) (\<lambda>_. Inr r))")
    case (Inl e)
    then show ?thesis
      using keyed_update [OF k1, of "set_job t (Over (Inl e)) (release_lock n s)" t] by (simp add: opened_def sessions_kept_def)
  next
    case (Inr r)
    let ?ss = "AList.update (pp_key pl) (session_id_of r) (sessions s)"
    let ?s2 = "(s\<lparr>fl_gw := (fl_gw s)\<lparr>g_proxy_sessions := ?ss\<rparr>\<rparr>)\<lparr>fl_jobs := (fl_jobs s)[t := Gone]\<rparr>"
    have kept: "map_of ?ss key = Some sid" if "map_of (sessions s) key = Some sid" for key sid
      using that ok by (auto simp: update_conv')
    have "job_ok w p (is ! u) ?s2 (fl_jobs ?s2 ! u)" if u: "u < length (fl_jobs s)" for u
    proof (cases "u = t")
      case False
      have "job_ok w p (is ! u) s (fl_jobs s ! u)" using key u by (simp add: fl_keyed_def)
      moreover have "pp_key pl' \<noteq> pp_key pl" if "fl_jobs s ! u = Opening n' pl' req' tr'" for n' pl' req' tr'
      proof
        assume "pp_key pl' = pp_key pl"
        with calculation that ok have "n' = n" by simp
        with that u t job have "u \<in> tasks_where (opens n) s" "t \<in> tasks_where (opens n) s" by (simp_all add: tasks_where_def)
        with lock False show False by (auto simp: lock_view_def)
      qed
      ultimately show ?thesis using False ok by (cases "fl_jobs s ! u") (auto simp: update_conv')
    qed (use t in simp)
    then have k2: "fl_keyed w p is ?s2" by (simp add: fl_keyed_def)
    let ?s3 = "release_lock n (s\<lparr>fl_gw := (fl_gw s)\<lparr>g_proxy_sessions := ?ss\<rparr>\<rparr>)"
    have known: "skips (is ! t) \<or> map_of (sessions ?s3) (pp_key pl) \<noteq> None" by (simp add: update_conv')
    from begin_call_job [OF _ known, of w p t] ok obtain req' tr'
      where c: "fl_jobs (begin_call (is ! t) t pl ?s3) = (fl_jobs ?s3)[t := Calling pl req' tr']"
        "job_ok w p (is ! t) ?s3 (Calling pl req' tr')" by auto
    have "fl_keyed w p is (begin_call (is ! t) t pl ?s3)"
      by (rule keyed_update [OF k2, of _ t "Calling pl req' tr'"]) (use c in simp_all)
    then show ?thesis using Inr kept by (simp add: opened_def sessions_kept_def)
  qed
qed

lemma step_keyed:
  assumes step: "fl_step w p is a s = Some s'" and noclose: "a \<noteq> Close"
    and key: "fl_keyed w p is s" and wf: "fl_wf s" and lock: "\<And>n. lock_ok (lock_view n s)"
  shows "fl_keyed w p is s' \<and> sessions_kept s s'"
proof -
  have job: "job_ok w p (is ! t) s (fl_jobs s ! t)" if "t < length (fl_jobs s)" for t
    using key that by (simp add: fl_keyed_def)
  have done_or_gone: "fl_keyed w p is (set_job t j s1)"
    if "fl_jobs s1 = fl_jobs s" "fl_locks s1 = fl_locks s" "sessions s1 = sessions s" "\<And>s. job_ok w p (is ! t) s j" for t j s1
    using keyed_update [OF key, of "set_job t j s1" t j] that by simp
  show ?thesis
  proof (cases a)
    case (Start t)
    then show ?thesis using step begin_task_keyed [OF key wf] by (auto simp: sessions_kept_def split: if_splits)
  next
    case (Wake t)
    with step obtain n pl l where t: "t < length (fl_jobs s)" "fl_jobs s ! t = Queued n pl"
      and s': "s' = enter_section w p (is ! t) t n pl (set_lock n l s)"
      by (auto split: if_splits job.splits option.splits)
    have "fl_keyed w p is (set_lock n l s)" by (simp add: keyed_frame [of "set_lock n l s" s] key)
    then show ?thesis using s' job [OF t(1)] t(2) enter_section_keyed [of w p "is" "set_lock n l s" t pl n]
      by (simp add: sessions_kept_def)
  next
    case (Answer t)
    then have t: "t < length (fl_jobs s)" using step by (auto split: if_splits)
    show ?thesis
    proof (cases "fl_jobs s ! t")
      case (Opening n pl req tr)
      then show ?thesis using step Answer t keyed_opened [OF key lock t Opening] by (auto split: if_splits)
    next
      case (Calling pl req tr)
      then show ?thesis using step Answer t done_or_gone [of s t] by (auto simp: sessions_kept_def split: if_splits)
    qed (use step Answer t in \<open>auto split: if_splits\<close>)
  next
    case (Cancel t)
    then show ?thesis using step done_or_gone [of _ t Gone]
      by (auto simp: sessions_kept_def split: if_splits job.splits)
  qed (use noclose in simp)
qed

lemma run_keyed:
  assumes "fl_run w p is as s = Some s'" and "Close \<notin> set as" and "fl_keyed w p is s"
    and "(fl_moves w p is)\<^sup>*\<^sup>* s0 s" "fl_begins s0"
  shows "fl_keyed w p is s' \<and> sessions_kept s s'"
  using assms
proof (induction "as" arbitrary: s)
  case (Cons a "as")
  then obtain s1 where s1: "fl_step w p is a s = Some s1" "fl_run w p is as s1 = Some s'" by (auto split: option.splits)
  then have mv: "fl_moves w p is s s1" by (auto simp: fl_moves_def)
  have reach: "(fl_moves w p is)\<^sup>*\<^sup>* s0 s1" using Cons.prems(4) mv by (rule rtranclp.rtrancl_into_rtrancl)
  have "fl_keyed w p is s1 \<and> sessions_kept s s1"
    using step_keyed [OF s1(1) _ Cons.prems(3)] Cons.prems session_lock.always_wf [OF Cons.prems(4,5)]
      session_lock.view_ok [OF Cons.prems(4,5)] by auto
  then show ?case using Cons.IH [OF s1(2) _ _ reach Cons.prems(5)] Cons.prems(2) sessions_kept_trans by auto
qed simp

lemma start_keyed: "fl_keyed w p is (fl_start g n)"
  by (simp add: fl_keyed_def fl_start_def)

lemmas run_from_start = run_keyed [OF _ _ start_keyed rtranclp.rtrancl_refl start_wf(2)]

lemma begin_call_length [simp]: "length (fl_jobs (begin_call i t pl s)) = length (fl_jobs s)"
  by (simp add: begin_call_def Let_def)

lemma enter_section_length [simp]: "length (fl_jobs (enter_section w p i t n pl s)) = length (fl_jobs s)"
  by (simp add: enter_section_def new_uuid_def Let_def)

lemma lock_for_jobs: "lock_for key s = (n, s1) \<Longrightarrow> fl_jobs s1 = fl_jobs s"
  by (auto simp: lock_for_def split: option.splits)

lemma step_length: "fl_step w p is a s = Some s' \<Longrightarrow> length (fl_jobs s') = length (fl_jobs s)"
  by (cases a) (auto simp: begin_task_def opened_def dest: lock_for_jobs split: if_splits job.splits option.splits sum.splits prod.splits)

lemma run_length: "fl_run w p is as s = Some s' \<Longrightarrow> length (fl_jobs s') = length (fl_jobs s)"
  by (induction "as" arbitrary: s) (auto dest: step_length split: option.splits)

lemma start_length: "fl_run w p is as (fl_start g n) = Some s \<Longrightarrow> length (fl_jobs s) = n"
  by (auto dest: run_length simp: fl_start_def)

section \<open>Where session ids come from\<close>

text \<open>A request of a task is under way: it is the last of the trace \<open>tr\<close>, which the world has seen.\<close>

definition asked_on :: "event list \<Rightarrow> http_req \<Rightarrow> floor \<Rightarrow> bool" where
  "asked_on tr req s \<longleftrightarrow> (\<exists>before rest. tr = before @ [EvHttp req] \<and> g_trace (fl_gw s) = tr @ rest)"

definition handshake_request :: "mcp_proxy \<Rightarrow> tool_invocation \<Rightarrow> proxy_plan \<Rightarrow> http_req \<Rightarrow> bool" where
  "handshake_request p i pl req \<longleftrightarrow>
     (\<exists>uid. req = rpc_request (pp_url pl) (init_rpc p uid (asked_version i)) (pp_headers pl) (pp_timeout pl))"

text \<open>An invocation of this session asked for a handshake, and the id is that in the answer.\<close>

definition handshake_gave :: "world \<Rightarrow> mcp_proxy \<Rightarrow> tool_invocation list \<Rightarrow> floor \<Rightarrow> (string \<times> string) \<Rightarrow> string \<Rightarrow> bool" where
  "handshake_gave w p is s key sid \<longleftrightarrow>
     (\<exists>u pl req tr r. u < length (fl_jobs s) \<and> proxy_prepare w p (is ! u) = Inr pl \<and> pp_key pl = key \<and>
        handshake_request p (is ! u) pl req \<and> asked_on tr req s \<and> w_http w tr = Response r \<and>
        \<not> isl (decode_response r) \<and>
        sid = (case header_of r ''mcp-session-id'' of None \<Rightarrow> [] | Some h \<Rightarrow> h))"

definition job_asked :: "mcp_proxy \<Rightarrow> tool_invocation \<Rightarrow> floor \<Rightarrow> job \<Rightarrow> bool" where
  "job_asked p i s j \<longleftrightarrow>
     (case j of Opening n pl req tr \<Rightarrow> handshake_request p i pl req \<and> asked_on tr req s | _ \<Rightarrow> True)"

text \<open>Every id is from the start or from a handshake.\<close>

definition ids_given :: "world \<Rightarrow> mcp_proxy \<Rightarrow> tool_invocation list \<Rightarrow> gw \<Rightarrow> floor \<Rightarrow> bool" where
  "ids_given w p is g s \<longleftrightarrow>
     (\<forall>t < length (fl_jobs s). job_asked p (is ! t) s (fl_jobs s ! t)) \<and>
     (\<forall>key sid. map_of (sessions s) key = Some sid \<longrightarrow>
        map_of (g_proxy_sessions g) key = Some sid \<or> handshake_gave w p is s key sid)"

lemma asked_on_later: "asked_on tr req s \<Longrightarrow> extends (fl_gw s) (fl_gw s') \<Longrightarrow> asked_on tr req s'"
  unfolding asked_on_def extends_def by (metis append.assoc)

lemma job_asked_later: "job_asked p i s j \<Longrightarrow> extends (fl_gw s) (fl_gw s') \<Longrightarrow> job_asked p i s' j"
  by (auto simp: job_asked_def intro: asked_on_later split: job.splits)

lemma handshake_gave_later:
  "handshake_gave w p is s key sid \<Longrightarrow> extends (fl_gw s) (fl_gw s') \<Longrightarrow> length (fl_jobs s') = length (fl_jobs s) \<Longrightarrow>
     handshake_gave w p is s' key sid"
  unfolding handshake_gave_def using asked_on_later [of _ _ s s'] by metis

lemma ids_update:
  assumes "ids_given w p is g s" and "fl_jobs s' = (fl_jobs s)[t := j]" and "extends (fl_gw s) (fl_gw s')"
    and "job_asked p (is ! t) s' j"
    and "\<And>key sid. map_of (sessions s') key = Some sid \<Longrightarrow> map_of (sessions s) key = Some sid \<or> handshake_gave w p is s' key sid"
  shows "ids_given w p is g s'"
  unfolding ids_given_def
proof (intro conjI allI impI)
  fix u
  assume "u < length (fl_jobs s')"
  then show "job_asked p (is ! u) s' (fl_jobs s' ! u)"
    using assms(1,2,4) job_asked_later [OF _ assms(3)] by (cases "u = t") (auto simp: ids_given_def)
next
  fix key sid
  assume "map_of (sessions s') key = Some sid"
  with assms(5) consider "map_of (sessions s) key = Some sid" | "handshake_gave w p is s' key sid" by blast
  then show "map_of (g_proxy_sessions g) key = Some sid \<or> handshake_gave w p is s' key sid"
  proof cases
    case 1
    with assms(1) have "map_of (g_proxy_sessions g) key = Some sid \<or> handshake_gave w p is s key sid"
      unfolding ids_given_def by blast
    moreover have "length (fl_jobs s') = length (fl_jobs s)" using assms(2) by simp
    ultimately show ?thesis using handshake_gave_later [OF _ assms(3)] by blast
  qed blast
qed

lemma ids_job:
  assumes "ids_given w p is g s" and "fl_jobs s' = (fl_jobs s)[t := j]" and "extends (fl_gw s) (fl_gw s')"
    and "job_asked p (is ! t) s' j" and "sessions s' = sessions s"
  shows "ids_given w p is g s'"
  by (rule ids_update [OF assms(1-4)]) (simp add: assms(5))

lemma ids_frame:
  "ids_given w p is g s \<Longrightarrow> fl_jobs s' = fl_jobs s \<Longrightarrow> fl_gw s' = fl_gw s \<Longrightarrow> ids_given w p is g s'"
  by (rule ids_job [of w p "is" g s s' "length (fl_jobs s)" Fresh]) (simp_all add: job_asked_def list_update_beyond)

lemma begin_call_ids:
  "ids_given w p is g s \<Longrightarrow> ids_given w p is g (begin_call (is ! t) t pl s)"
  by (rule ids_job [of w p "is" g s _ t]) (auto simp: begin_call_def Let_def job_asked_def)

lemma enter_section_ids:
  assumes "ids_given w p is g s"
  shows "ids_given w p is g (enter_section w p (is ! t) t n pl s)"
proof (cases "map_of (sessions s) (pp_key pl)")
  case None
  let ?g = "emit EvUuid (fl_gw s)"
  let ?req = "rpc_request (pp_url pl) (init_rpc p (w_uuid w (g_trace ?g)) (asked_version (is ! t))) (pp_headers pl) (pp_timeout pl)"
  have s': "enter_section w p (is ! t) t n pl s =
      set_job t (Opening n pl ?req (g_trace (emit (EvHttp ?req) ?g))) (s\<lparr>fl_gw := emit (EvHttp ?req) ?g\<rparr>)" (is "_ = ?s'")
    using None by (simp add: enter_section_def new_uuid_def Let_def)
  have "extends (fl_gw s) (emit (EvHttp ?req) ?g)" by (simp add: extends_def)
  moreover have "job_asked p (is ! t) ?s' (Opening n pl ?req (g_trace (emit (EvHttp ?req) ?g)))"
    by (auto simp: job_asked_def handshake_request_def asked_on_def)
  ultimately show ?thesis unfolding s' by (intro ids_job [OF assms]) simp_all
next
  case (Some sid)
  then show ?thesis
    using begin_call_ids [of w p "is" g "release_lock n s" t pl] ids_frame [OF assms, of "release_lock n s"]
    by (simp add: enter_section_def)
qed

lemma begin_task_ids:
  assumes "ids_given w p is g s" and "fl_wf s"
  shows "ids_given w p is g (begin_task w p (is ! t) t s)"
proof (cases "proxy_prepare w p (is ! t)")
  case (Inl e)
  then show ?thesis by (auto simp: begin_task_def job_asked_def intro: ids_job [OF assms(1)])
next
  case (Inr pl)
  obtain n s1 where lf: "lock_for (pp_key pl) s = (n, s1)" by fastforce
  have s1: "ids_given w p is g (set_lock n l s1)" for l
    using lock_for_ok(4,5) [OF lf assms(2)] by (intro ids_frame [OF assms(1)]) simp_all
  have "ids_given w p is g (set_job t (Queued n pl) (set_lock n l s1))" for l
    by (rule ids_job [OF s1 [of l], of _ t "Queued n pl"]) (simp_all add: job_asked_def)
  with Inr lf s1 show ?thesis
    by (auto simp: begin_task_def intro: begin_call_ids [OF assms(1)] enter_section_ids split: prod.split)
qed

lemma session_id_of_header: "session_id_of r = (case header_of r ''mcp-session-id'' of None \<Rightarrow> [] | Some h \<Rightarrow> h)"
proof -
  have "lower ''Mcp-Session-Id'' = lower ''mcp-session-id''" by code_simp
  then have "header_of r ''Mcp-Session-Id'' = header_of r ''mcp-session-id''" by (simp only: header_of_def)
  then show ?thesis by (simp add: session_id_of_def text_or_def split: option.split)
qed

text \<open>The answer of a handshake whose task is known.\<close>

lemma opened_ids:
  assumes ids: "ids_given w p is g s" and t: "t < length (fl_jobs s)" and job: "fl_jobs s ! t = Opening n pl req tr"
    and plan: "proxy_prepare w p (is ! t) = Inr pl"
  shows "ids_given w p is g (opened w (is ! t) t n pl req tr s)"
proof (cases "bindE (post_outcome req (w_http w tr)) (\<lambda>r. bindE (decode_response r) (\<lambda>_. Inr r))")
  case (Inl e)
  have "ids_given w p is g (set_job t (Over (Inl e)) (release_lock n s))"
    by (rule ids_job [OF ids, of _ t "Over (Inl e)"]) (simp_all add: job_asked_def)
  with Inl show ?thesis by (simp add: opened_def)
next
  case (Inr r)
  then have answer: "w_http w tr = Response r" "\<not> isl (decode_response r)"
    by (auto simp: bindE_eq_Inr post_outcome_def split: http_outcome.splits)
  let ?s1 = "s\<lparr>fl_gw := (fl_gw s)\<lparr>g_proxy_sessions := AList.update (pp_key pl) (session_id_of r) (sessions s)\<rparr>\<rparr>"
  have asked: "handshake_request p (is ! t) pl req" "asked_on tr req s"
    using ids t job by (auto simp: ids_given_def job_asked_def dest!: spec [of _ t])
  have id: "session_id_of r = (case header_of r ''mcp-session-id'' of None \<Rightarrow> [] | Some h \<Rightarrow> h)"
    by (rule session_id_of_header)
  have "handshake_gave w p is ?s1 (pp_key pl) (session_id_of r)"
    unfolding handshake_gave_def
  proof (intro exI conjI)
    show "asked_on tr req ?s1" using asked(2) by (simp add: asked_on_def)
  qed (use t plan asked(1) answer id in simp_all)
  then have "ids_given w p is g ?s1"
    by (intro ids_update [OF ids, of ?s1 "length (fl_jobs s)" Fresh])
      (auto simp: job_asked_def extends_def update_conv' list_update_beyond split: if_splits)
  then have "ids_given w p is g (release_lock n ?s1)" by (rule ids_frame) simp_all
  from begin_call_ids [OF this, of t pl] Inr show ?thesis by (simp add: opened_def)
qed

lemma step_ids:
  assumes step: "fl_step w p is a s = Some s'" and noclose: "a \<noteq> Close"
    and key: "fl_keyed w p is s" and wf: "fl_wf s" and ids: "ids_given w p is g s"
  shows "ids_given w p is g s'"
proof -
  have job: "job_ok w p (is ! t) s (fl_jobs s ! t)" if "t < length (fl_jobs s)" for t
    using key that by (simp add: fl_keyed_def)
  have ended: "ids_given w p is g (set_job t j s1)"
    if "fl_jobs s1 = fl_jobs s" "fl_gw s1 = fl_gw s" "\<And>s. job_asked p (is ! t) s j" for t j s1
    using that by (intro ids_job [OF ids, of _ t j]) simp_all
  show ?thesis
  proof (cases a)
    case (Start t)
    then show ?thesis using step begin_task_ids [OF ids wf] by (auto split: if_splits)
  next
    case (Wake t)
    with step obtain n pl l where "s' = enter_section w p (is ! t) t n pl (set_lock n l s)"
      by (auto split: if_splits job.splits option.splits)
    with enter_section_ids [OF ids_frame [OF ids, of "set_lock n l s"]] show ?thesis by simp
  next
    case (Answer t)
    then have t: "t < length (fl_jobs s)" using step by (auto split: if_splits)
    show ?thesis
    proof (cases "fl_jobs s ! t")
      case (Opening n pl req tr)
      then show ?thesis using step Answer opened_ids [OF ids t Opening] job [OF t] by (auto split: if_splits)
    next
      case (Calling pl req tr)
      then show ?thesis using step Answer t ended [of s t] by (auto simp: job_asked_def split: if_splits)
    qed (use step Answer t in \<open>auto split: if_splits\<close>)
  next
    case (Cancel t)
    then show ?thesis using step ended [of _ t Gone] by (auto simp: job_asked_def split: if_splits job.splits)
  qed (use noclose in simp)
qed

lemma run_ids:
  assumes "fl_run w p is as s = Some s'" and "Close \<notin> set as" and "fl_keyed w p is s"
    and "(fl_moves w p is)\<^sup>*\<^sup>* s0 s" "fl_begins s0" and "ids_given w p is g s"
  shows "ids_given w p is g s'"
  using assms
proof (induction "as" arbitrary: s)
  case (Cons a "as")
  then obtain s1 where s1: "fl_step w p is a s = Some s1" "fl_run w p is as s1 = Some s'" by (auto split: option.splits)
  then have mv: "fl_moves w p is s s1" by (auto simp: fl_moves_def)
  have reach: "(fl_moves w p is)\<^sup>*\<^sup>* s0 s1" using Cons.prems(4) mv by (rule rtranclp.rtrancl_into_rtrancl)
  have "fl_keyed w p is s1" "ids_given w p is g s1"
    using step_keyed [OF s1(1) _ Cons.prems(3)] step_ids [OF s1(1) _ Cons.prems(3) _ Cons.prems(6)] Cons.prems(2)
      session_lock.always_wf [OF Cons.prems(4,5)] session_lock.view_ok [OF Cons.prems(4,5)] by auto
  then show ?case using Cons.IH [OF s1(2) _ _ reach Cons.prems(5)] Cons.prems(2) by auto
qed simp

lemma start_ids: "ids_given w p is g (fl_start g n)"
  by (simp add: ids_given_def fl_start_def job_asked_def)

lemmas ids_from_start = run_ids [OF _ _ start_keyed rtranclp.rtrancl_refl start_wf(2) start_ids]

section \<open>One handshake at a time, one session for all\<close>

text \<open>
  C14: whatever the order in which invocations run, wait and are cancelled, at most one handshake is
  under way for a session, and only while the session is unknown.
\<close>

theorem handshakes_exclusive:
  assumes "fl_run w p is as (fl_start g n) = Some s" and "Close \<notin> set as"
    and "t < n" "fl_jobs s ! t = Opening m pl req tr"
    and "u < n" "fl_jobs s ! u = Opening m' pl' req' tr'" and "pp_key pl' = pp_key pl"
  shows "t = u \<and> map_of (g_proxy_sessions (fl_gw s)) (pp_key pl) = None"
proof -
  note len = start_length [OF assms(1)]
  have key: "fl_keyed w p is s" using run_from_start [OF assms(1,2)] by simp
  have "job_ok w p (is ! t) s (fl_jobs s ! t)" "job_ok w p (is ! u) s (fl_jobs s ! u)"
    using key assms(3,5) len by (auto simp: fl_keyed_def)
  then have same: "m' = m" "map_of (sessions s) (pp_key pl) = None" using assms(4,6,7) by simp_all
  have "t = u"
    by (rule session_lock.one_holder [OF run_moves [OF assms(1)] start_wf(2), of m])
      (use assms len same in \<open>auto simp: lock_view_def tasks_where_def\<close>)
  with same show ?thesis by simp
qed

text \<open>A remote that gives out a session, two calls of the same user, and two schedules of them.\<close>

definition mcp_world :: world where
  "mcp_world = sample_world
     \<lparr>w_http := (\<lambda>_. Response \<lparr>rs_status = 200, rs_headers = [(''mcp-session-id'', ''s1'')], rs_text = []\<rparr>)\<rparr>"

definition two_calls :: "tool_invocation list" where
  "two_calls = [proxy_inv, other_inv]"

definition is_opening :: "job \<Rightarrow> bool" where
  "is_opening j = (case j of Opening n pl req tr \<Rightarrow> True | _ \<Rightarrow> False)"

definition is_calling :: "job \<Rightarrow> bool" where
  "is_calling j = (case j of Calling pl req tr \<Rightarrow> True | _ \<Rightarrow> False)"

lemma opening_then_queued:
  "fl_run mcp_world sample_proxy two_calls [Start 0, Start 1] (fl_start sample_gw 2) \<noteq> None"
  "is_opening (fl_jobs (the (fl_run mcp_world sample_proxy two_calls [Start 0, Start 1] (fl_start sample_gw 2))) ! 0)"
  by code_simp+

lemma calling_after_answer:
  "fl_run mcp_world sample_proxy two_calls [Start 0, Start 1, Answer 0, Wake 1] (fl_start sample_gw 2) \<noteq> None"
  "is_calling (fl_jobs (the (fl_run mcp_world sample_proxy two_calls [Start 0, Start 1, Answer 0, Wake 1] (fl_start sample_gw 2))) ! 1)"
  "\<not> skips (two_calls ! 1)"
  by code_simp+

definition waiting_floor :: floor where
  "waiting_floor = the (fl_run mcp_world sample_proxy two_calls [Start 0, Start 1] (fl_start sample_gw 2))"

definition calling_floor :: floor where
  "calling_floor = the (fl_run mcp_world sample_proxy two_calls [Start 0, Start 1, Answer 0, Wake 1] (fl_start sample_gw 2))"

lemma waiting_floor: "fl_run mcp_world sample_proxy two_calls [Start 0, Start 1] (fl_start sample_gw 2) = Some waiting_floor"
  unfolding waiting_floor_def by (rule option.collapse [symmetric]) (rule opening_then_queued(1))

lemma calling_floor:
  "fl_run mcp_world sample_proxy two_calls [Start 0, Start 1, Answer 0, Wake 1] (fl_start sample_gw 2) = Some calling_floor"
  unfolding calling_floor_def by (rule option.collapse [symmetric]) (rule calling_after_answer(1))

lemma handshakes_exclusive_witness:
  "\<exists>m pl req tr. fl_jobs waiting_floor ! 0 = Opening m pl req tr \<and>
    map_of (g_proxy_sessions (fl_gw waiting_floor)) (pp_key pl) = None"
proof -
  have "is_opening (fl_jobs waiting_floor ! 0)" unfolding waiting_floor_def by (rule opening_then_queued(2))
  then obtain m pl req tr where job: "fl_jobs waiting_floor ! 0 = Opening m pl req tr"
    by (auto simp: is_opening_def split: job.splits)
  from handshakes_exclusive [OF waiting_floor _ _ job _ job] job show ?thesis by auto
qed

text \<open>
  C15: a call that needs a session carries one id, which was the session's at the start or is the
  \<open>mcp-session-id\<close> header of the answer to a handshake that an invocation of the same session sent; the
  session keeps that id, for all later calls, as long as the adapter is not closed.
\<close>

theorem calls_share_session:
  assumes "fl_run w p is as (fl_start g n) = Some s" and "Close \<notin> set as"
    and "t < n" "fl_jobs s ! t = Calling pl req tr" and "\<not> skips (is ! t)"
    and "fl_run w p is bs s = Some s'" and "Close \<notin> set bs"
  shows "\<exists>sid. hr_headers req = session_headers sid (pp_headers pl) \<and>
    (map_of (g_proxy_sessions g) (pp_key pl) = Some sid \<or> handshake_gave w p is s (pp_key pl) sid) \<and>
    map_of (g_proxy_sessions (fl_gw s')) (pp_key pl) = Some sid"
proof -
  have key: "fl_keyed w p is s" using run_from_start [OF assms(1,2)] by simp
  then have "job_ok w p (is ! t) s (fl_jobs s ! t)" using assms(3) start_length [OF assms(1)] by (simp add: fl_keyed_def)
  with assms(4,5) obtain sid where sid: "map_of (sessions s) (pp_key pl) = Some sid"
    "hr_headers req = session_headers sid (pp_headers pl)" by auto
  have "sessions_kept s s'"
    using run_keyed [OF assms(6,7) key run_moves [OF assms(1)] start_wf(2)] by simp
  moreover have "ids_given w p is g s" by (rule ids_from_start [OF assms(1,2)])
  ultimately show ?thesis using sid unfolding sessions_kept_def ids_given_def by blast
qed

lemma calls_share_session_witness:
  "\<exists>pl req tr sid. fl_jobs calling_floor ! 1 = Calling pl req tr \<and> hr_headers req = session_headers sid (pp_headers pl) \<and>
    handshake_gave mcp_world sample_proxy two_calls calling_floor (pp_key pl) sid"
proof -
  have "is_calling (fl_jobs calling_floor ! 1)" unfolding calling_floor_def by (rule calling_after_answer(2))
  then obtain pl req tr where job: "fl_jobs calling_floor ! 1 = Calling pl req tr"
    by (auto simp: is_calling_def split: job.splits)
  have "g_proxy_sessions sample_gw = []" by (simp add: sample_gw_def)
  with calls_share_session [OF calling_floor _ _ job calling_after_answer(3), of "[]" calling_floor] job
  show ?thesis by auto
qed

section \<open>Every invocation ends\<close>

fun steps_left :: "job \<Rightarrow> nat" where
  "steps_left Fresh = 4"
| "steps_left (Queued n pl) = 3"
| "steps_left (Opening n pl req tr) = 2"
| "steps_left (Calling pl req tr) = 1"
| "steps_left _ = 0"

definition left_of :: "floor \<Rightarrow> nat" where
  "left_of s = sum_list (map steps_left (fl_jobs s))"

text \<open>A step moves one task forward and leaves the others where they are.\<close>

definition forward :: "nat \<Rightarrow> floor \<Rightarrow> floor \<Rightarrow> bool" where
  "forward t s s' \<longleftrightarrow> (\<exists>j. fl_jobs s' = (fl_jobs s)[t := j] \<and> steps_left j < steps_left (fl_jobs s ! t))"

lemma forward_job: "fl_jobs s1 = fl_jobs s \<Longrightarrow> steps_left j < steps_left (fl_jobs s ! t) \<Longrightarrow> forward t s (set_job t j s1)"
  by (auto simp: forward_def)

lemma forward_call: "fl_jobs s1 = fl_jobs s \<Longrightarrow> 1 < steps_left (fl_jobs s ! t) \<Longrightarrow> forward t s (begin_call i t pl s1)"
  by (auto simp: begin_call_def Let_def intro: forward_job)

lemma forward_enter:
  "fl_jobs s1 = fl_jobs s \<Longrightarrow> 2 < steps_left (fl_jobs s ! t) \<Longrightarrow> forward t s (enter_section w p i t n pl s1)"
  by (auto simp: enter_section_def new_uuid_def Let_def intro!: forward_call forward_job)

lemma step_forward:
  assumes "fl_step w p is a s = Some s'" and "a \<noteq> Close"
  shows "\<exists>t < length (fl_jobs s). forward t s s'"
  using assms
  by (cases a)
    (auto simp: begin_task_def opened_def intro!: exI forward_job forward_call forward_enter dest: lock_for_jobs
      split: if_splits job.splits option.splits sum.splits prod.splits)

lemma forward_left: "forward t s s' \<Longrightarrow> t < length (fl_jobs s) \<Longrightarrow> left_of s' < left_of s"
  using elem_le_sum_list [of t "map steps_left (fl_jobs s)"]
  by (auto simp: forward_def left_of_def map_update sum_list_update)

lemma run_left:
  "fl_run w p is as s = Some s' \<Longrightarrow> length (filter (\<lambda>a. a \<noteq> Close) as) + left_of s' \<le> left_of s"
proof (induction "as" arbitrary: s)
  case (Cons a "as")
  then obtain s1 where s1: "fl_step w p is a s = Some s1" "fl_run w p is as s1 = Some s'" by (auto split: option.splits)
  have "left_of s1 = left_of s" if "a = Close" using s1(1) that by (auto simp: left_of_def)
  moreover have "left_of s1 < left_of s" if "a \<noteq> Close" using step_forward [OF s1(1) that] forward_left by blast
  ultimately show ?case using Cons.IH [OF s1(2)] by auto
qed simp

definition settled :: "job \<Rightarrow> bool" where
  "settled j \<longleftrightarrow> j = Gone \<or> (\<exists>r. j = Over r)"

lemma waiting_can_go_on:
  assumes "(fl_moves w p is)\<^sup>*\<^sup>* s0 s" "fl_begins s0" and len: "length (fl_jobs s) = length is"
    and t: "t < length is" "fl_jobs s ! t = Queued m pl"
  shows "\<exists>u. fl_step w p is (Wake u) s \<noteq> None \<or> fl_step w p is (Answer u) s \<noteq> None"
proof -
  have view: "lock_view m s = (lk_at m s, tasks_where (opens m) s, tasks_where (queues m) s)" by (simp add: lock_view_def)
  have "t \<in> tasks_where (queues m) s" using t len by (simp add: tasks_where_def)
  from session_lock.waiter_progress [OF assms(1,2) view this]
  show ?thesis
  proof (elim disjE exE conjE)
    fix u assume "u \<in> tasks_where (opens m) s"
    then have "fl_step w p is (Answer u) s \<noteq> None"
      using len by (cases "fl_jobs s ! u") (auto simp: tasks_where_def)
    then show ?thesis by blast
  next
    fix u l assume u: "u \<in> tasks_where (queues m) s" "awaken u (lk_at m s) = Some l"
    have "m < length (fl_heap s)"
      using job_lock_bound [OF session_lock.always_wf [OF assms(1,2)]] t len by simp
    with u have "fl_step w p is (Wake u) s \<noteq> None"
      using len by (cases "fl_jobs s ! u") (auto simp: tasks_where_def lk_at_def)
    then show ?thesis by blast
  qed
qed

text \<open>
  C16: every schedule of n invocations takes at most 4 n steps, and when none of them can go on (start,
  take a lock, get its answer) all have a result or were cancelled: nobody waits for a lock for ever,
  also when a task was cancelled or the adapter closed in between.
\<close>

theorem invocations_settle:
  assumes "fl_run w p is as (fl_start g (length is)) = Some s"
  shows "length (filter (\<lambda>a. a \<noteq> Close) as) \<le> 4 * length is \<and>
    ((\<forall>t. fl_step w p is (Start t) s = None \<and> fl_step w p is (Wake t) s = None \<and> fl_step w p is (Answer t) s = None)
      \<longrightarrow> (\<forall>j \<in> set (fl_jobs s). settled j))"
proof (intro conjI impI ballI)
  have "left_of (fl_start g (length is)) = 4 * length is"
    by (simp add: left_of_def fl_start_def sum_list_replicate)
  then show "length (filter (\<lambda>a. a \<noteq> Close) as) \<le> 4 * length is" using run_left [OF assms] by simp
next
  fix j
  have len: "length (fl_jobs s) = length is" by (rule start_length [OF assms])
  assume stuck: "\<forall>t. fl_step w p is (Start t) s = None \<and> fl_step w p is (Wake t) s = None \<and> fl_step w p is (Answer t) s = None"
  assume "j \<in> set (fl_jobs s)"
  then obtain t where t: "t < length is" "fl_jobs s ! t = j" using len by (metis in_set_conv_nth)
  show "settled j"
    using t stuck len waiting_can_go_on [OF run_moves [OF assms] start_wf(2) len t(1)]
    by (cases j) (auto simp: settled_def dest: spec [of _ t])
qed

lemma invocations_settle_witness:
  "length [Start 0, Start 1, Answer 0, Wake 1] \<le> 4 * length two_calls"
proof -
  have two: "length two_calls = 2" by (simp add: two_calls_def)
  have "fl_run mcp_world sample_proxy two_calls [Start 0, Start 1, Answer 0, Wake 1] (fl_start sample_gw (length two_calls)) =
      Some calling_floor"
    unfolding two by (rule calling_floor)
  moreover have "filter (\<lambda>a. a \<noteq> Close) [Start 0, Start 1, Answer 0, Wake 1] = [Start 0, Start 1, Answer 0, Wake 1]" by simp
  ultimately show ?thesis using invocations_settle by metis
qed

text \<open>
  Closing while a handshake is under way forgets its lock, so that the next invocation starts a second
  handshake: without close this cannot happen.
\<close>

lemma close_forgets_locks:
  "\<exists>s. fl_run mcp_world sample_proxy two_calls [Start 0, Close, Start 1] (fl_start sample_gw 2) = Some s \<and>
    is_opening (fl_jobs s ! 0) \<and> is_opening (fl_jobs s ! 1)"
proof -
  let ?r = "fl_run mcp_world sample_proxy two_calls [Start 0, Close, Start 1] (fl_start sample_gw 2)"
  have r: "?r \<noteq> None" "is_opening (fl_jobs (the ?r) ! 0)" "is_opening (fl_jobs (the ?r) ! 1)" by code_simp+
  from r(1) obtain s where s: "?r = Some s" by (auto simp del: fl_run.simps)
  with r(2,3) show ?thesis unfolding s option.sel by blast
qed

section \<open>An invocation that runs alone\<close>

text \<open>The invocations one after the other, as McpProxy has them.\<close>

fun invoke_all :: "world \<Rightarrow> mcp_proxy \<Rightarrow> tool_invocation list \<Rightarrow> gw \<Rightarrow> tool_result res list \<times> gw" where
  "invoke_all w p [] g = ([], g)"
| "invoke_all w p (i # is) g =
     (case proxy_invoke w p i g of (r, g) \<Rightarrow> (case invoke_all w p is g of (rs, g) \<Rightarrow> (r # rs, g)))"

lemma proxy_post_outcome:
  "proxy_post w req g = (post_outcome req (w_http w (g_trace g @ [EvHttp req])), emit (EvHttp req) g)"
  by (simp add: proxy_post_def post_outcome_def http_request_def Let_def split: http_outcome.splits)

text \<open>No task is under way.\<close>

definition idle :: "floor \<Rightarrow> bool" where
  "idle s \<longleftrightarrow> fl_wf s \<and> (\<forall>l \<in> set (fl_heap s). l = new_lock)"

lemma call_alone:
  assumes t: "t < length is" "t < length (fl_jobs s)"
  shows "fl_run w p is [Answer t] (begin_call (is ! t) t pl s) =
    Some (set_job t (Over (fst (proxy_call w (is ! t) pl (fl_gw s)))) (s\<lparr>fl_gw := snd (proxy_call w (is ! t) pl (fl_gw s))\<rparr>))"
  using t
  by (simp add: begin_call_def proxy_call_def proxy_post_outcome finish_call_def Let_def set_job_def bindE_def andThen_def split: sum.splits)

lemma run_wf: "fl_run w p is as s = Some s' \<Longrightarrow> fl_wf s \<Longrightarrow> fl_wf s'"
  by (induction "as" arbitrary: s) (auto dest: fl_step_wf split: option.splits)

lemma release_lock_gw: "release_lock n (s\<lparr>fl_gw := g\<rparr>) = (release_lock n s)\<lparr>fl_gw := g\<rparr>"
  by (simp add: release_lock_def set_lock_def)

text \<open>The handshake of a task that finds its lock free.\<close>

lemma handshake_alone:
  assumes t: "t < length is" "t < length (fl_jobs s)" and n: "n < length (fl_heap s)" and l: "fl_heap s ! n = new_lock"
    and unknown: "map_of (sessions s) (pp_key pl) = None"
  obtains s2 where
    "fl_run w p is [Answer t] (enter_section w p (is ! t) t n pl (set_lock n (new_lock\<lparr>lk_locked := True\<rparr>) s)) =
      Some (case ensure_initialized w p (pp_url pl) (pp_key pl) (pp_headers pl) (pp_timeout pl) (asked_version (is ! t)) (fl_gw s) of
          (Inl e, g) \<Rightarrow> set_job t (Over (Inl e)) s2
        | (Inr u, g) \<Rightarrow> begin_call (is ! t) t pl s2)"
    "fl_gw s2 = snd (ensure_initialized w p (pp_url pl) (pp_key pl) (pp_headers pl) (pp_timeout pl) (asked_version (is ! t)) (fl_gw s))"
    "\<exists>j. fl_jobs s2 = (fl_jobs s)[t := j]" "fl_heap s2 = fl_heap s"
proof -
  let ?uid = "w_uuid w (g_trace (emit EvUuid (fl_gw s)))"
  define req where "req = rpc_request (pp_url pl) (init_rpc p ?uid (asked_version (is ! t))) (pp_headers pl) (pp_timeout pl)"
  define g where "g = emit (EvHttp req) (emit EvUuid (fl_gw s))"
  define s1 where "s1 = set_job t (Opening n pl req (g_trace g)) ((set_lock n (new_lock\<lparr>lk_locked := True\<rparr>) s)\<lparr>fl_gw := g\<rparr>)"
  have enter: "enter_section w p (is ! t) t n pl (set_lock n (new_lock\<lparr>lk_locked := True\<rparr>) s) = s1"
    using unknown by (simp add: enter_section_def new_uuid_def s1_def req_def g_def Let_def)
  have run: "fl_run w p is [Answer t] s1 = Some (opened w (is ! t) t n pl req (g_trace g) s1)"
    using t by (simp add: s1_def)
  let ?out = "bindE (post_outcome req (w_http w (g_trace g))) (\<lambda>r. bindE (decode_response r) (\<lambda>_. Inr r))"
  have ens: "ensure_initialized w p (pp_url pl) (pp_key pl) (pp_headers pl) (pp_timeout pl) (asked_version (is ! t)) (fl_gw s) =
      (case ?out of
         Inl e \<Rightarrow> (Inl e, g)
       | Inr r \<Rightarrow> (Inr (), g\<lparr>g_proxy_sessions := AList.update (pp_key pl) (session_id_of r) (g_proxy_sessions g)\<rparr>))"
    using unknown
    by (simp add: ensure_initialized_def new_uuid_def Let_def proxy_post_outcome req_def g_def andThen_def bindE_def split: sum.splits)
  have heap: "fl_heap (release_lock n s1) = fl_heap s"
    using n l list_update_id [of "fl_heap s" n]
    by (simp add: s1_def release_lock_def set_lock_def set_job_def release_def new_lock_def)
  show thesis
  proof (cases ?out)
    case (Inl e)
    show thesis
      by (rule that [of "release_lock n s1"])
        (use Inl ens heap t in \<open>auto simp: enter run opened_def s1_def\<close>)
  next
    case (Inr r)
    show thesis
      by (rule that [of "release_lock n (s1\<lparr>fl_gw := (fl_gw s1)\<lparr>g_proxy_sessions :=
               AList.update (pp_key pl) (session_id_of r) (g_proxy_sessions (fl_gw s1))\<rparr>\<rparr>)"])
        (use Inr ens heap t in \<open>auto simp: enter run opened_def s1_def release_lock_gw\<close>)
  qed
qed

lemma invocation_alone:
  assumes idle: "idle s" and t: "t < length is" "t < length (fl_jobs s)" "fl_jobs s ! t = Fresh"
    and inv: "proxy_invoke w p (is ! t) (fl_gw s) = (r, g)"
  obtains "as" s' where "fl_run w p is as s = Some s'" "Close \<notin> set as"
    "fl_jobs s' = (fl_jobs s)[t := Over r]" "fl_gw s' = g" "idle s'"
proof -
  have wf: "fl_wf s" and free: "\<And>l. l \<in> set (fl_heap s) \<Longrightarrow> l = new_lock" using idle by (simp_all add: idle_def)
  note result = that
  have thesis if "fl_run w p is as s = Some s'" "Close \<notin> set as" "fl_jobs s' = (fl_jobs s)[t := Over r]" "fl_gw s' = g"
    "\<forall>l \<in> set (fl_heap s'). l = new_lock" for "as" s'
    using result [OF that(1-4)] run_wf [OF that(1) wf] that(5) by (simp add: idle_def)
  note finish = this
  show thesis
  proof (cases "proxy_prepare w p (is ! t)")
    case (Inl e)
    show thesis
      by (rule finish [of "[Start t]" "set_job t (Over (Inl e)) s"])
        (use Inl inv t free in \<open>auto simp: begin_task_def proxy_invoke_def\<close>)
  next
    case (Inr pl)
    show thesis
    proof (cases "skips (is ! t) \<or> map_of (sessions s) (pp_key pl) \<noteq> None")
      case True
      then have "proxy_call w (is ! t) pl (fl_gw s) = (r, g)"
        using inv Inr by (auto simp: proxy_invoke_def skips_def ensure_initialized_def andThen_def split: if_splits)
      moreover have "fl_run w p is [Start t, Answer t] s = fl_run w p is [Answer t] (begin_call (is ! t) t pl s)"
        using True t Inr by (simp add: begin_task_def)
      ultimately show thesis
        using t free by (intro finish [of "[Start t, Answer t]" "set_job t (Over r) (s\<lparr>fl_gw := g\<rparr>)"])
          (auto simp: call_alone simp del: fl_run.simps)
    next
      case False
      obtain n s1 where lf: "lock_for (pp_key pl) s = (n, s1)" by fastforce
      note l1 = lock_for_ok [OF lf wf]
      have free1: "l = new_lock" if "l \<in> set (fl_heap s1)" for l
        using that lf free by (auto simp: lock_for_def split: option.splits)
      have at: "fl_heap s1 ! n = new_lock" using free1 l1(2) by simp
      have t1: "t < length (fl_jobs s1)" "map_of (sessions s1) (pp_key pl) = None" using t False l1(4,5) by simp_all
      have beg: "begin_task w p (is ! t) t s =
          enter_section w p (is ! t) t n pl (set_lock n (new_lock\<lparr>lk_locked := True\<rparr>) s1)"
        using Inr False lf at by (simp add: begin_task_def acquire_def) (simp add: new_lock_def)
      let ?ens = "ensure_initialized w p (pp_url pl) (pp_key pl) (pp_headers pl) (pp_timeout pl) (asked_version (is ! t)) (fl_gw s)"
      obtain s2 where run: "fl_run w p is [Answer t] (begin_task w p (is ! t) t s) =
          Some (case ?ens of (Inl e, g) \<Rightarrow> set_job t (Over (Inl e)) s2 | (Inr u, g) \<Rightarrow> begin_call (is ! t) t pl s2)"
        and gw: "fl_gw s2 = snd ?ens" and jobs: "\<exists>j. fl_jobs s2 = (fl_jobs s1)[t := j]" and heap: "fl_heap s2 = fl_heap s1"
        using handshake_alone [OF t(1) t1(1) l1(2) at t1(2), of w p] unfolding beg l1(5) by metis
      have step: "fl_run w p is (Start t # as) s = fl_run w p is as (begin_task w p (is ! t) t s)" for "as"
        using t by simp
      have invoke: "proxy_invoke w p (is ! t) (fl_gw s) =
          andThen ?ens (\<lambda>_ g. proxy_call w (is ! t) pl g)"
        using Inr False by (simp add: proxy_invoke_def skips_def asked_version_def)
      obtain e2 g2 where ens: "?ens = (e2, g2)" by fastforce
      show thesis
      proof (cases e2)
        case (Inl e)
        show thesis
          by (rule finish [of "[Start t, Answer t]" "set_job t (Over (Inl e)) s2"])
            (use run ens Inl inv invoke gw jobs heap free1 l1(4) in \<open>auto simp: step simp del: fl_run.simps\<close>)
      next
        case (Inr u)
        have t2: "t < length (fl_jobs s2)" using jobs t1(1) by auto
        have "fl_run w p is [Start t, Answer t, Answer t] s = fl_run w p is [Answer t] (begin_call (is ! t) t pl s2)"
          using run_append [of w p "is" "[Answer t]" "[Answer t]"] run ens Inr by (simp add: step del: fl_run.simps)
        moreover have "proxy_call w (is ! t) pl g2 = (r, g)" using invoke inv ens Inr by simp
        ultimately show thesis
          using jobs heap free1 l1(4) gw ens
          by (intro finish [of "[Start t, Answer t, Answer t]" "set_job t (Over r) (s2\<lparr>fl_gw := g\<rparr>)"])
            (auto simp: call_alone [OF t(1) t2] simp del: fl_run.simps)
      qed
    qed
  qed
qed

text \<open>
  C17: invocations that run one after the other, each to its end, return and leave behind exactly what
  the model of McpProxy says: there is a schedule of the tasks with the results of \<open>invoke_all\<close>.
\<close>

theorem tasks_refine_invoke:
  "\<exists>as s. fl_run w p is as (fl_start g (length is)) = Some s \<and>
    fl_jobs s = map Over (fst (invoke_all w p is g)) \<and> fl_gw s = snd (invoke_all w p is g)"
proof -
  have "\<exists>as s. fl_run w p (past @ is) as s0 = Some s \<and> fl_jobs s = js @ map Over (fst (invoke_all w p is (fl_gw s0))) \<and>
      fl_gw s = snd (invoke_all w p is (fl_gw s0))"
    if "idle s0" "fl_jobs s0 = js @ replicate (length is) Fresh" "length js = length past" for past js s0
    using that
  proof (induction "is" arbitrary: past js s0)
    case Nil
    then show ?case by (intro exI [of _ "[]"]) simp
  next
    case (Cons i "is")
    let ?is = "past @ i # is"
    obtain r g where inv: "proxy_invoke w p i (fl_gw s0) = (r, g)" by fastforce
    have t: "length past < length ?is" "length past < length (fl_jobs s0)" "fl_jobs s0 ! length past = Fresh"
      "?is ! length past = i"
      using Cons.prems by (simp_all add: nth_append)
    obtain "as" s1
      where r1: "fl_run w p ?is as s0 = Some s1" "fl_jobs s1 = (fl_jobs s0)[length past := Over r]" "fl_gw s1 = g" "idle s1"
      using invocation_alone [OF Cons.prems(1) t(1-3), of w p r g] inv unfolding t(4) by metis
    have "fl_jobs s1 = (js @ [Over r]) @ replicate (length is) Fresh"
      using r1(2) Cons.prems(2,3) by (simp add: list_update_append)
    with Cons.IH [of s1 "js @ [Over r]" "past @ [i]"] r1(4) Cons.prems(3) obtain bs s
      where "fl_run w p ?is bs s1 = Some s" "fl_jobs s = (js @ [Over r]) @ map Over (fst (invoke_all w p is g))"
        "fl_gw s = snd (invoke_all w p is g)"
      using r1(3) by auto
    then show ?case using r1(1) inv by (intro exI [of _ "as @ bs"]) (simp add: run_append split: prod.split)
  qed
  from this [of "fl_start g (length is)" "[]" "[]"] show ?thesis
    using start_wf by (simp add: idle_def fl_start_def)
qed

end
