(* ===== verification/Registry.thy ===== *)
theory Registry
  imports GwState
begin

text \<open>
  \<open>app/registry/repo.py\<close>, \<open>cache.py\<close> and \<open>service.py\<close>: the query for the enabled tools, the
  in-memory snapshot with its lifetime and its subscribers, and the listing and lookup filtered by
  principal. The specification is \<open>granted\<close>, read off the grant tables; the locale
  \<open>tool_catalog\<close> is the interface the MCP handler uses.
\<close>

section \<open>Query\<close>

text \<open>
  \<open>fetch_all_enabled_tools\<close>: the enabled rows by name in the database's collation, each with its
  grants.
\<close>

definition fetch_all_enabled_tools :: "world \<Rightarrow> db \<Rightarrow> tool_row list" where
  "fetch_all_enabled_tools w d = sort_key (\<lambda>t. w_collate w (t_name t)) (filter t_enabled (db_tools d))"

definition grant_keys :: "grant_row list \<Rightarrow> int \<Rightarrow> string set" where
  "grant_keys grants tid = gr_key ` set (filter (\<lambda>r. gr_tool r = tid) grants)"

text \<open>\<open>ToolView.from_model\<close>.\<close>

definition from_model :: "db \<Rightarrow> tool_row \<Rightarrow> tool_view" where
  "from_model d t =
     \<lparr>v_id = t_id t, v_name = t_name t, v_display_name = t_display_name t,
      v_description = t_description t, v_category = t_category t, v_dispatcher = t_dispatcher t,
      v_config = dict_or (t_config t), v_auth_mode = t_auth_mode t, v_secret_env_name = t_secret_env_name t,
      v_auth_header = t_auth_header t, v_auth_prefix = t_auth_prefix t,
      v_input_schema = dict_or (t_input_schema t),
      v_output_schema = (case t_output_schema t of None \<Rightarrow> None
                         | Some sch \<Rightarrow> if sch \<noteq> [] then Some sch else None),
      v_roles = grant_keys (db_role_grants d) (t_id t),
      v_customer_codes = grant_keys (db_customer_grants d) (t_id t)\<rparr>"

text \<open>\<open>ToolRegistry._load\<close>: one session, one statement (with its eager loads).\<close>

definition registry_load :: "world \<Rightarrow> gw \<Rightarrow> tool_row list res \<times> gw" where
  "registry_load w g =
     andThen (db_call w ''SELECT tools'' g) (\<lambda>_ g. (Inr (fetch_all_enabled_tools w (g_db g)), g))"

section \<open>Cache\<close>

definition tool_cache_init :: "rat \<Rightarrow> tool_cache" where
  "tool_cache_init ttl =
     \<lparr>tc_ttl = ttl, tc_tools = [], tc_by_name = [], tc_loaded_at = 0, tc_subscribers = [],
      tc_next_queue = 0\<rparr>"

text \<open>An empty snapshot is stale without a look at the clock.\<close>

definition is_fresh :: "world \<Rightarrow> gw \<Rightarrow> bool \<times> gw" where
  "is_fresh w g =
     (if tc_tools (g_cache g) \<noteq> []
      then (case read_clock w g of (now, g) \<Rightarrow>
              (now - tc_loaded_at (g_cache g) < tc_ttl (g_cache g), g))
      else (False, g))"

definition snapshot :: "gw \<Rightarrow> tool_view list" where
  "snapshot g = tc_tools (g_cache g)"

definition cache_get :: "gw \<Rightarrow> string \<Rightarrow> tool_view option" where
  "cache_get g name = map_of (tc_by_name (g_cache g)) name"

definition install :: "tool_view list \<Rightarrow> rat \<Rightarrow> gw \<Rightarrow> gw" where
  "install views now g =
     g\<lparr>g_cache := (g_cache g)\<lparr>tc_tools := views,
                              tc_by_name := dict_update [] (map (\<lambda>v. (v_name v, v)) views),
                              tc_loaded_at := now\<rparr>\<rparr>"

text \<open>\<open>_load\<close>: an exception of the loader leaves the snapshot as it was.\<close>

definition cache_load :: "world \<Rightarrow> gw \<Rightarrow> unit res \<times> gw" where
  "cache_load w g =
     andThen (registry_load w g) (\<lambda>rows g.
       let views = map (from_model (g_db g)) rows
       in (case read_clock w g of (now, g) \<Rightarrow> (Inr (), install views now g)))"

text \<open>\<open>ensure_fresh\<close> looks again once it holds the lock.\<close>

definition ensure_fresh :: "world \<Rightarrow> gw \<Rightarrow> unit res \<times> gw" where
  "ensure_fresh w g =
     (case is_fresh w g of (fresh, g) \<Rightarrow>
        if fresh then (Inr (), g)
        else (case is_fresh w g of (fresh, g) \<Rightarrow>
                if fresh then (Inr (), g) else cache_load w g))"

text \<open>A queue holds at most 16 events; \<open>put_nowait\<close> on a full one drops the event.\<close>

definition put_nowait :: "string \<Rightarrow> string list \<Rightarrow> string list" where
  "put_nowait e q = (if length q \<ge> 16 then q else q @ [e])"

definition broadcast :: "string \<Rightarrow> gw \<Rightarrow> gw" where
  "broadcast e g =
     g\<lparr>g_cache := (g_cache g)\<lparr>tc_subscribers :=
          map (\<lambda>(n, q). (n, put_nowait e q)) (tc_subscribers (g_cache g))\<rparr>\<rparr>"

definition invalidate_and_reload :: "world \<Rightarrow> gw \<Rightarrow> unit res \<times> gw" where
  "invalidate_and_reload w g =
     (let g = g\<lparr>g_cache := (g_cache g)\<lparr>tc_loaded_at := 0\<rparr>\<rparr>
      in andThen (cache_load w g) (\<lambda>_ g. (Inr (), broadcast ''tools_changed'' g)))"

definition subscribe :: "gw \<Rightarrow> nat \<times> gw" where
  "subscribe g =
     (let c = g_cache g; n = tc_next_queue c
      in (n, g\<lparr>g_cache := c\<lparr>tc_subscribers := tc_subscribers c @ [(n, [])], tc_next_queue := Suc n\<rparr>\<rparr>))"

text \<open>Removing a queue that is not registered does nothing.\<close>

definition unsubscribe :: "nat \<Rightarrow> gw \<Rightarrow> gw" where
  "unsubscribe n g =
     g\<lparr>g_cache := (g_cache g)\<lparr>tc_subscribers := filter (\<lambda>s. fst s \<noteq> n) (tc_subscribers (g_cache g))\<rparr>\<rparr>"

text \<open>A subscriber takes the oldest event, if there is one.\<close>

definition take_event :: "nat \<Rightarrow> gw \<Rightarrow> string option \<times> gw" where
  "take_event n g =
     (case map_of (tc_subscribers (g_cache g)) n of
        Some (e # q) \<Rightarrow> (Some e, g\<lparr>g_cache := (g_cache g)\<lparr>tc_subscribers :=
             map (\<lambda>s. if fst s = n then (n, q) else s) (tc_subscribers (g_cache g))\<rparr>\<rparr>)
      | _ \<Rightarrow> (None, g))"

section \<open>Registry\<close>

definition refresh_if_stale :: "world \<Rightarrow> gw \<Rightarrow> unit res \<times> gw" where
  "refresh_if_stale w g = ensure_fresh w g"

definition force_refresh :: "world \<Rightarrow> gw \<Rightarrow> unit res \<times> gw" where
  "force_refresh w g = invalidate_and_reload w g"

text \<open>\<open>customer_code or None\<close>.\<close>

definition code_of :: "string option \<Rightarrow> string option" where
  "code_of c = (if some_text c then c else None)"

definition visible :: "string list \<Rightarrow> string option \<Rightarrow> tool_view \<Rightarrow> bool" where
  "visible role_list code t =
     ((role_list \<noteq> [] \<and> v_roles t \<inter> set role_list \<noteq> {}) \<or>
      (case code of None \<Rightarrow> False | Some c \<Rightarrow> c \<in> v_customer_codes t))"

definition list_for_principal ::
  "world \<Rightarrow> string list \<Rightarrow> string option \<Rightarrow> gw \<Rightarrow> tool_view list res \<times> gw" where
  "list_for_principal w role_list customer g =
     andThen (refresh_if_stale w g) (\<lambda>_ g.
       let code = code_of customer
       in if role_list = [] \<and> code = None then (Inr [], g)
          else (Inr (filter (visible role_list code) (snapshot g)), g))"

definition find_authorized_for_principal ::
  "world \<Rightarrow> string \<Rightarrow> string list \<Rightarrow> string option \<Rightarrow> gw \<Rightarrow> tool_view option res \<times> gw" where
  "find_authorized_for_principal w name role_list customer g =
     andThen (refresh_if_stale w g) (\<lambda>_ g.
       let code = code_of customer
       in if role_list = [] \<and> code = None then (Inr None, g)
          else (case cache_get g name of
                  None \<Rightarrow> (Inr None, g)
                | Some view \<Rightarrow>
                    (let role_hit = role_list \<noteq> [] \<and> v_roles view \<inter> set role_list \<noteq> {};
                         code_hit = (case code of None \<Rightarrow> False | Some c \<Rightarrow> c \<in> v_customer_codes view)
                     in if \<not> (role_hit \<or> code_hit) then (Inr None, g) else (Inr (Some view), g))))"

definition list_for_roles :: "world \<Rightarrow> string list \<Rightarrow> gw \<Rightarrow> tool_view list res \<times> gw" where
  "list_for_roles w role_list g = list_for_principal w role_list None g"

definition find_authorized :: "world \<Rightarrow> string \<Rightarrow> string list \<Rightarrow> gw \<Rightarrow> tool_view option res \<times> gw" where
  "find_authorized w name role_list g = find_authorized_for_principal w name role_list None g"

section \<open>Well-formed databases and snapshots\<close>

text \<open>The key constraints of the tables.\<close>

definition wf_db :: "db \<Rightarrow> bool" where
  "wf_db d \<longleftrightarrow>
     distinct (map t_id (db_tools d)) \<and> distinct (map t_name (db_tools d)) \<and>
     distinct (map (\<lambda>r. (gr_tool r, gr_key r)) (db_role_grants d)) \<and>
     distinct (map (\<lambda>r. (gr_tool r, gr_key r)) (db_customer_grants d))"

definition snapshot_of :: "world \<Rightarrow> db \<Rightarrow> tool_cache \<Rightarrow> bool" where
  "snapshot_of w d c \<longleftrightarrow>
     tc_tools c = map (from_model d) (fetch_all_enabled_tools w d) \<and>
     tc_by_name c = dict_update [] (map (\<lambda>v. (v_name v, v)) (tc_tools c))"

definition wf_cache :: "tool_cache \<Rightarrow> bool" where
  "wf_cache c \<longleftrightarrow>
     distinct (map v_name (tc_tools c)) \<and>
     tc_by_name c = dict_update [] (map (\<lambda>v. (v_name v, v)) (tc_tools c))"

definition wf_subscribers :: "tool_cache \<Rightarrow> bool" where
  "wf_subscribers c \<longleftrightarrow>
     distinct (map fst (tc_subscribers c)) \<and>
     (\<forall>s \<in> set (tc_subscribers c). fst s < tc_next_queue c \<and> length (snd s) \<le> 16)"

lemma names_distinct: "wf_db d \<Longrightarrow> distinct (map t_name (fetch_all_enabled_tools w d))"
proof -
  assume "wf_db d"
  then have "distinct (map t_name (filter t_enabled (db_tools d)))"
    by (simp add: wf_db_def distinct_map_filter)
  then show ?thesis
    by (simp add: fetch_all_enabled_tools_def distinct_map)
qed

lemma v_name_from_model [simp]: "v_name (from_model d t) = t_name t"
  by (simp add: from_model_def)

lemma snapshot_wf: "wf_db d \<Longrightarrow> snapshot_of w d c \<Longrightarrow> wf_cache c"
  using names_distinct [of d w] by (simp add: snapshot_of_def wf_cache_def comp_def)

lemma cache_get_iff:
  assumes "wf_cache (g_cache g)"
  shows "cache_get g name = Some v \<longleftrightarrow> v \<in> set (snapshot g) \<and> v_name v = name"
proof -
  let ?kvs = "map (\<lambda>v. (v_name v, v)) (tc_tools (g_cache g))"
  have keys: "map fst ?kvs = map v_name (tc_tools (g_cache g))" by simp
  have wf: "wf_dict ?kvs" unfolding wf_dict_def keys using assms by (simp add: wf_cache_def)
  then have "cache_get g name = map_of ?kvs name"
    using assms map_of_dict_update [OF wf, of "[]" name]
    by (simp add: cache_get_def wf_cache_def split: option.splits)
  moreover from wf have "map_of ?kvs name = Some v \<longleftrightarrow> (name, v) \<in> set ?kvs"
    by (intro map_of_eq_Some_iff) (simp add: wf_dict_def)
  ultimately show ?thesis by (auto simp: snapshot_def)
qed

section \<open>Refreshing\<close>

lemma install_simps [simp]:
  "g_trace (install vs n g) = g_trace g" "g_db (install vs n g) = g_db g"
  "g_jwks (install vs n g) = g_jwks g" "g_proxy_sessions (install vs n g) = g_proxy_sessions g"
  "tc_tools (g_cache (install vs n g)) = vs" "tc_loaded_at (g_cache (install vs n g)) = n"
  "tc_subscribers (g_cache (install vs n g)) = tc_subscribers (g_cache g)"
  "tc_next_queue (g_cache (install vs n g)) = tc_next_queue (g_cache g)"
  "tc_ttl (g_cache (install vs n g)) = tc_ttl (g_cache g)"
  "tc_by_name (g_cache (install vs n g)) = dict_update [] (map (\<lambda>v. (v_name v, v)) vs)"
  by (simp_all add: install_def)

text \<open>What a refresh never changes.\<close>

definition registry_frame :: "gw \<Rightarrow> gw \<Rightarrow> bool" where
  "registry_frame g g' \<longleftrightarrow>
     quiet g g' \<and> g_db g' = g_db g \<and> g_jwks g' = g_jwks g \<and> g_proxy_sessions g' = g_proxy_sessions g \<and>
     tc_subscribers (g_cache g') = tc_subscribers (g_cache g) \<and>
     tc_next_queue (g_cache g') = tc_next_queue (g_cache g) \<and> tc_ttl (g_cache g') = tc_ttl (g_cache g)"

lemma registry_frame_refl [simp]: "registry_frame g g"
  by (simp add: registry_frame_def)

lemma registry_frame_trans: "registry_frame g g' \<Longrightarrow> registry_frame g' g'' \<Longrightarrow> registry_frame g g''"
  by (auto simp: registry_frame_def intro: quiet_trans)

lemma is_fresh_frame: "registry_frame g (snd (is_fresh w g)) \<and> g_cache (snd (is_fresh w g)) = g_cache g"
  by (simp add: is_fresh_def registry_frame_def read_clock_def Let_def)

lemma cache_load_cases:
  obtains (failed) e g' where "cache_load w g = (Inl e, g')" "registry_frame g g'" "g_cache g' = g_cache g"
  | (loaded) g' where "cache_load w g = (Inr (), g')" "registry_frame g g'" "snapshot_of w (g_db g) (g_cache g')"
proof (cases "w_db_error w (g_trace g @ [EvDb ''SELECT tools''])")
  case None
  let ?g1 = "emit EvClock (emit (EvDb ''SELECT tools'') g)"
  have q: "quiet g ?g1"
    by (rule quiet_trans [of _ "emit (EvDb ''SELECT tools'') g"]) simp_all
  show ?thesis
    by (rule loaded [of "install (map (from_model (g_db g)) (fetch_all_enabled_tools w (g_db g)))
             (w_clock w (g_trace ?g1)) ?g1"])
       (use None q in \<open>simp_all add: cache_load_def registry_load_def db_call_def read_clock_def Let_def
          registry_frame_def snapshot_of_def quiet_def extends_def new_events_def\<close>)
next
  case (Some ct)
  then show ?thesis
    by (intro failed [of "PyError (fst ct) (snd ct)" "emit (EvDb ''SELECT tools'') g"])
       (simp_all add: cache_load_def registry_load_def db_call_def Let_def registry_frame_def
          split: prod.splits)
qed

text \<open>
  A refresh fails and leaves the snapshot, finds it fresh and leaves it, or loads the present
  tables.
\<close>

lemma refresh_cases:
  obtains (failed) e g' where "refresh_if_stale w g = (Inl e, g')" "registry_frame g g'" "g_cache g' = g_cache g"
  | (kept) g' now where "refresh_if_stale w g = (Inr (), g')" "registry_frame g g'" "g_cache g' = g_cache g"
      "now = w_clock w (g_trace g')" "now - tc_loaded_at (g_cache g) < tc_ttl (g_cache g)"
      "tc_tools (g_cache g) \<noteq> []"
  | (loaded) g' where "refresh_if_stale w g = (Inr (), g')" "registry_frame g g'"
      "snapshot_of w (g_db g) (g_cache g')"
proof -
  obtain f1 g1 where 1: "is_fresh w g = (f1, g1)" by fastforce
  obtain f2 g2 where 2: "is_fresh w g1 = (f2, g2)" by fastforce
  have fr1: "registry_frame g g1" "g_cache g1 = g_cache g" using is_fresh_frame [of g w] 1 by simp_all
  have fr2: "registry_frame g1 g2" "g_cache g2 = g_cache g1" using is_fresh_frame [of g1 w] 2 by simp_all
  have young: "w_clock w (g_trace g') - tc_loaded_at (g_cache g) < tc_ttl (g_cache g) \<and> tc_tools (g_cache g) \<noteq> []"
    if "is_fresh w g0 = (True, g')" "g_cache g0 = g_cache g" for g0 g'
    using that by (auto simp: is_fresh_def read_clock_def Let_def split: if_splits)
  note defs = refresh_if_stale_def ensure_fresh_def
  consider "f1" | "\<not> f1" "f2" | "\<not> f1" "\<not> f2" by blast
  then show ?thesis
  proof cases
    case 1
    show ?thesis
      by (rule kept [of g1 "w_clock w (g_trace g1)"]) (use 1 \<open>is_fresh w g = (f1, g1)\<close> fr1 young [of g g1] in \<open>simp_all add: defs\<close>)
  next
    case 2
    show ?thesis
      by (rule kept [of g2 "w_clock w (g_trace g2)"])
         (use 2 \<open>is_fresh w g = (f1, g1)\<close> \<open>is_fresh w g1 = (f2, g2)\<close> fr1 fr2 young [of g1 g2]
            registry_frame_trans [of g g1 g2] in \<open>simp_all add: defs\<close>)
  next
    case 3
    with 1 2 have eq: "refresh_if_stale w g = cache_load w g2" by (simp add: defs)
    have fr: "registry_frame g g2" using fr1 fr2 registry_frame_trans by blast
    then have db: "g_db g2 = g_db g" by (simp add: registry_frame_def)
    have cache: "g_cache g2 = g_cache g" using fr1 fr2 by simp
    show ?thesis
    proof (cases rule: cache_load_cases [of w g2])
      case load: (failed e g')
      show ?thesis
        by (rule failed [of e g']) (use load eq cache registry_frame_trans [OF fr] in simp_all)
    next
      case load: (loaded g')
      show ?thesis
        by (rule loaded [of g']) (use load eq db registry_frame_trans [OF fr] in simp_all)
    qed
  qed
qed

lemma refresh_frame: "registry_frame g (snd (refresh_if_stale w g))"
  by (cases rule: refresh_cases [of w g]) simp_all

lemma refresh_wf_cache:
  "wf_cache (g_cache g) \<Longrightarrow> wf_db (g_db g) \<Longrightarrow> wf_cache (g_cache (snd (refresh_if_stale w g)))"
  by (cases rule: refresh_cases [of w g]) (auto dest: snapshot_wf)

section \<open>Specification: the grant tables\<close>

definition granted :: "db \<Rightarrow> string list \<Rightarrow> string option \<Rightarrow> tool_row \<Rightarrow> bool" where
  "granted d role_list customer t \<longleftrightarrow>
     (\<exists>r \<in> set (db_role_grants d). gr_tool r = t_id t \<and> gr_key r \<in> set role_list) \<or>
     (case customer of
        None \<Rightarrow> False
      | Some code \<Rightarrow> code \<noteq> [] \<and> (\<exists>r \<in> set (db_customer_grants d). gr_tool r = t_id t \<and> gr_key r = code))"

text \<open>The tools a principal is to see, with the database \<open>d\<close>.\<close>

definition listing :: "world \<Rightarrow> db \<Rightarrow> string list \<Rightarrow> string option \<Rightarrow> tool_view list" where
  "listing w d role_list customer =
     map (from_model d) (filter (granted d role_list customer) (fetch_all_enabled_tools w d))"

lemma visible_granted: "visible role_list (code_of customer) (from_model d t) \<longleftrightarrow> granted d role_list customer t"
proof -
  have "v_roles (from_model d t) \<inter> set role_list \<noteq> {} \<longleftrightarrow>
      (\<exists>r \<in> set (db_role_grants d). gr_tool r = t_id t \<and> gr_key r \<in> set role_list)"
    by (auto simp: from_model_def grant_keys_def)
  moreover have "(case code_of customer of None \<Rightarrow> False | Some c \<Rightarrow> c \<in> v_customer_codes (from_model d t)) \<longleftrightarrow>
      (case customer of
        None \<Rightarrow> False
      | Some code \<Rightarrow> code \<noteq> [] \<and> (\<exists>r \<in> set (db_customer_grants d). gr_tool r = t_id t \<and> gr_key r = code))"
    by (auto simp: from_model_def grant_keys_def code_of_def split: option.splits)
  ultimately show ?thesis
    by (auto simp: visible_def granted_def)
qed

lemma visible_nobody: "\<not> visible [] None t"
  by (simp add: visible_def)

lemma list_eq:
  "list_for_principal w rs c g =
     andThen (refresh_if_stale w g) (\<lambda>_ g. (Inr (filter (visible rs (code_of c)) (snapshot g)), g))"
  unfolding list_for_principal_def Let_def
  by (cases "rs = [] \<and> code_of c = None") (auto simp: visible_nobody)

lemma find_eq:
  "find_authorized_for_principal w name rs c g =
     andThen (refresh_if_stale w g) (\<lambda>_ g.
       (Inr (case cache_get g name of None \<Rightarrow> None
             | Some v \<Rightarrow> if visible rs (code_of c) v then Some v else None), g))"
proof -
  have body: "(let code = code_of c
       in if rs = [] \<and> code = None then (Inr None, g)
          else (case cache_get g name of
                  None \<Rightarrow> (Inr None, g)
                | Some view \<Rightarrow>
                    (let role_hit = rs \<noteq> [] \<and> v_roles view \<inter> set rs \<noteq> {};
                         code_hit = (case code of None \<Rightarrow> False | Some k \<Rightarrow> k \<in> v_customer_codes view)
                     in if \<not> (role_hit \<or> code_hit) then (Inr None, g) else (Inr (Some view), g)))) =
     (Inr (case cache_get g name of None \<Rightarrow> None
             | Some v \<Rightarrow> if visible rs (code_of c) v then Some v else None), g)" for g
    by (cases "rs = [] \<and> code_of c = None") (auto simp: Let_def visible_def split: option.split)
  show ?thesis
    unfolding find_authorized_for_principal_def body ..
qed

lemma snapshot_listing:
  "snapshot_of w d (g_cache g) \<Longrightarrow> filter (visible rs (code_of c)) (snapshot g) = listing w d rs c"
  by (simp add: snapshot_of_def snapshot_def listing_def filter_map comp_def visible_granted)

text \<open>A lookup that succeeds answers from the snapshot's tables or from the present ones.\<close>

lemma find_from_tables:
  assumes snap: "snapshot_of w d0 (g_cache g)" and wf: "wf_db d0" "wf_db (g_db g)"
    and find: "find_authorized_for_principal w name rs c g = (Inr res, g')"
  obtains d where "d \<in> {d0, g_db g}" "snapshot_of w d (g_cache g')" "registry_frame g g'"
    "\<And>v. res = Some v \<longleftrightarrow> v \<in> set (listing w d rs c) \<and> v_name v = name"
proof -
  have answer: "res = Some v \<longleftrightarrow> v \<in> set (listing w d rs c) \<and> v_name v = name"
    if d: "snapshot_of w d (g_cache g')" "wf_db d" and ok: "refresh_if_stale w g = (Inr (), g')" for d v
  proof -
    have "wf_cache (g_cache g')" by (rule snapshot_wf [OF d(2,1)])
    from cache_get_iff [OF this, of name] have get: "cache_get g' name = Some u \<longleftrightarrow> u \<in> set (snapshot g') \<and> v_name u = name" for u .
    have res: "res = (case cache_get g' name of None \<Rightarrow> None
             | Some v \<Rightarrow> if visible rs (code_of c) v then Some v else None)"
      using find ok by (simp add: find_eq)
    have "res = Some v \<longleftrightarrow> cache_get g' name = Some v \<and> visible rs (code_of c) v"
      unfolding res by (cases "cache_get g' name") auto
    also have "\<dots> \<longleftrightarrow> v \<in> set (filter (visible rs (code_of c)) (snapshot g')) \<and> v_name v = name"
      by (auto simp: get)
    finally show ?thesis unfolding snapshot_listing [OF d(1)] .
  qed
  have state: "fst (refresh_if_stale w g) = Inr () \<and> snd (refresh_if_stale w g) = g'"
    using find by (cases "refresh_if_stale w g"; cases "fst (refresh_if_stale w g)") (auto simp: find_eq)
  show thesis
  proof (cases rule: refresh_cases [of w g])
    case (kept g1 now)
    then have "g1 = g'" using state by simp
    with kept snap answer [of d0] wf show thesis by (intro that [of d0]) auto
  next
    case (loaded g1)
    then have "g1 = g'" using state by simp
    with loaded answer [of "g_db g"] wf show thesis by (intro that [of "g_db g"]) auto
  qed (use state in auto)
qed

lemma in_listing:
  "v \<in> set (listing w d rs c) \<longleftrightarrow>
     (\<exists>t \<in> set (db_tools d). t_enabled t \<and> granted d rs c t \<and> v = from_model d t)"
  by (auto simp: listing_def fetch_all_enabled_tools_def)

section \<open>The catalogue interface\<close>

text \<open>
  What the MCP handler relies on: \<open>list_for\<close> and \<open>find_for\<close> take the same view of the catalogue,
  names in it are unique, and both keep the provider's invariant.
\<close>

locale tool_catalog =
  fixes list_for :: "string list \<Rightarrow> string option \<Rightarrow> 's \<Rightarrow> 'v list res \<times> 's"
    and find_for :: "string \<Rightarrow> string list \<Rightarrow> string option \<Rightarrow> 's \<Rightarrow> 'v option res \<times> 's"
    and name_of :: "'v \<Rightarrow> string"
    and inv :: "'s \<Rightarrow> bool"
  assumes list_inv: "inv g \<Longrightarrow> inv (snd (list_for rs c g))"
    and same_state: "snd (find_for n rs c g) = snd (list_for rs c g)"
    and same_error: "fst (find_for n rs c g) = Inl e \<longleftrightarrow> fst (list_for rs c g) = Inl e"
    and names_unique: "inv g \<Longrightarrow> fst (list_for rs c g) = Inr vs \<Longrightarrow> distinct (map name_of vs)"
    and found: "inv g \<Longrightarrow> fst (list_for rs c g) = Inr vs \<Longrightarrow>
      fst (find_for n rs c g) = Inr (Some v) \<longleftrightarrow> v \<in> set vs \<and> name_of v = n"
    and nobody: "c = None \<or> c = Some [] \<Longrightarrow> fst (list_for [] c g) = Inr vs \<Longrightarrow> vs = []"
begin

lemma find_inv: "inv g \<Longrightarrow> inv (snd (find_for n rs c g))"
  using list_inv same_state by metis

text \<open>A name is refused exactly when the listing does not show it.\<close>

lemma refused_iff:
  assumes "inv g" and listed: "fst (list_for rs c g) = Inr vs"
  shows "fst (find_for n rs c g) = Inr None \<longleftrightarrow> n \<notin> name_of ` set vs"
proof -
  obtain r where r: "fst (find_for n rs c g) = Inr r"
    using same_error [of n rs c g] listed by (cases "fst (find_for n rs c g)") auto
  show ?thesis
  proof (cases r)
    case None
    then have "\<not> (v \<in> set vs \<and> name_of v = n)" for v
      using found [OF assms, of n v] r by simp
    with None r show ?thesis by auto
  next
    case (Some v)
    then show ?thesis using found [OF assms, of n v] r by auto
  qed
qed

lemma found_unique:
  assumes "inv g" and "fst (find_for n rs c g) = Inr (Some v)" and "fst (find_for n rs c g) = Inr (Some v')"
  shows "v = v'"
  using assms by simp

end

definition catalog_inv :: "gw \<Rightarrow> bool" where
  "catalog_inv g \<longleftrightarrow> wf_cache (g_cache g) \<and> wf_db (g_db g)"

lemma refresh_catalog_inv: "catalog_inv g \<Longrightarrow> catalog_inv (snd (refresh_if_stale w g))"
  using refresh_wf_cache [of g w] refresh_frame [of g w]
  by (simp add: catalog_inv_def registry_frame_def)

lemma list_cases:
  obtains (failed) e g' where "refresh_if_stale w g = (Inl e, g')" "list_for_principal w rs c g = (Inl e, g')"
    "find_authorized_for_principal w n rs c g = (Inl e, g')"
  | (answered) g' where "refresh_if_stale w g = (Inr (), g')"
    "list_for_principal w rs c g = (Inr (filter (visible rs (code_of c)) (snapshot g')), g')"
    "find_authorized_for_principal w n rs c g =
       (Inr (case cache_get g' n of None \<Rightarrow> None
             | Some v \<Rightarrow> if visible rs (code_of c) v then Some v else None), g')"
proof (cases "refresh_if_stale w g")
  case (Pair r g')
  show thesis
  proof (cases r)
    case (Inl e)
    show thesis by (rule failed [of e g']) (simp_all add: list_eq find_eq Pair Inl)
  next
    case (Inr u)
    show thesis by (rule answered [of g']) (simp_all add: list_eq find_eq Pair Inr)
  qed
qed

lemma list_found:
  assumes "catalog_inv g" "fst (list_for_principal w rs c g) = Inr vs"
  shows "fst (find_authorized_for_principal w n rs c g) = Inr (Some v) \<longleftrightarrow> v \<in> set vs \<and> v_name v = n"
  using list_cases [of w g rs c n]
proof cases
  case (answered g')
  then have "wf_cache (g_cache g')"
    using refresh_catalog_inv [OF assms(1), of w] by (simp add: catalog_inv_def)
  from cache_get_iff [OF this, of n v]
  have get: "cache_get g' n = Some v \<longleftrightarrow> v \<in> set (snapshot g') \<and> v_name v = n" .
  have "(case cache_get g' n of None \<Rightarrow> None | Some v \<Rightarrow> if visible rs (code_of c) v then Some v else None)
      = Some v \<longleftrightarrow> cache_get g' n = Some v \<and> visible rs (code_of c) v"
    by (cases "cache_get g' n") auto
  with get show ?thesis
    using answered(2,3) assms(2) by auto
qed (use assms in simp)

lemma list_names:
  assumes "catalog_inv g" "fst (list_for_principal w rs c g) = Inr vs"
  shows "distinct (map v_name vs)"
  using list_cases [of w g rs c "[]"]
proof cases
  case (answered g')
  then have "wf_cache (g_cache g')"
    using refresh_catalog_inv [OF assms(1), of w] by (simp add: catalog_inv_def)
  then show ?thesis
    using answered assms(2) by (auto simp: wf_cache_def snapshot_def intro: distinct_map_filter)
qed (use assms in simp)

interpretation catalog: tool_catalog "list_for_principal w" "find_authorized_for_principal w" v_name catalog_inv
  for w
proof
  show "catalog_inv (snd (list_for_principal w rs c g))" if "catalog_inv g" for rs c g
    using refresh_catalog_inv [OF that, of w] by (cases rule: list_cases [of w g rs c "[]"]) simp_all
  show "snd (find_authorized_for_principal w n rs c g) = snd (list_for_principal w rs c g)" for n rs c g
    by (cases rule: list_cases [of w g rs c n]) simp_all
  show "fst (find_authorized_for_principal w n rs c g) = Inl e \<longleftrightarrow> fst (list_for_principal w rs c g) = Inl e"
    for n rs c g e
    by (cases rule: list_cases [of w g rs c n]) simp_all
  show "vs = []" if "c = None \<or> c = Some []" "fst (list_for_principal w [] c g) = Inr vs" for c g vs
    using that by (cases rule: list_cases [of w g "[]" c "[]"]) (auto simp: code_of_def visible_def)
qed (fact list_names list_found)+

section \<open>Subscribers\<close>

lemma wf_subscribers_subscribe: "wf_subscribers (g_cache g) \<Longrightarrow> wf_subscribers (g_cache (snd (subscribe g)))"
  by (auto simp: wf_subscribers_def subscribe_def Let_def)

lemma wf_subscribers_unsubscribe: "wf_subscribers (g_cache g) \<Longrightarrow> wf_subscribers (g_cache (unsubscribe n g))"
  by (auto simp: wf_subscribers_def unsubscribe_def distinct_map_filter)

lemma put_nowait_bound: "length q \<le> 16 \<Longrightarrow> length (put_nowait e q) \<le> 16"
  by (simp add: put_nowait_def)

lemma wf_subscribers_broadcast:
  assumes "wf_subscribers (g_cache g)"
  shows "wf_subscribers (g_cache (broadcast e g))"
proof -
  have names: "fst \<circ> (\<lambda>(n, q). (n, put_nowait e q)) = fst" by auto
  have "distinct (map fst (tc_subscribers (g_cache (broadcast e g))))"
    using assms by (simp add: broadcast_def wf_subscribers_def names)
  moreover have "\<forall>s \<in> set (tc_subscribers (g_cache (broadcast e g))).
      fst s < tc_next_queue (g_cache (broadcast e g)) \<and> length (snd s) \<le> 16"
    using assms by (fastforce simp: broadcast_def wf_subscribers_def put_nowait_bound)
  ultimately show ?thesis by (simp add: wf_subscribers_def)
qed

lemma take_event_names:
  "map fst (map (\<lambda>s. if fst s = n then (n, q) else s) qs) = map fst qs"
  by (induction qs) auto

lemma wf_subscribers_take_event:
  assumes wf: "wf_subscribers (g_cache g)"
  shows "wf_subscribers (g_cache (snd (take_event n g)))"
proof (cases "\<exists>e q. map_of (tc_subscribers (g_cache g)) n = Some (e # q)")
  case True
  then obtain e q where q: "map_of (tc_subscribers (g_cache g)) n = Some (e # q)" by blast
  then have mem: "(n, e # q) \<in> set (tc_subscribers (g_cache g))" by (rule map_of_SomeD)
  have bound: "n < tc_next_queue (g_cache g)" "length q \<le> 16"
    using wf mem by (fastforce simp: wf_subscribers_def)+
  let ?qs = "map (\<lambda>s. if fst s = n then (n, q) else s) (tc_subscribers (g_cache g))"
  have "distinct (map fst ?qs)"
    using wf unfolding take_event_names by (simp add: wf_subscribers_def)
  moreover have "\<forall>s \<in> set ?qs. fst s < tc_next_queue (g_cache g) \<and> length (snd s) \<le> 16"
    using wf bound by (auto simp: wf_subscribers_def)
  ultimately show ?thesis
    using q by (simp add: take_event_def wf_subscribers_def)
next
  case False
  then have "take_event n g = (None, g)"
    by (auto simp: take_event_def split: option.splits list.splits)
  with wf show ?thesis by simp
qed

lemma force_refresh_cases:
  obtains (failed) e g' where "force_refresh w g = (Inl e, g')" "tc_tools (g_cache g') = tc_tools (g_cache g)"
      "tc_subscribers (g_cache g') = tc_subscribers (g_cache g)" "tc_next_queue (g_cache g') = tc_next_queue (g_cache g)"
      "g_db g' = g_db g"
  | (loaded) g1 where "force_refresh w g = (Inr (), broadcast ''tools_changed'' g1)"
      "snapshot_of w (g_db g) (g_cache g1)" "tc_subscribers (g_cache g1) = tc_subscribers (g_cache g)"
      "tc_next_queue (g_cache g1) = tc_next_queue (g_cache g)" "g_db g1 = g_db g"
proof -
  let ?g0 = "g\<lparr>g_cache := (g_cache g)\<lparr>tc_loaded_at := 0\<rparr>\<rparr>"
  show ?thesis
  proof (cases rule: cache_load_cases [of w ?g0])
    case load: (failed e g')
    show ?thesis
      by (rule failed [of e g']) (use load in \<open>simp_all add: force_refresh_def invalidate_and_reload_def Let_def registry_frame_def\<close>)
  next
    case load: (loaded g1)
    show ?thesis
      by (rule loaded [of g1]) (use load in \<open>simp_all add: force_refresh_def invalidate_and_reload_def Let_def registry_frame_def\<close>)
  qed
qed

lemma wf_subscribers_force_refresh:
  assumes "wf_subscribers (g_cache g)"
  shows "wf_subscribers (g_cache (snd (force_refresh w g)))"
proof (cases rule: force_refresh_cases [of w g])
  case (failed e g')
  with assms show ?thesis by (simp add: wf_subscribers_def)
next
  case (loaded g1)
  then have "wf_subscribers (g_cache g1)" using assms by (simp add: wf_subscribers_def)
  with loaded(1) show ?thesis by (simp add: wf_subscribers_broadcast)
qed

lemma wf_cache_force_refresh:
  assumes "wf_cache (g_cache g)" and "wf_db (g_db g)"
  shows "wf_cache (g_cache (snd (force_refresh w g)))"
proof -
  let ?g0 = "g\<lparr>g_cache := (g_cache g)\<lparr>tc_loaded_at := 0\<rparr>\<rparr>"
  have unfold: "snd (force_refresh w g) = (case cache_load w ?g0 of (Inl e, g') \<Rightarrow> g' | (Inr _, g') \<Rightarrow> broadcast ''tools_changed'' g')"
    by (simp add: force_refresh_def invalidate_and_reload_def Let_def andThen_def split: prod.split sum.split)
  show ?thesis
  proof (cases rule: cache_load_cases [of w ?g0])
    case (failed e g')
    then show ?thesis using assms by (simp add: unfold wf_cache_def)
  next
    case (loaded g')
    then have "wf_cache (g_cache g')" using assms snapshot_wf by simp
    then show ?thesis using loaded by (simp add: unfold wf_cache_def broadcast_def)
  qed
qed

text \<open>After a broadcast every subscriber has an event.\<close>

lemma broadcast_event:
  "(fst (take_event n (broadcast e g)) \<noteq> None) = (n \<in> fst ` set (tc_subscribers (g_cache g)))"
proof -
  have "map_of (map (\<lambda>(m, q). (m, put_nowait e q)) qs) n = map_option (put_nowait e) (map_of qs n)"
    for qs :: "(nat \<times> string list) list"
    by (induction qs) auto
  then have "map_of (tc_subscribers (g_cache (broadcast e g))) n =
      map_option (put_nowait e) (map_of (tc_subscribers (g_cache g)) n)"
    by (simp add: broadcast_def)
  moreover have "put_nowait e q \<noteq> []" for q by (auto simp: put_nowait_def)
  ultimately show ?thesis
    using map_of_eq_None_iff [of "tc_subscribers (g_cache g)" n]
    by (cases "map_of (tc_subscribers (g_cache g)) n") (auto simp: take_event_def split: list.splits)
qed

lemma force_refresh_db [simp]: "g_db (snd (force_refresh w g)) = g_db g"
  by (cases rule: force_refresh_cases [of w g]) (simp_all add: broadcast_def)

section \<open>Properties\<close>

text \<open>
  C4: when a listing succeeds, it is exactly the tools granted to the principal, in name order, by
  the present tables, or by the tables the snapshot was loaded from while it is younger than its
  lifetime.
\<close>

theorem registry_lists_grants:
  assumes "snapshot_of w d0 (g_cache g)"
    and "list_for_principal w rs c g = (Inr vs, g')"
  shows "vs = listing w (g_db g) rs c \<or>
    (vs = listing w d0 rs c \<and> w_clock w (g_trace g') - tc_loaded_at (g_cache g) < tc_ttl (g_cache g))"
proof (cases rule: refresh_cases [of w g])
  case (kept g1 now)
  then have eq: "list_for_principal w rs c g = (Inr (listing w d0 rs c), g1)"
    using snapshot_listing [of w d0 g1 rs c] assms(1) by (simp add: list_eq)
  with kept assms(2) show ?thesis by simp
next
  case (loaded g1)
  then show ?thesis
    using snapshot_listing [of w "g_db g" g1 rs c] assms(2) by (simp add: list_eq)
qed (use assms(2) in \<open>simp add: list_eq\<close>)

definition empty_db :: db where
  "empty_db = sample_db\<lparr>db_tools := []\<rparr>"

lemma registry_lists_grants_witness:
  "\<exists>vs g'. snapshot_of sample_world empty_db (g_cache sample_gw) \<and>
     list_for_principal sample_world [] (Some ''CUST-1'') sample_gw = (Inr vs, g') \<and>
     (vs = listing sample_world sample_db [] (Some ''CUST-1'') \<or>
      (vs = listing sample_world empty_db [] (Some ''CUST-1'') \<and>
       w_clock sample_world (g_trace g') - tc_loaded_at (g_cache sample_gw) < tc_ttl (g_cache sample_gw)))"
proof -
  let ?r = "list_for_principal sample_world [] (Some ''CUST-1'') sample_gw"
  have snap: "snapshot_of sample_world empty_db (g_cache sample_gw)" by code_simp
  have "\<not> isl (fst ?r)" by code_simp
  then obtain vs g' where r: "?r = (Inr vs, g')" by (cases ?r; cases "fst ?r") auto
  have db: "g_db sample_gw = sample_db" by (simp add: sample_gw_def)
  from registry_lists_grants [OF snap r] snap r show ?thesis unfolding db by blast
qed

text \<open>
  C11: lookup and listing agree: a call finds a tool exactly when the listing at the same moment
  shows one of that name, and nobody without roles and customer code sees anything.
\<close>

theorem registry_find_agrees:
  assumes "catalog_inv g"
    and "fst (list_for_principal w rs c g) = Inr vs"
  shows "(fst (find_authorized_for_principal w n rs c g) = Inr None \<longleftrightarrow> n \<notin> v_name ` set vs) \<and>
    (\<forall>v. fst (find_authorized_for_principal w n rs c g) = Inr (Some v) \<longleftrightarrow> v \<in> set vs \<and> v_name v = n) \<and>
    (rs = [] \<and> (c = None \<or> c = Some []) \<longrightarrow> vs = [])"
  using catalog.refused_iff [OF assms] catalog.found [OF assms] catalog.nobody [of c w g vs] assms(2)
  by auto

lemma registry_find_agrees_witness:
  "fst (find_authorized_for_principal sample_world ''echo'' [''dev''] None sample_gw) = Inr None \<longleftrightarrow>
     ''echo'' \<notin> v_name ` set (projr (fst (list_for_principal sample_world [''dev''] None sample_gw)))"
proof -
  have inv: "catalog_inv sample_gw" by code_simp
  have "\<not> isl (fst (list_for_principal sample_world [''dev''] None sample_gw))" by code_simp
  then have "fst (list_for_principal sample_world [''dev''] None sample_gw) =
      Inr (projr (fst (list_for_principal sample_world [''dev''] None sample_gw)))"
    by (cases "fst (list_for_principal sample_world [''dev''] None sample_gw)") auto
  from registry_find_agrees [OF inv this, of "''echo''"] show ?thesis by blast
qed

text \<open>
  a forced refresh either loads the tables of that moment and leaves at least one event for
  every subscriber, or fails, keeps the tools it had and notifies nobody; no queue ever holds
  more than 16 events.
\<close>

lemma force_refresh_notifies:
  assumes "wf_subscribers (g_cache g)"
    and "force_refresh w g = (r, g')"
  shows "wf_subscribers (g_cache g') \<and>
    (case r of
       Inr _ \<Rightarrow> snapshot_of w (g_db g) (g_cache g') \<and>
         (\<forall>n. (fst (take_event n g') \<noteq> None) = (n \<in> fst ` set (tc_subscribers (g_cache g))))
     | Inl _ \<Rightarrow> tc_tools (g_cache g') = tc_tools (g_cache g) \<and>
         tc_subscribers (g_cache g') = tc_subscribers (g_cache g))"
proof -
  have wf: "wf_subscribers (g_cache g')"
    using wf_subscribers_force_refresh [OF assms(1), of w] assms(2) by simp
  show ?thesis
  proof (cases rule: force_refresh_cases [of w g])
    case (failed e g1)
    with assms(2) wf show ?thesis by auto
  next
    case (loaded g1)
    then have g': "g' = broadcast ''tools_changed'' g1" and r: "r = Inr ()" using assms(2) by simp_all
    have "(fst (take_event n g') \<noteq> None) = (n \<in> fst ` set (tc_subscribers (g_cache g)))" for n
      unfolding g' broadcast_event loaded(3) ..
    moreover have "snapshot_of w (g_db g) (g_cache g')"
      using loaded(2) by (simp add: g' snapshot_of_def broadcast_def)
    ultimately show ?thesis using wf r by simp
  qed
qed

definition two_subscribers :: gw where
  "two_subscribers = snd (subscribe (snd (subscribe sample_gw)))"

end
