(* ===== verification/CacheTasks.thy ===== *)
theory CacheTasks
  imports Locks Registry
begin

text \<open>
  Refreshes of the registry side by side (\<open>app/registry/cache.py\<close>): lookups that find the snapshot too
  old and reloads after a change, cut at every place where the code awaits, while other sessions
  commit. The query and its two loads of grants are three statements, each of which sees what is
  committed at its own moment.
\<close>

section \<open>Tasks\<close>

text \<open>A task calls \<open>ensure_fresh\<close> or \<open>invalidate_and_reload\<close>.\<close>

datatype want = Ensure | Reload

text \<open>How far a load has come: asked (with the trace then), and what each statement has returned.\<close>

datatype stage =
    Asked "event list"
  | GotTools "tool_row list"
  | GotRoles "tool_row list" "grant_row list"
  | GotAll "tool_row list" "grant_row list" "grant_row list"

datatype refresh_job = Ready | Parked | Loading stage | Ended "unit res" | Stopped

record shop =
  sh_gw :: gw
  sh_lock :: lock
  sh_jobs :: "refresh_job list"

datatype shop_act = Begin nat | Resume nat | Advance nat | Stop nat | Commit db

definition put_job :: "nat \<Rightarrow> refresh_job \<Rightarrow> shop \<Rightarrow> shop" where
  "put_job t j s = s\<lparr>sh_jobs := (sh_jobs s)[t := j]\<rparr>"

text \<open>Leaving the section with a result.\<close>

definition leave_cache :: "nat \<Rightarrow> unit res \<Rightarrow> shop \<Rightarrow> shop" where
  "leave_cache t r s = put_job t (Ended r) (s\<lparr>sh_lock := release (sh_lock s)\<rparr>)"

definition begin_load :: "nat \<Rightarrow> shop \<Rightarrow> shop" where
  "begin_load t s =
     (let g = emit (EvDb ''SELECT tools'') (sh_gw s) in put_job t (Loading (Asked (g_trace g))) (s\<lparr>sh_gw := g\<rparr>))"

text \<open>Inside the lock: \<open>ensure_fresh\<close> looks again, \<open>invalidate_and_reload\<close> marks the snapshot as old.\<close>

definition enter_cache :: "world \<Rightarrow> want \<Rightarrow> nat \<Rightarrow> shop \<Rightarrow> shop" where
  "enter_cache w k t s =
     (case k of
        Ensure \<Rightarrow> (case is_fresh w (sh_gw s) of (fresh, g) \<Rightarrow>
          (if fresh then leave_cache t (Inr ()) (s\<lparr>sh_gw := g\<rparr>) else begin_load t (s\<lparr>sh_gw := g\<rparr>)))
      | Reload \<Rightarrow> begin_load t (s\<lparr>sh_gw := (sh_gw s)\<lparr>g_cache := (g_cache (sh_gw s))\<lparr>tc_loaded_at := 0\<rparr>\<rparr>\<rparr>))"

definition take_lock :: "world \<Rightarrow> want \<Rightarrow> nat \<Rightarrow> shop \<Rightarrow> shop" where
  "take_lock w k t s =
     (case acquire t (sh_lock s) of (got, l) \<Rightarrow>
       (if got then enter_cache w k t (s\<lparr>sh_lock := l\<rparr>) else put_job t Parked (s\<lparr>sh_lock := l\<rparr>)))"

definition begin_refresh :: "world \<Rightarrow> want \<Rightarrow> nat \<Rightarrow> shop \<Rightarrow> shop" where
  "begin_refresh w k t s =
     (case k of
        Ensure \<Rightarrow> (case is_fresh w (sh_gw s) of (fresh, g) \<Rightarrow>
          (if fresh then put_job t (Ended (Inr ())) (s\<lparr>sh_gw := g\<rparr>) else take_lock w k t (s\<lparr>sh_gw := g\<rparr>)))
      | Reload \<Rightarrow> take_lock w k t s)"

text \<open>The next statement of a load, and at its end the new snapshot (and, for a reload, the news of it).\<close>

definition advance_load :: "world \<Rightarrow> want \<Rightarrow> nat \<Rightarrow> stage \<Rightarrow> shop \<Rightarrow> shop" where
  "advance_load w k t st s =
     (case st of
        Asked tr \<Rightarrow> (case w_db_error w tr of
            Some (cls, msg) \<Rightarrow> leave_cache t (Inl (PyError cls msg)) s
          | None \<Rightarrow> put_job t (Loading (GotTools (fetch_all_enabled_tools w (g_db (sh_gw s))))) s)
      | GotTools rows \<Rightarrow> put_job t (Loading (GotRoles rows (db_role_grants (g_db (sh_gw s))))) s
      | GotRoles rows rs \<Rightarrow> put_job t (Loading (GotAll rows rs (db_customer_grants (g_db (sh_gw s))))) s
      | GotAll rows rs cs \<Rightarrow>
          (case read_clock w (sh_gw s) of (now, g) \<Rightarrow>
            (let g = install (map (from_model ((g_db g)\<lparr>db_role_grants := rs, db_customer_grants := cs\<rparr>)) rows) now g
             in leave_cache t (Inr ())
                  (s\<lparr>sh_gw := (case k of Ensure \<Rightarrow> g | Reload \<Rightarrow> broadcast ''tools_changed'' g)\<rparr>))))"

fun shop_step :: "world \<Rightarrow> want list \<Rightarrow> shop_act \<Rightarrow> shop \<Rightarrow> shop option" where
  "shop_step w ks (Begin t) s =
     (if t < length ks \<and> t < length (sh_jobs s) \<and> sh_jobs s ! t = Ready then Some (begin_refresh w (ks ! t) t s) else None)"
| "shop_step w ks (Resume t) s =
     (if t < length ks \<and> t < length (sh_jobs s) \<and> sh_jobs s ! t = Parked
      then map_option (\<lambda>l. enter_cache w (ks ! t) t (s\<lparr>sh_lock := l\<rparr>)) (awaken t (sh_lock s)) else None)"
| "shop_step w ks (Advance t) s =
     (if t < length ks \<and> t < length (sh_jobs s)
      then (case sh_jobs s ! t of Loading st \<Rightarrow> Some (advance_load w (ks ! t) t st s) | _ \<Rightarrow> None) else None)"
| "shop_step w ks (Stop t) s =
     (if t < length (sh_jobs s)
      then (case sh_jobs s ! t of
              Ready \<Rightarrow> Some (put_job t Stopped s)
            | Parked \<Rightarrow> Some (put_job t Stopped (s\<lparr>sh_lock := leave_queue t (sh_lock s)\<rparr>))
            | Loading st \<Rightarrow> Some (put_job t Stopped (s\<lparr>sh_lock := release (sh_lock s)\<rparr>))
            | _ \<Rightarrow> None)
      else None)"
| "shop_step w ks (Commit d) s = Some (s\<lparr>sh_gw := (sh_gw s)\<lparr>g_db := d\<rparr>\<rparr>)"

fun shop_run :: "world \<Rightarrow> want list \<Rightarrow> shop_act list \<Rightarrow> shop \<Rightarrow> shop option" where
  "shop_run w ks [] s = Some s"
| "shop_run w ks (a # as) s = (case shop_step w ks a s of None \<Rightarrow> None | Some s \<Rightarrow> shop_run w ks as s)"

definition shop_start :: "gw \<Rightarrow> nat \<Rightarrow> shop" where
  "shop_start g n = \<lparr>sh_gw = g, sh_lock = new_lock, sh_jobs = replicate n Ready\<rparr>"

section \<open>The lock is kept\<close>

definition is_loading :: "refresh_job \<Rightarrow> bool" where
  "is_loading j \<longleftrightarrow> (\<exists>st. j = Loading st)"

definition refreshers :: "(refresh_job \<Rightarrow> bool) \<Rightarrow> shop \<Rightarrow> nat set" where
  "refreshers P s = {t. t < length (sh_jobs s) \<and> P (sh_jobs s ! t)}"

definition shop_view :: "shop \<Rightarrow> lock \<times> nat set \<times> nat set" where
  "shop_view s = (sh_lock s, refreshers is_loading s, refreshers (\<lambda>j. j = Parked) s)"

lemma is_loading_simps [simp]:
  "is_loading (Loading st)" "\<not> is_loading Ready" "\<not> is_loading Parked" "\<not> is_loading (Ended r)" "\<not> is_loading Stopped"
  by (simp_all add: is_loading_def)

lemma put_job_frame [simp]:
  "sh_gw (put_job t j s) = sh_gw s" "sh_lock (put_job t j s) = sh_lock s" "sh_jobs (put_job t j s) = (sh_jobs s)[t := j]"
  by (simp_all add: put_job_def)

lemma refreshers_frame [simp]:
  "refreshers P (s\<lparr>sh_gw := g\<rparr>) = refreshers P s" "refreshers P (s\<lparr>sh_lock := l\<rparr>) = refreshers P s"
  by (simp_all add: refreshers_def)

lemma refreshers_job:
  "t < length (sh_jobs s) \<Longrightarrow>
     refreshers P (put_job t j s) = (if P j then insert t (refreshers P s) else refreshers P s - {t})"
  by (auto simp: refreshers_def nth_list_update)

lemma not_refresher: "\<not> P (sh_jobs s ! t) \<Longrightarrow> t \<notin> refreshers P s"
  by (simp add: refreshers_def)

lemma is_refresher: "t < length (sh_jobs s) \<Longrightarrow> P (sh_jobs s ! t) \<Longrightarrow> t \<in> refreshers P s"
  by (simp add: refreshers_def)

text \<open>A task in the section holds the lock: it begins to load, or gives the lock back at once.\<close>

lemma enter_cache_view:
  assumes "t < length (sh_jobs s)"
  obtains "shop_view (enter_cache w k t s) =
      (sh_lock s, insert t (refreshers is_loading s), refreshers (\<lambda>j. j = Parked) s - {t})"
  | "shop_view (enter_cache w k t s) =
      (release (sh_lock s), refreshers is_loading s - {t}, refreshers (\<lambda>j. j = Parked) s - {t})"
  using assms
  by (cases k; cases "is_fresh w (sh_gw s)"; cases "fst (is_fresh w (sh_gw s))")
    (auto simp: enter_cache_def begin_load_def leave_cache_def shop_view_def refreshers_job Let_def)

lemma take_lock_moves:
  assumes "t < length (sh_jobs s)" "sh_jobs s ! t = Ready"
  shows "lock_move\<^sup>*\<^sup>* (shop_view s) (shop_view (take_lock w k t s))"
proof -
  have out: "t \<notin> refreshers is_loading s" "t \<notin> refreshers (\<lambda>j. j = Parked) s" using assms(2) by (simp_all add: not_refresher)
  obtain got l where ac: "acquire t (sh_lock s) = (got, l)" by fastforce
  show ?thesis
  proof (cases got)
    case True
    then have eq: "take_lock w k t s = enter_cache w k t (s\<lparr>sh_lock := l\<rparr>)" using ac by (simp add: take_lock_def)
    show ?thesis unfolding eq
      by (rule enter_cache_view [of t "s\<lparr>sh_lock := l\<rparr>" w k])
        (use assms out ac True in \<open>auto simp: shop_view_def intro: entered_and_left one_move [OF enter]\<close>)
  next
    case False
    then show ?thesis using assms(1) out ac
      by (auto simp: take_lock_def shop_view_def refreshers_job intro: one_move [OF queue_up])
  qed
qed

lemma shop_step_moves:
  assumes "shop_step w ks a s = Some s'"
  shows "lock_move\<^sup>*\<^sup>* (shop_view s) (shop_view s')"
proof (cases a)
  case (Begin t)
  with assms have t: "t < length (sh_jobs s)" "sh_jobs s ! t = Ready" and s': "s' = begin_refresh w (ks ! t) t s"
    by (auto split: if_splits)
  have out: "t \<notin> refreshers is_loading s" "t \<notin> refreshers (\<lambda>j. j = Parked) s" using t(2) by (simp_all add: not_refresher)
  have "lock_move\<^sup>*\<^sup>* (shop_view s) (shop_view (take_lock w k t (s\<lparr>sh_gw := g\<rparr>)))" for k g
    using take_lock_moves [of t "s\<lparr>sh_gw := g\<rparr>" w k] t by (simp add: shop_view_def)
  with take_lock_moves [of t s w "ks ! t"] t out show ?thesis
    by (auto simp: s' begin_refresh_def shop_view_def refreshers_job split: want.split prod.split)
next
  case (Resume t)
  with assms obtain l where t: "t < length (sh_jobs s)" "sh_jobs s ! t = Parked" and aw: "awaken t (sh_lock s) = Some l"
    and s': "s' = enter_cache w (ks ! t) t (s\<lparr>sh_lock := l\<rparr>)"
    by (auto split: if_splits)
  have out: "t \<notin> refreshers is_loading s" using t(2) by (simp add: not_refresher)
  show ?thesis unfolding s'
    by (rule enter_cache_view [of t "s\<lparr>sh_lock := l\<rparr>" w "ks ! t"])
      (use t out aw in \<open>auto simp: shop_view_def intro: woken_and_left one_move [OF woken]\<close>)
next
  case (Advance t)
  with assms obtain st where t: "t < length (sh_jobs s)" "sh_jobs s ! t = Loading st"
    and s': "s' = advance_load w (ks ! t) t st s"
    by (auto split: if_splits refresh_job.splits)
  have ins: "t \<in> refreshers is_loading s" "t \<notin> refreshers (\<lambda>j. j = Parked) s"
    using t by (simp_all add: refreshers_def)
  then show ?thesis using t
    by (auto simp: s' advance_load_def leave_cache_def shop_view_def refreshers_job Let_def insert_absorb
        intro: one_move [OF leave] split: stage.split option.split prod.split want.split)
next
  case (Stop t)
  with assms have t: "t < length (sh_jobs s)" by (auto split: if_splits)
  show ?thesis
  proof (cases "sh_jobs s ! t")
    case Parked
    then have "t \<notin> refreshers is_loading s" "t \<in> refreshers (\<lambda>j. j = Parked) s" using t by (simp_all add: refreshers_def)
    then show ?thesis using assms Stop t Parked by (auto simp: shop_view_def refreshers_job intro: one_move [OF dropped])
  next
    case (Loading st)
    then have "t \<in> refreshers is_loading s" "t \<notin> refreshers (\<lambda>j. j = Parked) s" using t by (simp_all add: refreshers_def)
    then show ?thesis using assms Stop t Loading by (auto simp: shop_view_def refreshers_job intro: one_move [OF leave])
  qed (use assms Stop t not_refresher [of is_loading s t] not_refresher [of "\<lambda>j. j = Parked" s t] in
      \<open>auto simp: shop_view_def refreshers_job\<close>)
next
  case (Commit d)
  then show ?thesis using assms by (auto simp: shop_view_def)
qed

definition shop_moves :: "world \<Rightarrow> want list \<Rightarrow> shop \<Rightarrow> shop \<Rightarrow> bool" where
  "shop_moves w ks s s' \<longleftrightarrow> (\<exists>a. shop_step w ks a s = Some s')"

definition shop_begins :: "shop \<Rightarrow> bool" where
  "shop_begins s \<longleftrightarrow> (\<exists>g n. s = shop_start g n)"

interpretation cache_lock: guarded shop_view shop_begins "\<lambda>_. True" "shop_moves w ks" for w ks
proof unfold_locales
  show "shop_view s = (new_lock, {}, {})" if "shop_begins s" for s
    using that by (auto simp: shop_begins_def shop_start_def shop_view_def refreshers_def)
qed (auto simp: shop_moves_def intro: shop_step_moves)

lemma shop_run_moves: "shop_run w ks as s = Some s' \<Longrightarrow> (shop_moves w ks)\<^sup>*\<^sup>* s s'"
proof (induction "as" arbitrary: s)
  case (Cons a "as")
  then obtain s1 where "shop_step w ks a s = Some s1" "shop_run w ks as s1 = Some s'" by (auto split: option.splits)
  moreover from this(1) have "shop_moves w ks s s1" by (auto simp: shop_moves_def)
  ultimately show ?case using Cons.IH converse_rtranclp_into_rtranclp by metis
qed simp

lemma shop_run_append:
  "shop_run w ks (as @ bs) s = (case shop_run w ks as s of None \<Rightarrow> None | Some s' \<Rightarrow> shop_run w ks bs s')"
  by (induction "as" arbitrary: s) (auto split: option.splits)

section \<open>A reload is not lost\<close>

text \<open>Tables that give the same catalogue; rows of the audit log may be added.\<close>

definition same_catalogue :: "db \<Rightarrow> db \<Rightarrow> bool" where
  "same_catalogue d d' \<longleftrightarrow>
     db_tools d' = db_tools d \<and> db_role_grants d' = db_role_grants d \<and> db_customer_grants d' = db_customer_grants d"

fun stage_of :: "world \<Rightarrow> db \<Rightarrow> stage \<Rightarrow> bool" where
  "stage_of w d (Asked tr) \<longleftrightarrow> True"
| "stage_of w d (GotTools rows) \<longleftrightarrow> rows = fetch_all_enabled_tools w d"
| "stage_of w d (GotRoles rows rs) \<longleftrightarrow> rows = fetch_all_enabled_tools w d \<and> rs = db_role_grants d"
| "stage_of w d (GotAll rows rs cs) \<longleftrightarrow>
     rows = fetch_all_enabled_tools w d \<and> rs = db_role_grants d \<and> cs = db_customer_grants d"

lemma from_model_cong:
  "db_role_grants d' = db_role_grants d \<Longrightarrow> db_customer_grants d' = db_customer_grants d \<Longrightarrow> from_model d' = from_model d"
  by (simp add: from_model_def fun_eq_iff)

text \<open>
  What holds of a reload \<open>t\<close> that began when the tables were \<open>d\<close>: from the moment it has the lock every
  load under way reads \<open>d\<close>, and once it has succeeded the snapshot is that of \<open>d\<close>.
\<close>

definition follows :: "world \<Rightarrow> db \<Rightarrow> nat \<Rightarrow> shop \<Rightarrow> bool" where
  "follows w d t s \<longleftrightarrow>
     same_catalogue d (g_db (sh_gw s)) \<and>
     (is_loading (sh_jobs s ! t) \<or> sh_jobs s ! t = Ended (Inr ()) \<longrightarrow>
        (\<forall>u < length (sh_jobs s). \<forall>st. sh_jobs s ! u = Loading st \<longrightarrow> stage_of w d st)) \<and>
     (sh_jobs s ! t = Ended (Inr ()) \<longrightarrow> snapshot_of w d (g_cache (sh_gw s)))"

lemma snapshot_of_loaded [simp]: "snapshot_of w d ((c)\<lparr>tc_loaded_at := x\<rparr>) = snapshot_of w d c"
  by (simp add: snapshot_of_def)

lemma snapshot_of_fresh: "g_cache (snd (is_fresh w g)) = g_cache g" "g_db (snd (is_fresh w g)) = g_db g"
  using is_fresh_frame [of g w] by (simp_all add: registry_frame_def)

lemma snapshot_of_install:
  "same_catalogue d d' \<Longrightarrow>
     snapshot_of w d (g_cache (install (map (from_model (d'\<lparr>db_role_grants := db_role_grants d,
        db_customer_grants := db_customer_grants d\<rparr>)) (fetch_all_enabled_tools w d)) now g))"
  using from_model_cong [of "d'\<lparr>db_role_grants := db_role_grants d, db_customer_grants := db_customer_grants d\<rparr>" d]
  by (simp add: snapshot_of_def)

lemma snapshot_of_broadcast [simp]: "snapshot_of w d (g_cache (broadcast e g)) = snapshot_of w d (g_cache g)" "g_db (broadcast e g) = g_db g"
  by (simp_all add: snapshot_of_def broadcast_def)

text \<open>What a step does to the jobs, the tables and the snapshot.\<close>

definition same_shop :: "world \<Rightarrow> shop \<Rightarrow> shop \<Rightarrow> bool" where
  "same_shop w s s' \<longleftrightarrow>
     sh_jobs s' = sh_jobs s \<and> g_db (sh_gw s') = g_db (sh_gw s) \<and>
     (\<forall>d. snapshot_of w d (g_cache (sh_gw s')) = snapshot_of w d (g_cache (sh_gw s)))"

fun begins_job :: "refresh_job \<Rightarrow> bool" where
  "begins_job (Loading (Asked tr)) \<longleftrightarrow> True"
| "begins_job (Loading st) \<longleftrightarrow> False"
| "begins_job j \<longleftrightarrow> True"

definition moved :: "world \<Rightarrow> want list \<Rightarrow> nat \<Rightarrow> shop \<Rightarrow> shop \<Rightarrow> bool" where
  "moved w ks u s s' \<longleftrightarrow>
     (\<exists>j s1. same_shop w s s1 \<and> s' = put_job u j s1 \<and> begins_job j \<and> (j = Ended (Inr ()) \<longrightarrow> ks ! u = Ensure))"

lemma same_shop_refl [simp, intro]: "same_shop w s s"
  by (simp add: same_shop_def)

lemma same_shop_lock [simp]: "same_shop w s (s1\<lparr>sh_lock := l\<rparr>) = same_shop w s s1"
  by (simp add: same_shop_def)

lemma same_shop_fresh: "is_fresh w (sh_gw s1) = (fresh, g) \<Longrightarrow> same_shop w s s1 \<Longrightarrow> same_shop w s (s1\<lparr>sh_gw := g\<rparr>)"
  using snapshot_of_fresh [of w "sh_gw s1"] by (simp add: same_shop_def)

lemma same_shop_emit [simp]: "same_shop w s (s1\<lparr>sh_gw := emit e (sh_gw s1)\<rparr>) = same_shop w s s1"
  by (simp add: same_shop_def)

lemma same_shop_old:
  "same_shop w s (s1\<lparr>sh_gw := (sh_gw s1)\<lparr>g_cache := (g_cache (sh_gw s1))\<lparr>tc_loaded_at := x\<rparr>\<rparr>\<rparr>) = same_shop w s s1"
  by (simp add: same_shop_def)

lemma moved_job:
  "same_shop w s s1 \<Longrightarrow> begins_job j \<Longrightarrow> j = Ended (Inr ()) \<longrightarrow> ks ! u = Ensure \<Longrightarrow>
     moved w ks u s (put_job u j s1)"
  unfolding moved_def by blast

lemma begin_load_moved: "same_shop w s s1 \<Longrightarrow> moved w ks u s (begin_load u s1)"
  unfolding begin_load_def Let_def by (rule moved_job) simp_all

lemma leave_cache_moved:
  "same_shop w s s1 \<Longrightarrow> r = Inr () \<longrightarrow> ks ! u = Ensure \<Longrightarrow> moved w ks u s (leave_cache u r s1)"
  unfolding leave_cache_def by (rule moved_job) simp_all

lemma enter_cache_moved:
  assumes "same_shop w s s1"
  shows "moved w ks u s (enter_cache w (ks ! u) u s1)"
proof (cases "ks ! u")
  case Ensure
  obtain fresh g where f: "is_fresh w (sh_gw s1) = (fresh, g)" by fastforce
  then show ?thesis using Ensure begin_load_moved leave_cache_moved same_shop_fresh [OF f assms]
    by (simp add: enter_cache_def)
next
  case Reload
  then show ?thesis using begin_load_moved [of w s] assms by (simp add: enter_cache_def same_shop_old)
qed

lemma take_lock_moved: "same_shop w s s1 \<Longrightarrow> moved w ks u s (take_lock w (ks ! u) u s1)"
  by (cases "acquire u (sh_lock s1)") (simp add: take_lock_def enter_cache_moved moved_job)

lemma begin_refresh_moved: "moved w ks u s (begin_refresh w (ks ! u) u s)"
proof (cases "ks ! u")
  case Ensure
  obtain fresh g where f: "is_fresh w (sh_gw s) = (fresh, g)" by fastforce
  from take_lock_moved [OF same_shop_fresh [OF f same_shop_refl], of ks u] same_shop_fresh [OF f same_shop_refl] show ?thesis
    using Ensure f by (simp add: begin_refresh_def moved_job)
next
  case Reload
  then show ?thesis using take_lock_moved [OF same_shop_refl, of w ks u s] by (simp add: begin_refresh_def)
qed

lemma shop_step_cases:
  assumes "shop_step w ks a s = Some s'"
  obtains (moved) u where "u < length (sh_jobs s)" "moved w ks u s s'"
  | (advanced) u st st' where "u < length (sh_jobs s)" "sh_jobs s ! u = Loading st"
      "sh_jobs s' = (sh_jobs s)[u := Loading st']" "sh_gw s' = sh_gw s"
      "\<And>d. stage_of w d st \<Longrightarrow> same_catalogue d (g_db (sh_gw s)) \<Longrightarrow> stage_of w d st'"
  | (installed) u st where "u < length (sh_jobs s)" "sh_jobs s ! u = Loading st"
      "sh_jobs s' = (sh_jobs s)[u := Ended (Inr ())]" "g_db (sh_gw s') = g_db (sh_gw s)"
      "\<And>d. stage_of w d st \<Longrightarrow> same_catalogue d (g_db (sh_gw s)) \<Longrightarrow> snapshot_of w d (g_cache (sh_gw s'))"
  | (commit) d where "a = Commit d" "s' = s\<lparr>sh_gw := (sh_gw s)\<lparr>g_db := d\<rparr>\<rparr>"
proof (cases a)
  case (Begin u)
  show thesis by (rule moved [of u]) (use assms Begin begin_refresh_moved in \<open>auto split: if_splits\<close>)
next
  case (Resume u)
  show thesis by (rule moved [of u]) (use assms Resume enter_cache_moved in \<open>auto split: if_splits\<close>)
next
  case (Stop u)
  show thesis by (rule moved [of u]) (use assms Stop in \<open>auto intro: moved_job split: if_splits refresh_job.splits\<close>)
next
  case (Commit d)
  then show thesis using assms commit by simp
next
  case (Advance u)
  with assms obtain st where u: "u < length (sh_jobs s)" "sh_jobs s ! u = Loading st"
    and s': "s' = advance_load w (ks ! u) u st s"
    by (auto split: if_splits refresh_job.splits)
  show thesis
  proof (cases st)
    case (Asked tr)
    show thesis
    proof (cases "w_db_error w tr")
      case None
      show thesis
        by (rule advanced [OF u, of "GotTools (fetch_all_enabled_tools w (g_db (sh_gw s)))"])
          (auto simp: s' advance_load_def Asked None same_catalogue_def fetch_all_enabled_tools_def)
    next
      case (Some e)
      show thesis
        by (rule moved [OF u(1)]) (cases e; simp add: s' advance_load_def Asked Some leave_cache_moved)
    qed
  next
    case (GotTools rows)
    show thesis
      by (rule advanced [OF u, of "GotRoles rows (db_role_grants (g_db (sh_gw s)))"])
        (auto simp: s' advance_load_def GotTools same_catalogue_def)
  next
    case (GotRoles rows rs)
    show thesis
      by (rule advanced [OF u, of "GotAll rows rs (db_customer_grants (g_db (sh_gw s)))"])
        (auto simp: s' advance_load_def GotRoles same_catalogue_def)
  next
    case (GotAll rows rs cs)
    show thesis
      by (rule installed [OF u])
        (cases "ks ! u"; simp add: s' advance_load_def GotAll leave_cache_def Let_def read_clock_def snapshot_of_install)+
  qed
qed

lemma follows_step:
  assumes step: "shop_step w ks a s = Some s'" and lock: "lock_ok (shop_view s')"
    and t: "ks ! t = Reload" "t < length (sh_jobs s)"
    and quiet_commit: "\<And>d'. a = Commit d' \<Longrightarrow> same_catalogue d d'" and fol: "follows w d t s"
  shows "follows w d t s'"
  using step
proof (cases rule: shop_step_cases)
  case (moved u)
  then obtain j s1 where same: "same_shop w s s1" and s': "s' = put_job u j s1"
    and begins: "begins_job j" "j = Ended (Inr ()) \<longrightarrow> ks ! u = Ensure"
    unfolding moved_def by blast
  have parts: "sh_jobs s1 = sh_jobs s" "g_db (sh_gw s1) = g_db (sh_gw s)"
    "snapshot_of w d (g_cache (sh_gw s1)) = snapshot_of w d (g_cache (sh_gw s))"
    using same unfolding same_shop_def by blast+
  have j: "sh_jobs s' = (sh_jobs s)[u := j]" and gw: "g_db (sh_gw s') = g_db (sh_gw s)"
    "snapshot_of w d (g_cache (sh_gw s')) = snapshot_of w d (g_cache (sh_gw s))"
    unfolding s' put_job_frame parts by (rule refl)+
  have asked: "stage_of w d st" if "j = Loading st" for st using begins(1) that by (cases st) simp_all
  have single: "v = u" if "v < length (sh_jobs s)" "is_loading (sh_jobs s' ! v)" "is_loading j" for v
    by (rule lock_ok_single [OF lock [unfolded shop_view_def]])
      (use that moved(1) j in \<open>simp_all add: refreshers_def\<close>)
  have loading: "stage_of w d st" if "v < length (sh_jobs s)" "sh_jobs s' ! v = Loading st"
    "is_loading (sh_jobs s' ! t) \<or> sh_jobs s' ! t = Ended (Inr ())" for v st
  proof (cases "v = u")
    case True
    then show ?thesis using that j moved(1) asked by simp
  next
    case False
    then have old: "sh_jobs s ! v = Loading st" using that j by simp
    have "u \<noteq> t"
      using single [of v] that begins(2) t False j moved(1) by (auto simp: is_loading_def)
    then show ?thesis using fol old that j by (auto simp: follows_def)
  qed
  have "snapshot_of w d (g_cache (sh_gw s'))" if "sh_jobs s' ! t = Ended (Inr ())"
    using that fol j begins(2) t gw moved(1) by (cases "u = t") (auto simp: follows_def)
  with loading fol gw j show ?thesis by (auto simp: follows_def)
next
  case (advanced u st st')
  then show ?thesis using fol t(2)
    by (fastforce simp: follows_def nth_list_update is_loading_def split: if_splits)
next
  case (installed u st)
  have "same_catalogue d (g_db (sh_gw s'))" using fol installed(4) by (simp add: follows_def)
  moreover have stages: "stage_of w d st'" if "v < length (sh_jobs s)" "sh_jobs s ! v = Loading st'"
    "is_loading (sh_jobs s' ! t) \<or> sh_jobs s' ! t = Ended (Inr ())" for v st'
    using fol that installed(1-3) t(2) by (cases "u = t") (auto simp: follows_def)
  moreover have "snapshot_of w d (g_cache (sh_gw s'))" if "sh_jobs s' ! t = Ended (Inr ())"
    using installed(5) stages [OF installed(1,2)] that fol by (simp add: follows_def)
  moreover have "sh_jobs s ! v = Loading st'" if "v < length (sh_jobs s)" "sh_jobs s' ! v = Loading st'" for v st'
    using that installed(1,3) by (cases "v = u") auto
  ultimately show ?thesis using installed(3) by (auto simp: follows_def)
next
  case (commit d')
  then show ?thesis using fol quiet_commit [of d'] by (auto simp: follows_def)
qed

lemma shop_step_length: "shop_step w ks a s = Some s' \<Longrightarrow> length (sh_jobs s') = length (sh_jobs s)"
  by (elim shop_step_cases) (auto simp: moved_def same_shop_def)

lemma shop_run_length: "shop_run w ks as s = Some s' \<Longrightarrow> length (sh_jobs s') = length (sh_jobs s)"
  by (induction "as" arbitrary: s) (auto dest: shop_step_length split: option.splits)

lemma follows_run:
  assumes "shop_run w ks as s = Some s'" and "(shop_moves w ks)\<^sup>*\<^sup>* s0 s" "shop_begins s0"
    and t: "ks ! t = Reload" "t < length (sh_jobs s)"
    and "\<And>d'. Commit d' \<in> set as \<Longrightarrow> same_catalogue d d'" and "follows w d t s"
  shows "follows w d t s'"
  using assms(1,2,5,6,7)
proof (induction "as" arbitrary: s)
  case (Cons a "as")
  then obtain s1 where s1: "shop_step w ks a s = Some s1" "shop_run w ks as s1 = Some s'" by (auto split: option.splits)
  then have mv: "shop_moves w ks s s1" by (auto simp: shop_moves_def)
  have reach: "(shop_moves w ks)\<^sup>*\<^sup>* s0 s1" using Cons.prems(2) mv by (rule rtranclp.rtrancl_into_rtrancl)
  have "follows w d t s1"
    by (rule follows_step [OF s1(1) cache_lock.view_ok [OF reach assms(3)] t(1)]) (use Cons.prems in auto)
  then show ?case using Cons.IH [OF s1(2) reach] Cons.prems shop_step_length [OF s1(1)] by auto
qed simp

text \<open>
  C13: when a reload begins after a change of the tables is committed and ends well, the registry holds
  exactly the tools and grants of those tables, whatever other refreshes were under way before, wait
  or come later, also some that had read the tables before the change; and it keeps holding them as
  long as tools and grants do not change again.
\<close>

theorem reload_not_lost:
  assumes "shop_run w ks as (shop_start g (length ks)) = Some s"
    and "t < length ks" "ks ! t = Reload" "sh_jobs s ! t = Ready"
    and "shop_run w ks bs s = Some s'" and "\<And>d. Commit d \<in> set bs \<Longrightarrow> same_catalogue (g_db (sh_gw s)) d"
    and "sh_jobs s' ! t = Ended (Inr ())"
  shows "snapshot_of w (g_db (sh_gw s')) (g_cache (sh_gw s'))"
proof -
  let ?d = "g_db (sh_gw s)"
  have len: "length (sh_jobs s) = length ks"
    using shop_run_length [OF assms(1)] by (simp add: shop_start_def)
  have "follows w ?d t s" using assms(4) by (simp add: follows_def same_catalogue_def)
  from follows_run [OF assms(5) shop_run_moves [OF assms(1)] _ assms(3) _ assms(6) this] len assms(2)
  have "follows w ?d t s'" by (auto simp: shop_begins_def)
  with assms(7) have "snapshot_of w ?d (g_cache (sh_gw s'))" "same_catalogue ?d (g_db (sh_gw s'))"
    by (simp_all add: follows_def)
  then show ?thesis
    using from_model_cong [of "g_db (sh_gw s')" ?d] by (simp add: snapshot_of_def same_catalogue_def fetch_all_enabled_tools_def)
qed

text \<open>A schedule: a lookup reads the tables, a grant is committed, and the reload waits for the lookup.\<close>

definition granted_db :: db where
  "granted_db = sample_db\<lparr>db_role_grants := \<lparr>gr_tool = 1, gr_key = ''ops'', gr_at = 5, gr_by = None\<rparr> # db_role_grants sample_db\<rparr>"

definition before_reload :: shop where
  "before_reload =
     the (shop_run sample_world [Ensure, Reload] [Begin 0, Advance 0, Advance 0, Commit granted_db] (shop_start sample_gw 2))"

definition after_reload :: shop where
  "after_reload =
     the (shop_run sample_world [Ensure, Reload]
       [Begin 1, Advance 0, Advance 0, Resume 1, Advance 1, Advance 1, Advance 1, Advance 1] before_reload)"

lemma shop_some: "s = the r \<Longrightarrow> r \<noteq> None \<Longrightarrow> r = Some s"
  by auto

lemma before_reload:
  "shop_run sample_world [Ensure, Reload] [Begin 0, Advance 0, Advance 0, Commit granted_db] (shop_start sample_gw 2) =
     Some before_reload"
  by (rule shop_some [OF before_reload_def]) code_simp

lemma after_reload:
  "shop_run sample_world [Ensure, Reload]
     [Begin 1, Advance 0, Advance 0, Resume 1, Advance 1, Advance 1, Advance 1, Advance 1] before_reload = Some after_reload"
  by (rule shop_some [OF after_reload_def]) code_simp

lemma reload_not_lost_witness:
  "snapshot_of sample_world (g_db (sh_gw after_reload)) (g_cache (sh_gw after_reload))"
proof -
  have jobs: "sh_jobs before_reload ! 1 = Ready" "sh_jobs after_reload ! 1 = Ended (Inr ())"
    by code_simp+
  have two: "length [Ensure, Reload] = 2" by simp
  have "shop_run sample_world [Ensure, Reload] [Begin 0, Advance 0, Advance 0, Commit granted_db]
      (shop_start sample_gw (length [Ensure, Reload])) = Some before_reload"
    unfolding two by (rule before_reload)
  from reload_not_lost [OF this _ _ jobs(1) after_reload _ jobs(2)] show ?thesis by simp
qed

section \<open>A refresh that runs alone\<close>

definition refresh_as :: "world \<Rightarrow> want \<Rightarrow> gw \<Rightarrow> unit res \<times> gw" where
  "refresh_as w k g = (case k of Ensure \<Rightarrow> refresh_if_stale w g | Reload \<Rightarrow> force_refresh w g)"

fun refresh_each :: "world \<Rightarrow> want list \<Rightarrow> gw \<Rightarrow> unit res list \<times> gw" where
  "refresh_each w [] g = ([], g)"
| "refresh_each w (k # ks) g =
     (case refresh_as w k g of (r, g) \<Rightarrow> (case refresh_each w ks g of (rs, g) \<Rightarrow> (r # rs, g)))"

definition reload_done :: "want \<Rightarrow> unit res \<times> gw \<Rightarrow> unit res \<times> gw" where
  "reload_done k m = (case k of Ensure \<Rightarrow> m | Reload \<Rightarrow> andThen m (\<lambda>_ g. (Inr (), broadcast ''tools_changed'' g)))"

lemma load_alone:
  assumes t: "t < length ks" "t < length (sh_jobs s)"
    and l: "sh_lock s = \<lparr>lk_locked = True, lk_waiters = []\<rparr>"
    and load: "reload_done (ks ! t) (cache_load w (sh_gw s)) = (r, g)"
  obtains "as" s' where "shop_run w ks as (begin_load t s) = Some s'" "sh_jobs s' = (sh_jobs s)[t := Ended r]"
    "sh_gw s' = g" "sh_lock s' = new_lock"
proof -
  note result = that
  let ?g = "emit (EvDb ''SELECT tools'') (sh_gw s)"
  have free: "release (sh_lock s) = new_lock" by (simp add: l release_def new_lock_def)
  show thesis
  proof (cases "w_db_error w (g_trace ?g)")
    case (Some e)
    show thesis
      by (rule result [of "[Advance t]" "leave_cache t r (s\<lparr>sh_gw := ?g\<rparr>)"])
        (use t Some load free in \<open>cases e; cases "ks ! t";
          auto simp: begin_load_def put_job_def leave_cache_def advance_load_def cache_load_def registry_load_def db_call_def Let_def
            reload_done_def\<close>)+
  next
    case None
    have db: "(g_db g')\<lparr>db_role_grants := db_role_grants (g_db g'), db_customer_grants := db_customer_grants (g_db g')\<rparr> = g_db g'" for g' :: gw
      by simp
    show thesis
      by (rule result [of "replicate 4 (Advance t)" "leave_cache t r (s\<lparr>sh_gw := g\<rparr>)"])
        (use t None load free in \<open>cases "ks ! t";
          auto simp: begin_load_def put_job_def leave_cache_def advance_load_def cache_load_def registry_load_def db_call_def Let_def
            reload_done_def read_clock_def db eval_nat_numeral\<close>)+
  qed
qed

lemma refresh_alone:
  assumes t: "t < length ks" "t < length (sh_jobs s)" "sh_jobs s ! t = Ready" and lock: "sh_lock s = new_lock"
    and ref: "refresh_as w (ks ! t) (sh_gw s) = (r, g)"
  obtains "as" s' where "shop_run w ks as s = Some s'" "sh_jobs s' = (sh_jobs s)[t := Ended r]"
    "sh_gw s' = g" "sh_lock s' = new_lock"
proof -
  note result = that
  let ?l = "\<lparr>lk_locked = True, lk_waiters = []\<rparr>"
  have acq: "acquire t new_lock = (True, ?l)" by (simp add: acquire_def new_lock_def)
  have free: "release ?l = new_lock" by (simp add: release_def new_lock_def)
  have start: "shop_run w ks (Begin t # as) s = shop_run w ks as (begin_refresh w (ks ! t) t s)" for "as"
    using t by simp
  show thesis
  proof (cases "ks ! t")
    case Ensure
    obtain fresh g1 where f1: "is_fresh w (sh_gw s) = (fresh, g1)" by fastforce
    obtain fresh2 g2 where f2: "is_fresh w g1 = (fresh2, g2)" by fastforce
    consider "fresh" | "\<not> fresh" "fresh2" | (load) "\<not> fresh" "\<not> fresh2" by blast
    then show thesis
    proof cases
      case 1
      then show thesis using Ensure f1 ref lock
        by (intro result [of "[Begin t]" "begin_refresh w (ks ! t) t s"]) (auto simp: start begin_refresh_def refresh_as_def refresh_if_stale_def ensure_fresh_def simp del: shop_run.simps(2))
    next
      case 2
      then show thesis using Ensure f1 f2 ref lock free
        by (intro result [of "[Begin t]" "begin_refresh w (ks ! t) t s"]) (auto simp: start begin_refresh_def take_lock_def acq enter_cache_def leave_cache_def
            refresh_as_def refresh_if_stale_def ensure_fresh_def simp del: shop_run.simps(2))
    next
      case load
      let ?s1 = "s\<lparr>sh_lock := ?l, sh_gw := g2\<rparr>"
      have beg: "begin_refresh w (ks ! t) t s = begin_load t ?s1"
        using load Ensure f1 f2 lock by (simp add: begin_refresh_def take_lock_def acq enter_cache_def)
      have "reload_done (ks ! t) (cache_load w (sh_gw ?s1)) = (r, g)"
        using load Ensure f1 f2 ref by (simp add: reload_done_def refresh_as_def refresh_if_stale_def ensure_fresh_def)
      from load_alone [OF t(1) _ _ this] t(2) obtain "as" s' where "shop_run w ks as (begin_load t ?s1) = Some s'"
        "sh_jobs s' = (sh_jobs s)[t := Ended r]" "sh_gw s' = g" "sh_lock s' = new_lock" by auto
      then show thesis using beg by (intro result [of "Begin t # as" s']) (simp_all only: start)
    qed
  next
    case Reload
    let ?s1 = "s\<lparr>sh_lock := ?l, sh_gw := (sh_gw s)\<lparr>g_cache := (g_cache (sh_gw s))\<lparr>tc_loaded_at := 0\<rparr>\<rparr>\<rparr>"
    have beg: "begin_refresh w (ks ! t) t s = begin_load t ?s1"
      using Reload lock by (simp add: begin_refresh_def take_lock_def acq enter_cache_def)
    have "reload_done (ks ! t) (cache_load w (sh_gw ?s1)) = (r, g)"
      using Reload ref by (simp add: reload_done_def refresh_as_def force_refresh_def invalidate_and_reload_def)
    from load_alone [OF t(1) _ _ this] t(2) obtain "as" s' where "shop_run w ks as (begin_load t ?s1) = Some s'"
      "sh_jobs s' = (sh_jobs s)[t := Ended r]" "sh_gw s' = g" "sh_lock s' = new_lock" by auto
    then show thesis using beg by (intro result [of "Begin t # as" s']) (simp_all only: start)
  qed
qed

text \<open>
  refreshes that run one after the other, each to its end, return and leave behind exactly what
  \<open>refresh_if_stale\<close> and \<open>force_refresh\<close> of Registry do.
\<close>

lemma refreshes_refine_registry:
  "\<exists>as s. shop_run w ks as (shop_start g (length ks)) = Some s \<and>
    sh_jobs s = map Ended (fst (refresh_each w ks g)) \<and> sh_gw s = snd (refresh_each w ks g)"
proof -
  have "\<exists>as s. shop_run w (past @ ks) as s0 = Some s \<and> sh_jobs s = js @ map Ended (fst (refresh_each w ks (sh_gw s0))) \<and>
      sh_gw s = snd (refresh_each w ks (sh_gw s0))"
    if "sh_lock s0 = new_lock" "sh_jobs s0 = js @ replicate (length ks) Ready" "length js = length past" for past js s0
    using that
  proof (induction ks arbitrary: past js s0)
    case Nil
    then show ?case by (intro exI [of _ "[]"]) simp
  next
    case (Cons k ks)
    let ?ks = "past @ k # ks"
    obtain r g where ref: "refresh_as w k (sh_gw s0) = (r, g)" by fastforce
    have t: "length past < length ?ks" "length past < length (sh_jobs s0)" "sh_jobs s0 ! length past = Ready"
      "?ks ! length past = k"
      using Cons.prems by (simp_all add: nth_append)
    obtain "as" s1 where r1: "shop_run w ?ks as s0 = Some s1" "sh_jobs s1 = (sh_jobs s0)[length past := Ended r]"
      "sh_gw s1 = g" "sh_lock s1 = new_lock"
      using refresh_alone [OF t(1-3) Cons.prems(1), of w r g] ref unfolding t(4) by metis
    have "sh_jobs s1 = (js @ [Ended r]) @ replicate (length ks) Ready"
      using r1(2) Cons.prems(2,3) by (simp add: list_update_append)
    with Cons.IH [of s1 "js @ [Ended r]" "past @ [k]"] r1(4) Cons.prems(3) obtain bs s
      where "shop_run w ?ks bs s1 = Some s" "sh_jobs s = (js @ [Ended r]) @ map Ended (fst (refresh_each w ks g))"
        "sh_gw s = snd (refresh_each w ks g)"
      using r1(3) by auto
    then show ?case using r1(1) ref by (intro exI [of _ "as @ bs"]) (simp add: shop_run_append split: prod.split)
  qed
  from this [of "shop_start g (length ks)" "[]" "[]"] show ?thesis
    by (simp add: shop_start_def)
qed

end
