(* ===== verification/Jwks.thy ===== *)
theory Jwks
  imports GwState
begin

text \<open>
  \<open>app/auth/jwks.py\<close>: the cache of signing keys by \<open>kid\<close>, its refresh and its lookup. The state is
  the \<open>jwks_cache\<close> record in \<open>gw\<close>; the operations are used only when there is one.
\<close>

section \<open>Operations\<close>

definition jwks_cache_init :: "string \<Rightarrow> rat \<Rightarrow> rat \<Rightarrow> jwks_cache" where
  "jwks_cache_init url ttl cooldown =
     \<lparr>jw_url = url, jw_ttl = ttl, jw_cooldown = cooldown, jw_keys = [], jw_fetched_at = 0,
      jw_last_attempt = 0\<rparr>"

definition the_jwks :: "gw \<Rightarrow> jwks_cache" where
  "the_jwks g = the (g_jwks g)"

definition upd_jwks :: "(jwks_cache \<Rightarrow> jwks_cache) \<Rightarrow> gw \<Rightarrow> gw" where
  "upd_jwks f g = g\<lparr>g_jwks := map_option f (g_jwks g)\<rparr>"

definition jwks_request :: "string \<Rightarrow> http_req" where
  "jwks_request url =
     \<lparr>hr_verb = ''GET'', hr_url = url, hr_params = [], hr_body = None, hr_headers = [],
      hr_timeout = PFin 10\<rparr>"

text \<open>The loop over \<open>body["keys"]\<close>: an entry without a truthy \<open>kid\<close> is skipped, a later one wins.\<close>

fun collect_keys :: "json list \<Rightarrow> (json \<times> json) list \<Rightarrow> (json \<times> json) list res" where
  "collect_keys [] keys = Inr keys"
| "collect_keys (entry # entries) keys =
     bindE (as_dict entry) (\<lambda>d.
       let kid = jget d ''kid''
       in if truthy kid
          then bindE (hash_key kid) (\<lambda>k. collect_keys entries (key_store k entry keys))
          else collect_keys entries keys)"

text \<open>
  What the response gives: \<open>None\<close> when the request, the status or the JSON failed (caught), else
  the keys, or the exception of a document of another shape (not caught).
\<close>

definition jwks_body :: "http_outcome \<Rightarrow> json option" where
  "jwks_body out =
     (case out of
        Response r \<Rightarrow> (if is_success r then (case resp_json r of Inl e \<Rightarrow> None | Inr v \<Rightarrow> Some v) else None)
      | _ \<Rightarrow> None)"

definition jwks_keys :: "json \<Rightarrow> (json \<times> json) list res" where
  "jwks_keys body =
     bindE (as_dict body) (\<lambda>d. bindE (iterate (jget_default d ''keys'' (JList []))) (\<lambda>entries.
       collect_keys entries []))"

text \<open>An empty set of keys leaves the cache as it was.\<close>

definition jwks_refresh :: "world \<Rightarrow> gw \<Rightarrow> unit res \<times> gw" where
  "jwks_refresh w g =
     (case read_clock w g of (now, g) \<Rightarrow>
      (let g = upd_jwks (\<lambda>c. c\<lparr>jw_last_attempt := now\<rparr>) g
       in (case http_request w (jwks_request (jw_url (the_jwks g))) g of (out, g) \<Rightarrow>
           (case jwks_body out of
              None \<Rightarrow> (Inr (), g)
            | Some body \<Rightarrow>
                (case jwks_keys body of
                   Inl e \<Rightarrow> (Inl e, g)
                 | Inr keys \<Rightarrow>
                     (if keys \<noteq> []
                      then (case read_clock w g of (now, g) \<Rightarrow>
                              (Inr (), upd_jwks (\<lambda>c. c\<lparr>jw_keys := keys, jw_fetched_at := now\<rparr>) g))
                      else (Inr (), g)))))))"

definition kid_not_found :: "json \<Rightarrow> exn" where
  "kid_not_found kid =
     PyError ''KeyError'' (repr_text (''JWKS: kid '' @ quoted (py_str kid) @ '' not found''))"

definition jwks_refresh_if :: "bool \<Rightarrow> world \<Rightarrow> gw \<Rightarrow> unit res \<times> gw" where
  "jwks_refresh_if b w g = (if b then jwks_refresh w g else (Inr (), g))"

text \<open>\<open>get\<close>: both comparisons use the time read on entry.\<close>

definition jwks_get :: "world \<Rightarrow> json \<Rightarrow> gw \<Rightarrow> json res \<times> gw" where
  "jwks_get w kid g =
     (case read_clock w g of (now, g) \<Rightarrow>
      andThen (jwks_refresh_if
                 (jw_keys (the_jwks g) = [] \<or> now - jw_fetched_at (the_jwks g) > jw_ttl (the_jwks g)) w g) (\<lambda>_ g.
      (case hash_key kid of
         Inl e \<Rightarrow> (Inl e, g)
       | Inr k \<Rightarrow>
           (case key_lookup (jw_keys (the_jwks g)) k of
              Some key \<Rightarrow> (Inr key, g)
            | None \<Rightarrow>
                andThen (jwks_refresh_if (now - jw_last_attempt (the_jwks g) > jw_cooldown (the_jwks g)) w g) (\<lambda>_ g.
                (case key_lookup (jw_keys (the_jwks g)) k of
                   Some key \<Rightarrow> (Inr key, g)
                 | None \<Rightarrow> (Inl (kid_not_found kid), g)))))))"

section \<open>Refreshing\<close>

lemma upd_jwks_simps [simp]:
  "g_trace (upd_jwks f g) = g_trace g" "g_db (upd_jwks f g) = g_db g" "g_cache (upd_jwks f g) = g_cache g"
  "g_proxy_sessions (upd_jwks f g) = g_proxy_sessions g" "(g_jwks (upd_jwks f g) = None) = (g_jwks g = None)"
  by (simp_all add: upd_jwks_def)

lemma the_jwks_upd [simp]: "g_jwks g \<noteq> None \<Longrightarrow> the_jwks (upd_jwks f g) = f (the_jwks g)"
  by (auto simp: the_jwks_def upd_jwks_def)

lemma the_jwks_emit [simp]: "the_jwks (emit e g) = the_jwks g"
  by (simp add: the_jwks_def)

text \<open>
  A refresh makes one request, records the attempt, and either keeps the keys or replaces them by
  a non-empty set read from the response.
\<close>

lemma jwks_refresh_shape:
  assumes "g_jwks g \<noteq> None" and "jwks_refresh w g = (r, g')"
  shows "outside_only g g' \<and> requests g g' = 1 \<and> g_jwks g' \<noteq> None \<and>
    jw_last_attempt (the_jwks g') = w_clock w (g_trace g @ [EvClock]) \<and>
    jw_cooldown (the_jwks g') = jw_cooldown (the_jwks g) \<and> jw_ttl (the_jwks g') = jw_ttl (the_jwks g) \<and>
    (jw_keys (the_jwks g') = jw_keys (the_jwks g) \<and> jw_fetched_at (the_jwks g') = jw_fetched_at (the_jwks g) \<or>
     (\<exists>body keys. jwks_body (w_http w (g_trace g @ [EvClock, EvHttp (jwks_request (jw_url (the_jwks g)))])) = Some body \<and>
        jwks_keys body = Inr keys \<and> keys \<noteq> [] \<and> jw_keys (the_jwks g') = keys))"
  using assms
  by (auto simp: upd_jwks_def the_jwks_def jwks_refresh_def read_clock_def http_request_def Let_def outside_only_def extends_def
      requests_def new_events_def split: option.splits sum.splits if_splits)

section \<open>Lookup\<close>

text \<open>What holds of the cache across an operation: it stays, and keys once there do not vanish.\<close>

definition jwks_kept :: "gw \<Rightarrow> gw \<Rightarrow> bool" where
  "jwks_kept g g' \<longleftrightarrow>
     outside_only g g' \<and> g_jwks g' \<noteq> None \<and> (jw_keys (the_jwks g) \<noteq> [] \<longrightarrow> jw_keys (the_jwks g') \<noteq> []) \<and>
     jw_cooldown (the_jwks g') = jw_cooldown (the_jwks g)"

lemma jwks_kept_trans: "jwks_kept g g' \<Longrightarrow> jwks_kept g' g'' \<Longrightarrow> jwks_kept g g''"
  using outside_only_trans [of g g' g''] by (auto simp: jwks_kept_def)

lemma jwks_kept_clock: "g_jwks g \<noteq> None \<Longrightarrow> jwks_kept g (emit EvClock g)"
  by (simp add: jwks_kept_def)

lemma jwks_refresh_if_kept:
  assumes "g_jwks g \<noteq> None" and "jwks_refresh_if b w g = (r, g')"
  shows "jwks_kept g g'" and "requests g g' = (if b then 1 else 0)"
    and "b \<Longrightarrow> jw_last_attempt (the_jwks g') = w_clock w (g_trace g @ [EvClock])"
    and "\<not> b \<Longrightarrow> g' = g"
  using assms jwks_refresh_shape [of g w r g'] by (auto simp: jwks_refresh_if_def jwks_kept_def split: if_splits)

text \<open>
  A lookup passes through a state after the refresh on entry, and one after the refresh on a miss;
  the second happens only when the first did not touch the time of the last attempt.
\<close>

lemma jwks_get_cases:
  assumes "g_jwks g \<noteq> None" and "jwks_get w kid g = (r, g')"
  obtains g1 b1 b2 where "b1 = (jw_keys (the_jwks g) = [] \<or>
      w_clock w (g_trace g @ [EvClock]) - jw_fetched_at (the_jwks g) > jw_ttl (the_jwks g))"
    and "snd (jwks_refresh_if b1 w (emit EvClock g)) = g1"
    and "snd (jwks_refresh_if b2 w g1) = g'"
    and "b2 \<Longrightarrow> w_clock w (g_trace g @ [EvClock]) - jw_last_attempt (the_jwks g1) > jw_cooldown (the_jwks g1)"
    and "b2 \<Longrightarrow> \<exists>k. hash_key kid = Inr k \<and> key_lookup (jw_keys (the_jwks g1)) k = None"
    and "\<And>key. r = Inr key \<Longrightarrow> \<exists>k. hash_key kid = Inr k \<and> key_lookup (jw_keys (the_jwks g')) k = Some key"
proof -
  let ?now = "w_clock w (g_trace g @ [EvClock])"
  let ?b1 = "jw_keys (the_jwks g) = [] \<or> ?now - jw_fetched_at (the_jwks g) > jw_ttl (the_jwks g)"
  obtain r1 g1 where 1: "jwks_refresh_if ?b1 w (emit EvClock g) = (r1, g1)" by fastforce
  let ?late = "?now - jw_last_attempt (the_jwks g1) > jw_cooldown (the_jwks g1)"
  obtain r2 g2 where 2: "jwks_refresh_if ?late w g1 = (r2, g2)" by fastforce
  have none: "snd (jwks_refresh_if False w g1) = g1" by (simp add: jwks_refresh_if_def)
  have get: "jwks_get w kid g =
     andThen (r1, g1) (\<lambda>_ g1. case hash_key kid of
         Inl e \<Rightarrow> (Inl e, g1)
       | Inr k \<Rightarrow>
           (case key_lookup (jw_keys (the_jwks g1)) k of
              Some key \<Rightarrow> (Inr key, g1)
            | None \<Rightarrow>
                andThen (jwks_refresh_if (?now - jw_last_attempt (the_jwks g1) > jw_cooldown (the_jwks g1)) w g1) (\<lambda>_ g.
                (case key_lookup (jw_keys (the_jwks g)) k of
                   Some key \<Rightarrow> (Inr key, g)
                 | None \<Rightarrow> (Inl (kid_not_found kid), g)))))"
    using 1 by (simp add: jwks_get_def read_clock_def Let_def)
  consider (stop) "g' = g1" "\<And>key. r = Inr key \<Longrightarrow> \<exists>k. hash_key kid = Inr k \<and> key_lookup (jw_keys (the_jwks g1)) k = Some key"
    | (again) k where "hash_key kid = Inr k" "key_lookup (jw_keys (the_jwks g1)) k = None" "g' = g2"
      "\<And>key. r = Inr key \<Longrightarrow> key_lookup (jw_keys (the_jwks g2)) k = Some key"
  proof (cases r1)
    case (Inl e)
    with assms(2) have "r = Inl e" "g' = g1" unfolding get by simp_all
    then show thesis using stop by simp
  next
    case r1: (Inr u)
    show thesis
    proof (cases "hash_key kid")
      case (Inl e)
      with assms(2) r1 have "r = Inl e" "g' = g1" unfolding get by simp_all
      then show thesis using stop by simp
    next
      case k: (Inr k)
      show thesis
      proof (cases "key_lookup (jw_keys (the_jwks g1)) k")
        case (Some key)
        with assms(2) r1 k have "r = Inr key" "g' = g1" unfolding get by simp_all
        then show thesis using stop Some k by simp
      next
        case None
        with assms(2) r1 k 2 show thesis unfolding get
          by (intro again [of k]) (cases r2; auto split: option.splits)+
      qed
    qed
  qed
  then show thesis
  proof cases
    case stop
    show thesis by (rule that [of ?b1 g1 False]) (use 1 stop none in auto)
  next
    case again
    show thesis by (rule that [of ?b1 g1 ?late]) (use 1 2 again in auto)
  qed
qed

lemma jwks_get_kept:
  assumes "g_jwks g \<noteq> None" and "jwks_get w kid g = (r, g')"
  shows "jwks_kept g g'"
proof (rule jwks_get_cases [OF assms])
  fix g1 b1 b2
  assume 1: "snd (jwks_refresh_if b1 w (emit EvClock g)) = g1" and 2: "snd (jwks_refresh_if b2 w g1) = g'"
  have k0: "jwks_kept g (emit EvClock g)" by (rule jwks_kept_clock [OF assms(1)])
  then have k1: "jwks_kept (emit EvClock g) g1"
    using jwks_refresh_if_kept(1) [of "emit EvClock g" b1 w "fst (jwks_refresh_if b1 w (emit EvClock g))" g1] 1
    by (simp add: jwks_kept_def prod_eq_iff)
  then have "jwks_kept g1 g'"
    using jwks_refresh_if_kept(1) [of g1 b2 w "fst (jwks_refresh_if b2 w g1)" g'] 2
    by (simp add: jwks_kept_def prod_eq_iff)
  with k0 k1 show ?thesis by (blast intro: jwks_kept_trans)
qed

section \<open>Properties\<close>

text \<open>
  C21: with a monotonic clock and a cooldown that is not negative, looking up a key makes at most
  one request to the key server, and none when the cached keys are young enough and hold the key;
  a key that is returned is in the cache afterwards, and a failing server never empties it.
\<close>

theorem jwks_get_one_fetch:
  assumes "g_jwks g \<noteq> None" and "jwks_get w kid g = (r, g')"
    and "monotonic w" and "0 \<le> jw_cooldown (the_jwks g)"
  shows "requests g g' \<le> 1 \<and>
    (jw_keys (the_jwks g) \<noteq> [] \<longrightarrow> jw_keys (the_jwks g') \<noteq> []) \<and>
    (\<forall>key. r = Inr key \<longrightarrow> (\<exists>k. hash_key kid = Inr k \<and> key_lookup (jw_keys (the_jwks g')) k = Some key)) \<and>
    (\<forall>k key. hash_key kid = Inr k \<and> key_lookup (jw_keys (the_jwks g)) k = Some key \<and>
       w_clock w (g_trace g @ [EvClock]) - jw_fetched_at (the_jwks g) \<le> jw_ttl (the_jwks g) \<longrightarrow>
       requests g g' = 0)"
proof (rule jwks_get_cases [OF assms(1,2)])
  fix g1 b1 b2
  let ?g0 = "emit EvClock g"
  assume b1: "b1 = (jw_keys (the_jwks g) = [] \<or>
      w_clock w (g_trace g @ [EvClock]) - jw_fetched_at (the_jwks g) > jw_ttl (the_jwks g))"
    and 1: "snd (jwks_refresh_if b1 w ?g0) = g1" and 2: "snd (jwks_refresh_if b2 w g1) = g'"
    and late: "b2 \<Longrightarrow> w_clock w (g_trace g @ [EvClock]) - jw_last_attempt (the_jwks g1) > jw_cooldown (the_jwks g1)"
    and miss: "b2 \<Longrightarrow> \<exists>k. hash_key kid = Inr k \<and> key_lookup (jw_keys (the_jwks g1)) k = None"
    and found: "\<And>key. r = Inr key \<Longrightarrow> \<exists>k. hash_key kid = Inr k \<and> key_lookup (jw_keys (the_jwks g')) k = Some key"
  have g0: "g_jwks ?g0 \<noteq> None" using assms(1) by simp
  from 1 have e1: "jwks_refresh_if b1 w ?g0 = (fst (jwks_refresh_if b1 w ?g0), g1)" by (simp add: prod_eq_iff)
  note k1 = jwks_refresh_if_kept [OF g0 e1]
  then have g1: "g_jwks g1 \<noteq> None" by (simp add: jwks_kept_def)
  from 2 have e2: "jwks_refresh_if b2 w g1 = (fst (jwks_refresh_if b2 w g1), g')" by (simp add: prod_eq_iff)
  note k2 = jwks_refresh_if_kept [OF g1 e2]
  have ext: "extends g ?g0" "extends ?g0 g1" "extends g1 g'"
    using k1(1) k2(1) by (simp_all add: jwks_kept_def outside_only_def)
  have "requests g ?g0 = 0" by (simp add: quiet_requests)
  then have count: "requests g g' = (if b1 then 1 else 0) + (if b2 then 1 else 0)"
    using requests_trans [OF ext(1) extends_trans [OF ext(2,3)]] requests_trans [OF ext(2,3)] k1(2) k2(2) by simp
  have once: "\<not> (b1 \<and> b2)"
  proof
    assume both: "b1 \<and> b2"
    then have "jw_last_attempt (the_jwks g1) = w_clock w ((g_trace g @ [EvClock]) @ [EvClock])"
      using k1(3) by simp
    moreover have "w_clock w (g_trace g @ [EvClock]) \<le> w_clock w ((g_trace g @ [EvClock]) @ [EvClock])"
      using assms(3) unfolding monotonic_def by blast
    moreover have "0 \<le> jw_cooldown (the_jwks g1)" using k1(1) assms(4) by (simp add: jwks_kept_def)
    ultimately show False using late both by linarith
  qed
  have cached: "requests g g' = 0" if "hash_key kid = Inr k" "key_lookup (jw_keys (the_jwks g)) k = Some key"
    "w_clock w (g_trace g @ [EvClock]) - jw_fetched_at (the_jwks g) \<le> jw_ttl (the_jwks g)" for k key
  proof -
    have "jw_keys (the_jwks g) \<noteq> []" using that(2) by (auto simp: key_lookup_def split: if_splits)
    with that(3) b1 have "\<not> b1" by simp
    then have "g1 = ?g0" using k1(4) by simp
    then have "\<not> b2" using miss that(1,2) by auto
    with \<open>\<not> b1\<close> count show ?thesis by simp
  qed
  show ?thesis
    using once count found cached jwks_get_kept [OF assms(1,2)] by (auto simp: jwks_kept_def)
qed

definition jwks_gw :: gw where
  "jwks_gw = sample_gw\<lparr>g_jwks := Some (jwks_cache_init ''https://id/jwks'' 3600 30)\<rparr>"

lemma monotonic_sample: "monotonic sample_world"
  by (simp add: monotonic_def sample_world_def)

lemma jwks_get_one_fetch_witness:
  "requests jwks_gw (snd (jwks_get sample_world (JStr ''k1'') jwks_gw)) \<le> 1"
proof -
  have "g_jwks jwks_gw \<noteq> None" "0 \<le> jw_cooldown (the_jwks jwks_gw)"
    by (simp_all add: jwks_gw_def the_jwks_def jwks_cache_init_def)
  then show ?thesis
    using jwks_get_one_fetch [of jwks_gw sample_world "JStr ''k1''" "fst (jwks_get sample_world (JStr ''k1'') jwks_gw)"
      "snd (jwks_get sample_world (JStr ''k1'') jwks_gw)"] monotonic_sample by simp
qed

end
