(* ===== verification/JwksTasks.thy ===== *)
theory JwksTasks
  imports Locks Jwks
begin

text \<open>
  Lookups of signing keys side by side (\<open>app/auth/jwks.py\<close>): \<open>get\<close> cut where it waits for the lock of
  \<open>_refresh\<close> and for the answer of the key server.
\<close>

section \<open>Tasks\<close>

text \<open>
  Where a lookup is: not begun; waiting for the lock or for the answer, with the time read on entry,
  whether this is the refresh on entry (or that on a miss), and the trace at the request; or done.
\<close>

datatype lookup = Unasked | Blocked rat bool | Fetching rat bool "event list" | Told "json res" | Dropped

record keyring =
  kr_gw :: gw
  kr_lock :: lock
  kr_jobs :: "lookup list"

datatype key_act = Look nat | Unblock nat | Receive nat | Abandon nat

definition set_lookup :: "nat \<Rightarrow> lookup \<Rightarrow> keyring \<Rightarrow> keyring" where
  "set_lookup t j s = s\<lparr>kr_jobs := (kr_jobs s)[t := j]\<rparr>"

text \<open>Inside the lock nobody looks again whether the keys have come meanwhile.\<close>

definition begin_fetch :: "world \<Rightarrow> nat \<Rightarrow> rat \<Rightarrow> bool \<Rightarrow> keyring \<Rightarrow> keyring" where
  "begin_fetch w t now first s =
     (case read_clock w (kr_gw s) of (at_time, g) \<Rightarrow>
       (let g = upd_jwks (\<lambda>c. c\<lparr>jw_last_attempt := at_time\<rparr>) g;
            g = emit (EvHttp (jwks_request (jw_url (the_jwks g)))) g
        in set_lookup t (Fetching now first (g_trace g)) (s\<lparr>kr_gw := g\<rparr>)))"

definition begin_wait :: "world \<Rightarrow> nat \<Rightarrow> rat \<Rightarrow> bool \<Rightarrow> keyring \<Rightarrow> keyring" where
  "begin_wait w t now first s =
     (case acquire t (kr_lock s) of (got, l) \<Rightarrow>
       (if got then begin_fetch w t now first (s\<lparr>kr_lock := l\<rparr>)
        else set_lookup t (Blocked now first) (s\<lparr>kr_lock := l\<rparr>)))"

text \<open>After the refresh on a miss, and after that on entry.\<close>

definition second_look :: "json \<Rightarrow> json \<Rightarrow> gw \<Rightarrow> json res" where
  "second_look kid k g =
     (case key_lookup (jw_keys (the_jwks g)) k of Some key \<Rightarrow> Inr key | None \<Rightarrow> Inl (kid_not_found kid))"

definition first_look :: "world \<Rightarrow> json \<Rightarrow> nat \<Rightarrow> rat \<Rightarrow> keyring \<Rightarrow> keyring" where
  "first_look w kid t now s =
     (case hash_key kid of
        Inl e \<Rightarrow> set_lookup t (Told (Inl e)) s
      | Inr k \<Rightarrow>
          (case key_lookup (jw_keys (the_jwks (kr_gw s))) k of
             Some key \<Rightarrow> set_lookup t (Told (Inr key)) s
           | None \<Rightarrow>
               (if now - jw_last_attempt (the_jwks (kr_gw s)) > jw_cooldown (the_jwks (kr_gw s))
                then begin_wait w t now False s
                else set_lookup t (Told (second_look kid k (kr_gw s))) s)))"

definition begin_lookup :: "world \<Rightarrow> json \<Rightarrow> nat \<Rightarrow> keyring \<Rightarrow> keyring" where
  "begin_lookup w kid t s =
     (case read_clock w (kr_gw s) of (now, g) \<Rightarrow>
       (if jw_keys (the_jwks g) = [] \<or> now - jw_fetched_at (the_jwks g) > jw_ttl (the_jwks g)
        then begin_wait w t now True (s\<lparr>kr_gw := g\<rparr>) else first_look w kid t now (s\<lparr>kr_gw := g\<rparr>)))"

text \<open>The answer of the key server, and how the lookup goes on after the lock is released.\<close>

definition keys_answer :: "world \<Rightarrow> event list \<Rightarrow> gw \<Rightarrow> unit res \<times> gw" where
  "keys_answer w tr g =
     (case jwks_body (w_http w tr) of
        None \<Rightarrow> (Inr (), g)
      | Some body \<Rightarrow>
          (case jwks_keys body of
             Inl e \<Rightarrow> (Inl e, g)
           | Inr keys \<Rightarrow>
               (if keys \<noteq> []
                then (case read_clock w g of (now, g) \<Rightarrow>
                        (Inr (), upd_jwks (\<lambda>c. c\<lparr>jw_keys := keys, jw_fetched_at := now\<rparr>) g))
                else (Inr (), g))))"

definition go_on :: "world \<Rightarrow> json \<Rightarrow> nat \<Rightarrow> rat \<Rightarrow> bool \<Rightarrow> keyring \<Rightarrow> keyring" where
  "go_on w kid t now first s =
     (if first then first_look w kid t now s
      else (case hash_key kid of
              Inl e \<Rightarrow> set_lookup t (Told (Inl e)) s
            | Inr k \<Rightarrow> set_lookup t (Told (second_look kid k (kr_gw s))) s))"

definition receive_keys :: "world \<Rightarrow> json \<Rightarrow> nat \<Rightarrow> rat \<Rightarrow> bool \<Rightarrow> event list \<Rightarrow> keyring \<Rightarrow> keyring" where
  "receive_keys w kid t now first tr s =
     (case keys_answer w tr (kr_gw s) of (r, g) \<Rightarrow>
       (let s = s\<lparr>kr_gw := g, kr_lock := release (kr_lock s)\<rparr>
        in (case r of Inl e \<Rightarrow> set_lookup t (Told (Inl e)) s | Inr u \<Rightarrow> go_on w kid t now first s)))"

fun key_step :: "world \<Rightarrow> json list \<Rightarrow> key_act \<Rightarrow> keyring \<Rightarrow> keyring option" where
  "key_step w ks (Look t) s =
     (if t < length ks \<and> t < length (kr_jobs s) \<and> kr_jobs s ! t = Unasked then Some (begin_lookup w (ks ! t) t s) else None)"
| "key_step w ks (Unblock t) s =
     (if t < length ks \<and> t < length (kr_jobs s)
      then (case kr_jobs s ! t of
              Blocked now first \<Rightarrow> map_option (\<lambda>l. begin_fetch w t now first (s\<lparr>kr_lock := l\<rparr>)) (awaken t (kr_lock s))
            | _ \<Rightarrow> None)
      else None)"
| "key_step w ks (Receive t) s =
     (if t < length ks \<and> t < length (kr_jobs s)
      then (case kr_jobs s ! t of
              Fetching now first tr \<Rightarrow> Some (receive_keys w (ks ! t) t now first tr s)
            | _ \<Rightarrow> None)
      else None)"
| "key_step w ks (Abandon t) s =
     (if t < length (kr_jobs s)
      then (case kr_jobs s ! t of
              Unasked \<Rightarrow> Some (set_lookup t Dropped s)
            | Blocked now first \<Rightarrow> Some (set_lookup t Dropped (s\<lparr>kr_lock := leave_queue t (kr_lock s)\<rparr>))
            | Fetching now first tr \<Rightarrow> Some (set_lookup t Dropped (s\<lparr>kr_lock := release (kr_lock s)\<rparr>))
            | _ \<Rightarrow> None)
      else None)"

fun key_run :: "world \<Rightarrow> json list \<Rightarrow> key_act list \<Rightarrow> keyring \<Rightarrow> keyring option" where
  "key_run w ks [] s = Some s"
| "key_run w ks (a # as) s = (case key_step w ks a s of None \<Rightarrow> None | Some s \<Rightarrow> key_run w ks as s)"

definition keyring_start :: "gw \<Rightarrow> nat \<Rightarrow> keyring" where
  "keyring_start g n = \<lparr>kr_gw = g, kr_lock = new_lock, kr_jobs = replicate n Unasked\<rparr>"

section \<open>The lock is kept\<close>

definition is_fetching :: "lookup \<Rightarrow> bool" where
  "is_fetching j = (case j of Fetching now first tr \<Rightarrow> True | _ \<Rightarrow> False)"

definition is_blocked :: "lookup \<Rightarrow> bool" where
  "is_blocked j = (case j of Blocked now first \<Rightarrow> True | _ \<Rightarrow> False)"

definition lookups :: "(lookup \<Rightarrow> bool) \<Rightarrow> keyring \<Rightarrow> nat set" where
  "lookups P s = {t. t < length (kr_jobs s) \<and> P (kr_jobs s ! t)}"

definition key_view :: "keyring \<Rightarrow> lock \<times> nat set \<times> nat set" where
  "key_view s = (kr_lock s, lookups is_fetching s, lookups is_blocked s)"

text \<open>The same without task \<open>t\<close>.\<close>

definition others_view :: "nat \<Rightarrow> keyring \<Rightarrow> lock \<times> nat set \<times> nat set" where
  "others_view t s = (kr_lock s, lookups is_fetching s - {t}, lookups is_blocked s - {t})"

lemma set_lookup_frame [simp]:
  "kr_gw (set_lookup t j s) = kr_gw s" "kr_lock (set_lookup t j s) = kr_lock s" "kr_jobs (set_lookup t j s) = (kr_jobs s)[t := j]"
  by (simp_all add: set_lookup_def)

lemma lookups_frame [simp]:
  "lookups P (s\<lparr>kr_gw := g\<rparr>) = lookups P s" "lookups P (s\<lparr>kr_lock := l\<rparr>) = lookups P s"
  by (simp_all add: lookups_def)

lemma lookups_job:
  "t < length (kr_jobs s) \<Longrightarrow> lookups P (set_lookup t j s) = (if P j then insert t (lookups P s) else lookups P s - {t})"
  by (auto simp: lookups_def nth_list_update)

lemma job_kinds [simp]:
  "is_fetching (Fetching now first tr)" "\<not> is_fetching (Blocked now first)" "\<not> is_fetching Unasked" "\<not> is_fetching (Told r)"
  "\<not> is_fetching Dropped" "is_blocked (Blocked now first)" "\<not> is_blocked (Fetching now first tr)" "\<not> is_blocked Unasked"
  "\<not> is_blocked (Told r)" "\<not> is_blocked Dropped"
  by (simp_all add: is_fetching_def is_blocked_def)

lemma told_moves:
  "t < length (kr_jobs s) \<Longrightarrow> \<not> is_fetching j \<Longrightarrow> \<not> is_blocked j \<Longrightarrow>
     lock_move\<^sup>*\<^sup>* (others_view t s) (key_view (set_lookup t j s))"
  by (simp add: others_view_def key_view_def lookups_job)

lemma begin_fetch_view:
  "t < length (kr_jobs s) \<Longrightarrow>
     key_view (begin_fetch w t now first s) = (kr_lock s, insert t (lookups is_fetching s), lookups is_blocked s - {t})"
  by (simp add: begin_fetch_def key_view_def read_clock_def Let_def lookups_job)

lemma begin_wait_moves:
  assumes "t < length (kr_jobs s)"
  shows "lock_move\<^sup>*\<^sup>* (others_view t s) (key_view (begin_wait w t now first s))"
proof -
  obtain got l where ac: "acquire t (kr_lock s) = (got, l)" by fastforce
  then have "lock_move (others_view t s) (key_view (begin_wait w t now first s))"
    using assms lock_move.enter [of t "lookups is_blocked s - {t}" "kr_lock s" l "lookups is_fetching s - {t}"]
      lock_move.queue_up [of t "lookups is_fetching s - {t}" "lookups is_blocked s - {t}" "kr_lock s" l]
    by (cases got) (simp_all add: begin_wait_def begin_fetch_view others_view_def, simp add: key_view_def lookups_job)
  then show ?thesis by (rule r_into_rtranclp)
qed

lemma first_look_moves:
  "t < length (kr_jobs s) \<Longrightarrow> lock_move\<^sup>*\<^sup>* (others_view t s) (key_view (first_look w kid t now s))"
  using begin_wait_moves [of t s w now False] told_moves [of t s]
  by (auto simp: first_look_def split: sum.split option.split)

lemma go_on_moves:
  "t < length (kr_jobs s) \<Longrightarrow> lock_move\<^sup>*\<^sup>* (others_view t s) (key_view (go_on w kid t now first s))"
  using first_look_moves [of t s w kid now] told_moves [of t s] by (auto simp: go_on_def split: sum.split)

lemma begin_lookup_moves:
  assumes "t < length (kr_jobs s)"
  shows "lock_move\<^sup>*\<^sup>* (others_view t s) (key_view (begin_lookup w kid t s))"
proof -
  let ?s1 = "s\<lparr>kr_gw := emit EvClock (kr_gw s)\<rparr>"
  have "others_view t ?s1 = others_view t s" by (simp add: others_view_def)
  then show ?thesis
    using begin_wait_moves [of t ?s1] first_look_moves [of t ?s1] assms by (simp add: begin_lookup_def read_clock_def Let_def)
qed

lemma others_same: "t \<notin> lookups is_fetching s \<Longrightarrow> t \<notin> lookups is_blocked s \<Longrightarrow> others_view t s = key_view s"
  by (simp add: others_view_def key_view_def)

lemma key_step_moves:
  assumes "key_step w ks a s = Some s'"
  shows "lock_move\<^sup>*\<^sup>* (key_view s) (key_view s')"
proof (cases a)
  case (Look t)
  with assms have t: "t < length (kr_jobs s)" "kr_jobs s ! t = Unasked" and s': "s' = begin_lookup w (ks ! t) t s"
    by (auto split: if_splits)
  then show ?thesis using begin_lookup_moves [of t s w "ks ! t"] others_same [of t s] by (simp add: lookups_def)
next
  case (Unblock t)
  with assms obtain now first l where t: "t < length (kr_jobs s)" "kr_jobs s ! t = Blocked now first"
    and aw: "awaken t (kr_lock s) = Some l" and s': "s' = begin_fetch w t now first (s\<lparr>kr_lock := l\<rparr>)"
    by (auto split: if_splits lookup.splits)
  then have "key_view s' = (l, insert t (lookups is_fetching s), lookups is_blocked s - {t})" by (simp add: begin_fetch_view)
  then show ?thesis using aw by (auto simp: key_view_def [of s] intro: one_move [OF woken])
next
  case (Receive t)
  with assms obtain now first tr where t: "t < length (kr_jobs s)" "kr_jobs s ! t = Fetching now first tr"
    and s': "s' = receive_keys w (ks ! t) t now first tr s"
    by (auto split: if_splits lookup.splits)
  obtain r g where ans: "keys_answer w tr (kr_gw s) = (r, g)" by fastforce
  let ?s1 = "s\<lparr>kr_gw := g, kr_lock := release (kr_lock s)\<rparr>"
  have mem: "t \<in> lookups is_fetching s" "t \<notin> lookups is_blocked s" using t by (simp_all add: lookups_def)
  then have "lock_move (key_view s) (others_view t ?s1)"
    using leave [of t "lookups is_fetching s" "kr_lock s" "lookups is_blocked s"] by (simp add: key_view_def others_view_def)
  moreover have "lock_move\<^sup>*\<^sup>* (others_view t ?s1) (key_view s')"
    using go_on_moves [of t ?s1] told_moves [of t ?s1] t(1) ans by (cases r) (simp_all add: s' receive_keys_def Let_def)
  ultimately show ?thesis by (rule converse_rtranclp_into_rtranclp)
next
  case (Abandon t)
  then have t: "t < length (kr_jobs s)" using assms by (auto split: if_splits)
  show ?thesis
  proof (cases "kr_jobs s ! t")
    case (Blocked now first)
    then have "t \<notin> lookups is_fetching s" "t \<in> lookups is_blocked s" using t by (simp_all add: lookups_def)
    then show ?thesis using assms Abandon t Blocked by (auto simp: key_view_def lookups_job intro: one_move [OF dropped])
  next
    case (Fetching now first tr)
    then have "t \<in> lookups is_fetching s" "t \<notin> lookups is_blocked s" using t by (simp_all add: lookups_def)
    then show ?thesis using assms Abandon t Fetching by (auto simp: key_view_def lookups_job intro: one_move [OF leave])
  qed (use assms Abandon t others_same [of t s] told_moves [of t s Dropped] in \<open>auto simp: lookups_def\<close>)
qed

definition key_moves :: "world \<Rightarrow> json list \<Rightarrow> keyring \<Rightarrow> keyring \<Rightarrow> bool" where
  "key_moves w ks s s' \<longleftrightarrow> (\<exists>a. key_step w ks a s = Some s')"

definition key_begins :: "keyring \<Rightarrow> bool" where
  "key_begins s \<longleftrightarrow> (\<exists>g n. s = keyring_start g n)"

interpretation key_lock: guarded key_view key_begins "\<lambda>_. True" "key_moves w ks" for w ks
proof unfold_locales
  show "key_view s = (new_lock, {}, {})" if "key_begins s" for s
    using that by (auto simp: key_begins_def keyring_start_def key_view_def lookups_def)
qed (auto simp: key_moves_def intro: key_step_moves)

lemma key_run_moves: "key_run w ks as s = Some s' \<Longrightarrow> (key_moves w ks)\<^sup>*\<^sup>* s s'"
proof (induction "as" arbitrary: s)
  case (Cons a "as")
  then obtain s1 where "key_step w ks a s = Some s1" "key_run w ks as s1 = Some s'" by (auto split: option.splits)
  moreover from this(1) have "key_moves w ks s s1" by (auto simp: key_moves_def)
  ultimately show ?case using Cons.IH converse_rtranclp_into_rtranclp by metis
qed simp

lemma key_run_append:
  "key_run w ks (as @ bs) s = (case key_run w ks as s of None \<Rightarrow> None | Some s' \<Rightarrow> key_run w ks bs s')"
  by (induction "as" arbitrary: s) (auto split: option.splits)

section \<open>How many requests\<close>

fun fetches_left :: "lookup \<Rightarrow> nat" where
  "fetches_left Unasked = 1"
| "fetches_left (Blocked now first) = 1"
| "fetches_left _ = 0"

text \<open>A time that was read before; and for a task that fetches, before the last attempt.\<close>

definition past_time :: "world \<Rightarrow> rat \<Rightarrow> gw \<Rightarrow> bool" where
  "past_time w now g \<longleftrightarrow> (\<exists>tr0 tr1. g_trace g = tr0 @ tr1 \<and> now = w_clock w tr0)"

fun timed :: "world \<Rightarrow> gw \<Rightarrow> lookup \<Rightarrow> bool" where
  "timed w g (Blocked now first) \<longleftrightarrow> past_time w now g"
| "timed w g (Fetching now first tr) \<longleftrightarrow> past_time w now g \<and> now \<le> jw_last_attempt (the_jwks g)"
| "timed w g _ \<longleftrightarrow> True"

lemma past_time_extends: "past_time w now g \<Longrightarrow> extends g g' \<Longrightarrow> past_time w now g'"
  unfolding past_time_def extends_def by (metis append.assoc)

lemma past_time_later: "monotonic w \<Longrightarrow> past_time w now g \<Longrightarrow> now \<le> w_clock w (g_trace g @ tr)"
  unfolding past_time_def monotonic_def by (metis append.assoc)

definition advances :: "world \<Rightarrow> nat \<Rightarrow> keyring \<Rightarrow> keyring \<Rightarrow> bool" where
  "advances w t s s' \<longleftrightarrow>
     (\<exists>j. kr_jobs s' = (kr_jobs s)[t := j] \<and> timed w (kr_gw s') j \<and>
        requests (kr_gw s) (kr_gw s') + fetches_left j \<le> fetches_left (kr_jobs s ! t)) \<and>
     extends (kr_gw s) (kr_gw s') \<and> g_jwks (kr_gw s') \<noteq> None \<and>
     jw_cooldown (the_jwks (kr_gw s')) = jw_cooldown (the_jwks (kr_gw s)) \<and>
     (jw_last_attempt (the_jwks (kr_gw s')) = jw_last_attempt (the_jwks (kr_gw s)) \<or>
      (\<exists>tr. jw_last_attempt (the_jwks (kr_gw s')) = w_clock w (g_trace (kr_gw s) @ tr)))"

text \<open>A state on the way: no request so far, the same attempt.\<close>

definition on_the_way :: "keyring \<Rightarrow> keyring \<Rightarrow> bool" where
  "on_the_way s s1 \<longleftrightarrow>
     kr_jobs s1 = kr_jobs s \<and> extends (kr_gw s) (kr_gw s1) \<and> requests (kr_gw s) (kr_gw s1) = 0 \<and> g_jwks (kr_gw s1) \<noteq> None \<and>
     jw_cooldown (the_jwks (kr_gw s1)) = jw_cooldown (the_jwks (kr_gw s)) \<and>
     jw_last_attempt (the_jwks (kr_gw s1)) = jw_last_attempt (the_jwks (kr_gw s))"

lemma on_the_way_lock [simp]: "on_the_way s (s1\<lparr>kr_lock := l\<rparr>) = on_the_way s s1"
  by (simp add: on_the_way_def)

lemma job_advances:
  "on_the_way s s1 \<Longrightarrow> timed w (kr_gw s1) j \<Longrightarrow> fetches_left j \<le> fetches_left (kr_jobs s ! t) \<Longrightarrow>
     advances w t s (set_lookup t j s1)"
  by (auto simp: on_the_way_def advances_def)

lemma told_advances: "on_the_way s s1 \<Longrightarrow> advances w t s (set_lookup t (Told r) s1)"
  by (rule job_advances) simp_all

lemma begin_fetch_advances:
  assumes "on_the_way s s1" and "past_time w now (kr_gw s1)" and "monotonic w" and "fetches_left (kr_jobs s ! t) = 1"
  shows "advances w t s (begin_fetch w t now first s1)"
proof -
  let ?g = "kr_gw s1"
  let ?at = "w_clock w (g_trace ?g @ [EvClock])"
  let ?g1 = "upd_jwks (\<lambda>c. c\<lparr>jw_last_attempt := ?at\<rparr>) (emit EvClock ?g)"
  let ?g2 = "emit (EvHttp (jwks_request (jw_url (the_jwks ?g1)))) ?g1"
  have ext: "extends (kr_gw s) ?g" "extends ?g ?g2" using assms(1) by (simp_all add: on_the_way_def extends_def)
  have "requests ?g ?g2 = 1" by (simp add: requests_def new_events_def)
  then have req: "requests (kr_gw s) ?g2 = 1" using requests_trans [OF ext] assms(1) by (simp add: on_the_way_def)
  obtain tr where tr: "g_trace ?g = g_trace (kr_gw s) @ tr" using ext(1) by (auto simp: extends_def)
  have "timed w ?g2 (Fetching now first (g_trace ?g2))"
    using past_time_extends [OF assms(2) ext(2)] past_time_later [OF assms(3,2)] assms(1) by (simp add: on_the_way_def)
  moreover have "begin_fetch w t now first s1 = set_lookup t (Fetching now first (g_trace ?g2)) (s1\<lparr>kr_gw := ?g2\<rparr>)"
    by (simp add: begin_fetch_def read_clock_def Let_def)
  moreover have "jw_last_attempt (the_jwks ?g2) = w_clock w (g_trace (kr_gw s) @ tr @ [EvClock])"
    using assms(1) tr by (simp add: on_the_way_def)
  ultimately show ?thesis
    using assms(1,4) req extends_trans [OF ext] by (auto simp: advances_def on_the_way_def)
qed

lemma begin_wait_advances:
  assumes "on_the_way s s1" and "past_time w now (kr_gw s1)" and "monotonic w" and "fetches_left (kr_jobs s ! t) = 1"
  shows "advances w t s (begin_wait w t now first s1)"
  using begin_fetch_advances [of s "s1\<lparr>kr_lock := l\<rparr>" w now t first for l] job_advances [of s "s1\<lparr>kr_lock := l\<rparr>" w "Blocked now first" t for l] assms
  by (auto simp: begin_wait_def split: prod.split)

text \<open>After the refresh on entry the time is not later than the last attempt, so that no second one follows.\<close>

lemma first_look_advances:
  assumes "on_the_way s s1" and "past_time w now (kr_gw s1)" and "monotonic w"
    and "fetches_left (kr_jobs s ! t) = 1 \<or>
      now \<le> jw_last_attempt (the_jwks (kr_gw s1)) \<and> 0 \<le> jw_cooldown (the_jwks (kr_gw s1))"
  shows "advances w t s (first_look w kid t now s1)"
  using begin_wait_advances [OF assms(1-3), of t False] told_advances [OF assms(1), of w t] assms(4)
  by (auto simp: first_look_def split: sum.split option.split)

lemma begin_lookup_advances:
  assumes "g_jwks (kr_gw s) \<noteq> None" and "monotonic w" and "kr_jobs s ! t = Unasked"
  shows "advances w t s (begin_lookup w kid t s)"
proof -
  let ?s1 = "s\<lparr>kr_gw := emit EvClock (kr_gw s)\<rparr>"
  have way: "on_the_way s ?s1" using assms(1) by (simp add: on_the_way_def quiet_requests)
  have "g_trace (kr_gw ?s1) = (g_trace (kr_gw s) @ [EvClock]) @ []" by simp
  then have now: "past_time w (w_clock w (g_trace (kr_gw s) @ [EvClock])) (kr_gw ?s1)" unfolding past_time_def by blast
  have one: "fetches_left (kr_jobs s ! t) = 1" using assms(3) by simp
  from begin_wait_advances [OF way now assms(2) one, of True] first_look_advances [OF way now assms(2), of t kid] one
  show ?thesis by (simp add: begin_lookup_def read_clock_def Let_def)
qed

lemma keys_answer_way:
  assumes "keys_answer w tr (kr_gw s) = (r, g)" and "g_jwks (kr_gw s) \<noteq> None"
  shows "on_the_way s (s\<lparr>kr_gw := g, kr_lock := l\<rparr>)"
  using assms
  by (auto simp del: not_None_eq simp: keys_answer_def on_the_way_def read_clock_def Let_def quiet_requests extends_def
      requests_def new_events_def upd_jwks_def the_jwks_def split: option.splits sum.splits if_splits)

lemma receive_advances:
  assumes "g_jwks (kr_gw s) \<noteq> None" and "monotonic w" and "kr_jobs s ! t = Fetching now first tr"
    and "timed w (kr_gw s) (kr_jobs s ! t)" and "0 \<le> jw_cooldown (the_jwks (kr_gw s))"
  shows "advances w t s (receive_keys w kid t now first tr s)"
proof -
  obtain r g where ans: "keys_answer w tr (kr_gw s) = (r, g)" by fastforce
  let ?s1 = "s\<lparr>kr_gw := g, kr_lock := release (kr_lock s)\<rparr>"
  note way = keys_answer_way [OF ans assms(1), of "release (kr_lock s)"]
  have now: "past_time w now (kr_gw ?s1)" "now \<le> jw_last_attempt (the_jwks (kr_gw ?s1))"
    using assms(3,4) way past_time_extends [of w now "kr_gw s" g] by (simp_all add: on_the_way_def)
  have "0 \<le> jw_cooldown (the_jwks (kr_gw ?s1))" using way assms(5) by (simp add: on_the_way_def)
  with first_look_advances [OF way now(1) assms(2)] now(2) told_advances [OF way] have "advances w t s (go_on w kid t now first ?s1)"
    by (auto simp: go_on_def split: sum.split)
  with told_advances [OF way, of w t] show ?thesis
    using ans by (cases r) (simp_all add: receive_keys_def Let_def)
qed

text \<open>What holds of all tasks.\<close>

definition key_inv :: "world \<Rightarrow> gw \<Rightarrow> nat \<Rightarrow> keyring \<Rightarrow> bool" where
  "key_inv w g n s \<longleftrightarrow>
     extends g (kr_gw s) \<and> g_jwks (kr_gw s) \<noteq> None \<and> 0 \<le> jw_cooldown (the_jwks (kr_gw s)) \<and>
     (\<forall>j \<in> set (kr_jobs s). timed w (kr_gw s) j) \<and>
     requests g (kr_gw s) + sum_list (map fetches_left (kr_jobs s)) \<le> n"

lemma timed_kept:
  assumes "advances w t s s'" and "monotonic w" and "timed w (kr_gw s) j"
  shows "timed w (kr_gw s') j"
  using assms past_time_extends [of w _ "kr_gw s" "kr_gw s'"] past_time_later [OF assms(2), of _ "kr_gw s"]
  by (cases j) (auto simp: advances_def)

lemma advances_inv:
  assumes adv: "advances w t s s'" and "monotonic w" and inv: "key_inv w g n s" and t: "t < length (kr_jobs s)"
  shows "key_inv w g n s'"
proof -
  from adv obtain j where j: "kr_jobs s' = (kr_jobs s)[t := j]" "timed w (kr_gw s') j"
    "requests (kr_gw s) (kr_gw s') + fetches_left j \<le> fetches_left (kr_jobs s ! t)" by (auto simp: advances_def)
  have ext: "extends g (kr_gw s)" "extends (kr_gw s) (kr_gw s')" using inv adv by (simp_all add: key_inv_def advances_def)
  have "timed w (kr_gw s') j'" if "j' \<in> set (kr_jobs s')" for j'
    using that j inv timed_kept [OF adv assms(2)] set_update_subset_insert [of "kr_jobs s" t j] by (auto simp: key_inv_def)
  moreover have "sum_list (map fetches_left (kr_jobs s')) + fetches_left (kr_jobs s ! t) =
      sum_list (map fetches_left (kr_jobs s)) + fetches_left j"
    using elem_le_sum_list [of t "map fetches_left (kr_jobs s)"] t by (simp add: j(1) map_update sum_list_update)
  ultimately show ?thesis
    using inv adv j(3) requests_trans [OF ext] extends_trans [OF ext] by (auto simp: key_inv_def advances_def)
qed

text \<open>The task of an action.\<close>

fun actor :: "key_act \<Rightarrow> nat" where
  "actor (Look t) = t"
| "actor (Unblock t) = t"
| "actor (Receive t) = t"
| "actor (Abandon t) = t"

lemma key_step_advances:
  assumes "key_step w ks a s = Some s'" and "monotonic w" and inv: "key_inv w g n s"
  shows "actor a < length (kr_jobs s) \<and> advances w (actor a) s s'"
proof -
  have some: "g_jwks (kr_gw s) \<noteq> None" "0 \<le> jw_cooldown (the_jwks (kr_gw s))" using inv by (simp_all add: key_inv_def)
  have same: "on_the_way s s" using some by (simp add: on_the_way_def extends_def)
  have timed: "timed w (kr_gw s) (kr_jobs s ! t)" if "t < length (kr_jobs s)" for t using inv that by (simp add: key_inv_def)
  show ?thesis
  proof (cases a)
    case (Look t)
    then show ?thesis using assms(1) begin_lookup_advances [OF some(1) assms(2)] by (auto split: if_splits)
  next
    case (Unblock t)
    with assms(1) obtain now first l where "t < length (kr_jobs s)" "kr_jobs s ! t = Blocked now first"
      "s' = begin_fetch w t now first (s\<lparr>kr_lock := l\<rparr>)" by (auto split: if_splits lookup.splits)
    then show ?thesis
      using Unblock begin_fetch_advances [of s "s\<lparr>kr_lock := l\<rparr>" w now t first] same timed [of t] assms(2) by auto
  next
    case (Receive t)
    then show ?thesis using assms(1) receive_advances [OF some(1) assms(2) _ _ some(2)] timed [of t]
      by (auto split: if_splits lookup.splits)
  next
    case (Abandon t)
    have "advances w t s (set_lookup t Dropped (s\<lparr>kr_lock := l\<rparr>))" "advances w t s (set_lookup t Dropped s)" for l
      using same by (simp_all add: job_advances)
    then show ?thesis using assms(1) Abandon by (auto split: if_splits lookup.splits)
  qed
qed

lemma key_step_inv:
  "key_step w ks a s = Some s' \<Longrightarrow> monotonic w \<Longrightarrow> key_inv w g n s \<Longrightarrow> key_inv w g n s'"
  using key_step_advances advances_inv by blast

lemma key_run_inv: "key_run w ks as s = Some s' \<Longrightarrow> monotonic w \<Longrightarrow> key_inv w g n s \<Longrightarrow> key_inv w g n s'"
  by (induction "as" arbitrary: s) (auto intro: key_step_inv split: option.splits)

text \<open>
  The requests that a task makes in the steps of a schedule: what is sent while the task runs, from
  one place where it waits to the next.
\<close>

fun sent_by :: "world \<Rightarrow> json list \<Rightarrow> nat \<Rightarrow> key_act list \<Rightarrow> keyring \<Rightarrow> nat" where
  "sent_by w ks t [] s = 0"
| "sent_by w ks t (a # as) s =
     (case key_step w ks a s of
        None \<Rightarrow> 0
      | Some s' \<Rightarrow> (if actor a = t then requests (kr_gw s) (kr_gw s') else 0) + sent_by w ks t as s')"

lemma advances_sent:
  assumes "advances w u s s'" and "u < length (kr_jobs s)"
  shows "(if u = t then requests (kr_gw s) (kr_gw s') else 0) + fetches_left (kr_jobs s' ! t) \<le> fetches_left (kr_jobs s ! t)"
proof -
  from assms obtain j where j: "kr_jobs s' = (kr_jobs s)[u := j]"
    "requests (kr_gw s) (kr_gw s') + fetches_left j \<le> fetches_left (kr_jobs s ! u)" by (auto simp: advances_def)
  show ?thesis
  proof (cases "u = t")
    case True
    with j assms(2) show ?thesis by simp
  next
    case False
    with j show ?thesis by simp
  qed
qed

lemma sent_by_left:
  "key_run w ks as s = Some s' \<Longrightarrow> monotonic w \<Longrightarrow> key_inv w g n s \<Longrightarrow>
     sent_by w ks t as s + fetches_left (kr_jobs s' ! t) \<le> fetches_left (kr_jobs s ! t)"
proof (induction "as" arbitrary: s)
  case (Cons a "as")
  then obtain s1 where s1: "key_step w ks a s = Some s1" "key_run w ks as s1 = Some s'" by (auto split: option.splits)
  have "sent_by w ks t as s1 + fetches_left (kr_jobs s' ! t) \<le> fetches_left (kr_jobs s1 ! t)"
    by (rule Cons.IH [OF s1(2) Cons.prems(2) key_step_inv [OF s1(1) Cons.prems(2,3)]])
  moreover have "(if actor a = t then requests (kr_gw s) (kr_gw s1) else 0) + fetches_left (kr_jobs s1 ! t) \<le> fetches_left (kr_jobs s ! t)"
    using advances_sent key_step_advances [OF s1(1) Cons.prems(2,3)] by blast
  ultimately show ?case using s1(1) by simp
qed simp

lemma sum_one: "t < (n::nat) \<Longrightarrow> (\<Sum>u < n. if t = u then r else 0) = (r::nat)"
  by simp

lemma sent_by_sum:
  "key_run w ks as s = Some s' \<Longrightarrow> monotonic w \<Longrightarrow> key_inv w g n s \<Longrightarrow>
     requests (kr_gw s) (kr_gw s') = (\<Sum>t < length (kr_jobs s). sent_by w ks t as s) \<and> extends (kr_gw s) (kr_gw s')"
proof (induction "as" arbitrary: s)
  case (Cons a "as")
  then obtain s1 where s1: "key_step w ks a s = Some s1" "key_run w ks as s1 = Some s'" by (auto split: option.splits)
  have adv: "actor a < length (kr_jobs s)" "advances w (actor a) s s1"
    using key_step_advances [OF s1(1) Cons.prems(2,3)] by simp_all
  then have same: "length (kr_jobs s1) = length (kr_jobs s)" "extends (kr_gw s) (kr_gw s1)" by (auto simp: advances_def)
  have IH: "requests (kr_gw s1) (kr_gw s') = (\<Sum>t < length (kr_jobs s). sent_by w ks t as s1)" "extends (kr_gw s1) (kr_gw s')"
    using Cons.IH [OF s1(2) Cons.prems(2) key_step_inv [OF s1(1) Cons.prems(2,3)]] same(1) by simp_all
  have "requests (kr_gw s) (kr_gw s') = requests (kr_gw s) (kr_gw s1) + requests (kr_gw s1) (kr_gw s')"
    by (rule requests_trans [OF same(2) IH(2)])
  also have "\<dots> = (\<Sum>t < length (kr_jobs s). sent_by w ks t (a # as) s)"
    using s1(1) by (simp add: sum.distrib sum_one [OF adv(1)] IH(1))
  finally show ?case using extends_trans [OF same(2) IH(2)] by blast
qed (simp add: extends_def)

text \<open>
  C18: of n lookups side by side each makes at most one request to the key server, in whatever order
  they run; all requests are theirs, so there are at most n, and no two are under way at the same
  time.
\<close>

theorem lookups_fetch_once_each:
  assumes "key_run w ks as (keyring_start g n) = Some s"
    and "monotonic w" and "g_jwks g \<noteq> None" and "0 \<le> jw_cooldown (the_jwks g)"
  shows "(\<forall>t < n. sent_by w ks t as (keyring_start g n) \<le> 1) \<and>
    requests g (kr_gw s) = (\<Sum>t < n. sent_by w ks t as (keyring_start g n)) \<and> requests g (kr_gw s) \<le> n \<and>
    (\<forall>t u. t < length (kr_jobs s) \<and> u < length (kr_jobs s) \<and> is_fetching (kr_jobs s ! t) \<and> is_fetching (kr_jobs s ! u) \<longrightarrow> t = u)"
proof -
  let ?s0 = "keyring_start g n"
  have inv: "key_inv w g n ?s0"
    using assms(3,4) by (simp add: key_inv_def keyring_start_def extends_def sum_list_replicate)
  have "\<forall>t < n. sent_by w ks t as ?s0 \<le> 1"
  proof (intro allI impI)
    fix t assume "t < n"
    with sent_by_left [OF assms(1,2) inv, of t] show "sent_by w ks t as ?s0 \<le> 1" by (simp add: keyring_start_def)
  qed
  moreover have "requests g (kr_gw s) = (\<Sum>t < n. sent_by w ks t as ?s0)"
    using sent_by_sum [OF assms(1,2) inv] by (simp add: keyring_start_def)
  moreover from key_run_inv [OF assms(1,2) inv] have "requests g (kr_gw s) \<le> n" by (simp add: key_inv_def)
  moreover have "key_begins ?s0" by (auto simp: key_begins_def)
  from key_lock.one_holder [OF key_run_moves [OF assms(1)] this key_view_def] have
    "\<forall>t u. t < length (kr_jobs s) \<and> u < length (kr_jobs s) \<and> is_fetching (kr_jobs s ! t) \<and> is_fetching (kr_jobs s ! u) \<longrightarrow> t = u"
    by (simp add: lookups_def)
  ultimately show ?thesis by blast
qed

text \<open>
  The bound is reached: three lookups that find the cache empty send three requests, although the
  first answer already has the key, since a task does not look again once it holds the lock.
\<close>

definition keys_world :: world where
  "keys_world = sample_world
     \<lparr>w_http := (\<lambda>_. Response \<lparr>rs_status = 200, rs_headers = [],
        rs_text = json_dumps False (JObj [(''keys'', JList [JObj [(''kid'', JStr ''k1'')]])])\<rparr>)\<rparr>"

definition three_kids :: "json list" where
  "three_kids = [JStr ''k1'', JStr ''k1'', JStr ''k1'']"

definition herd :: keyring where
  "herd = the (key_run keys_world three_kids [Look 0, Look 1, Look 2, Receive 0, Unblock 1, Receive 1, Unblock 2, Receive 2]
     (keyring_start jwks_gw 3))"

lemma herd_fetches_three:
  "key_run keys_world three_kids [Look 0, Look 1, Look 2, Receive 0, Unblock 1, Receive 1, Unblock 2, Receive 2]
     (keyring_start jwks_gw 3) \<noteq> None"
  "requests jwks_gw (kr_gw herd) = 3"
  by code_simp+

lemma lookups_fetch_once_each_witness:
  "sent_by keys_world three_kids 1 [Look 0, Look 1, Look 2, Receive 0, Unblock 1, Receive 1, Unblock 2, Receive 2]
     (keyring_start jwks_gw 3) \<le> 1 \<and> requests jwks_gw (kr_gw herd) \<le> 3"
proof -
  have run: "key_run keys_world three_kids [Look 0, Look 1, Look 2, Receive 0, Unblock 1, Receive 1, Unblock 2, Receive 2]
      (keyring_start jwks_gw 3) = Some herd"
    unfolding herd_def using herd_fetches_three(1) by (rule option.collapse [symmetric])
  have "monotonic keys_world" by (simp add: monotonic_def keys_world_def sample_world_def)
  moreover have "g_jwks jwks_gw \<noteq> None" "0 \<le> jw_cooldown (the_jwks jwks_gw)"
    by (simp_all add: jwks_gw_def the_jwks_def jwks_cache_init_def)
  ultimately show ?thesis using lookups_fetch_once_each [OF run] by (simp del: sent_by.simps)
qed

section \<open>A lookup that runs alone\<close>

fun get_each :: "world \<Rightarrow> json list \<Rightarrow> gw \<Rightarrow> json res list \<times> gw" where
  "get_each w [] g = ([], g)"
| "get_each w (k # ks) g = (case jwks_get w k g of (r, g) \<Rightarrow> (case get_each w ks g of (rs, g) \<Rightarrow> (r # rs, g)))"

lemma receive_keys_unfold:
  "keys_answer w tr (kr_gw s) = (r, g) \<Longrightarrow> receive_keys w kid t now first tr s =
     (case r of
        Inl e \<Rightarrow> set_lookup t (Told (Inl e)) (s\<lparr>kr_gw := g, kr_lock := release (kr_lock s)\<rparr>)
      | Inr u \<Rightarrow> go_on w kid t now first (s\<lparr>kr_gw := g, kr_lock := release (kr_lock s)\<rparr>))"
  by (simp add: receive_keys_def Let_def)

lemma begin_wait_alone:
  assumes "t < length ks" "t < length (kr_jobs s)" and "kr_lock s = new_lock"
  obtains "as" s1 where "key_run w ks as (begin_wait w t now first s) =
      Some (case jwks_refresh w (kr_gw s) of
          (Inl e, g) \<Rightarrow> set_lookup t (Told (Inl e)) s1
        | (Inr u, g) \<Rightarrow> go_on w (ks ! t) t now first s1)"
    "kr_gw s1 = snd (jwks_refresh w (kr_gw s))" "kr_lock s1 = new_lock" "\<exists>j. kr_jobs s1 = (kr_jobs s)[t := j]"
proof -
  let ?g = "kr_gw s"
  let ?g1 = "upd_jwks (\<lambda>c. c\<lparr>jw_last_attempt := w_clock w (g_trace ?g @ [EvClock])\<rparr>) (emit EvClock ?g)"
  let ?g2 = "emit (EvHttp (jwks_request (jw_url (the_jwks ?g1)))) ?g1"
  let ?l = "\<lparr>lk_locked = True, lk_waiters = []\<rparr>"
  let ?s0 = "set_lookup t (Fetching now first (g_trace ?g2)) (s\<lparr>kr_lock := ?l, kr_gw := ?g2\<rparr>)"
  have acq: "acquire t new_lock = (True, ?l)" "release ?l = new_lock" by (simp_all add: acquire_def release_def new_lock_def)
  have wait: "begin_wait w t now first s = ?s0"
    using assms(3) acq by (simp add: begin_wait_def begin_fetch_def read_clock_def Let_def)
  obtain r g where ans: "keys_answer w (g_trace ?g2) ?g2 = (r, g)" by fastforce
  have ref: "jwks_refresh w ?g = (r, g)"
    using ans by (simp add: jwks_refresh_def keys_answer_def read_clock_def http_request_def Let_def split: option.splits)
  let ?s1 = "?s0\<lparr>kr_gw := g, kr_lock := release (kr_lock ?s0)\<rparr>"
  have run: "key_run w ks [Receive t] ?s0 = Some (receive_keys w (ks ! t) t now first (g_trace ?g2) ?s0)"
    using assms(1,2) by simp
  have recv: "receive_keys w (ks ! t) t now first (g_trace ?g2) ?s0 =
      (case r of Inl e \<Rightarrow> set_lookup t (Told (Inl e)) ?s1 | Inr u \<Rightarrow> go_on w (ks ! t) t now first ?s1)"
    by (rule receive_keys_unfold) (use ans in simp)
  show thesis
  proof (rule that [of "[Receive t]" ?s1])
    show "key_run w ks [Receive t] (begin_wait w t now first s) =
        Some (case jwks_refresh w (kr_gw s) of
          (Inl e, g) \<Rightarrow> set_lookup t (Told (Inl e)) ?s1 | (Inr u, g) \<Rightarrow> go_on w (ks ! t) t now first ?s1)"
      unfolding wait run recv ref by (cases r) simp_all
  qed (use ref acq in auto)
qed

text \<open>\<open>get\<close> after the refresh on entry.\<close>

definition get_rest :: "world \<Rightarrow> json \<Rightarrow> rat \<Rightarrow> gw \<Rightarrow> json res \<times> gw" where
  "get_rest w kid now g =
     (case hash_key kid of
         Inl e \<Rightarrow> (Inl e, g)
       | Inr k \<Rightarrow>
           (case key_lookup (jw_keys (the_jwks g)) k of
              Some key \<Rightarrow> (Inr key, g)
            | None \<Rightarrow>
                andThen (jwks_refresh_if (now - jw_last_attempt (the_jwks g) > jw_cooldown (the_jwks g)) w g)
                  (\<lambda>_ g. (second_look kid k g, g))))"

lemma jwks_get_rest:
  "jwks_get w kid g =
     (case read_clock w g of (now, g) \<Rightarrow>
      andThen (jwks_refresh_if (jw_keys (the_jwks g) = [] \<or> now - jw_fetched_at (the_jwks g) > jw_ttl (the_jwks g)) w g)
        (\<lambda>_. get_rest w kid now))"
proof -
  have look: "(case key_lookup (jw_keys (the_jwks g)) k of Some key \<Rightarrow> (Inr key, g) | None \<Rightarrow> (Inl (kid_not_found kid), g)) =
      (second_look kid k g, g)" for k g
    by (simp add: second_look_def split: option.split)
  show ?thesis unfolding jwks_get_def get_rest_def look ..
qed

lemma first_look_alone:
  assumes "t < length ks" "t < length (kr_jobs s)" and "kr_lock s = new_lock"
    and rest: "get_rest w (ks ! t) now (kr_gw s) = (r, g)"
  obtains "as" s' where "key_run w ks as (first_look w (ks ! t) t now s) = Some s'"
    "kr_jobs s' = (kr_jobs s)[t := Told r]" "kr_gw s' = g" "kr_lock s' = new_lock"
proof -
  note result = that
  consider (told) "first_look w (ks ! t) t now s = set_lookup t (Told r) s" "g = kr_gw s"
    | (wait) k where "first_look w (ks ! t) t now s = begin_wait w t now False s" "hash_key (ks ! t) = Inr k"
      "andThen (jwks_refresh w (kr_gw s)) (\<lambda>_ g. (second_look (ks ! t) k g, g)) = (r, g)"
  proof (cases "hash_key (ks ! t)")
    case (Inl e)
    with rest have "r = Inl e" "g = kr_gw s" by (simp_all add: get_rest_def)
    then show thesis by (intro told) (simp_all add: first_look_def Inl)
  next
    case k: (Inr k)
    show thesis
    proof (cases "key_lookup (jw_keys (the_jwks (kr_gw s))) k")
      case None
      show thesis
      proof (cases "now - jw_last_attempt (the_jwks (kr_gw s)) > jw_cooldown (the_jwks (kr_gw s))")
        case True
        with rest k None have "andThen (jwks_refresh w (kr_gw s)) (\<lambda>_ g. (second_look (ks ! t) k g, g)) = (r, g)"
          by (simp add: get_rest_def jwks_refresh_if_def)
        with True k None show thesis by (intro wait [of k]) (simp_all add: first_look_def)
      next
        case False
        with rest k None have "r = second_look (ks ! t) k (kr_gw s)" "g = kr_gw s"
          by (auto simp: get_rest_def jwks_refresh_if_def)
        with False k None show thesis by (intro told) (simp_all add: first_look_def)
      qed
    next
      case (Some key)
      with rest k have "r = Inr key" "g = kr_gw s" by (simp_all add: get_rest_def)
      with Some k show thesis by (intro told) (simp_all add: first_look_def)
    qed
  qed
  then show thesis
  proof cases
    case told
    then show thesis using assms(3) by (intro result [of "[]" "set_lookup t (Told r) s"]) simp_all
  next
    case wait
    obtain r1 g1 where ref: "jwks_refresh w (kr_gw s) = (r1, g1)" by fastforce
    show thesis
    proof (rule begin_wait_alone [OF assms(1-3), of w now False])
      fix "as" s1
      assume run: "key_run w ks as (begin_wait w t now False s) =
          Some (case jwks_refresh w (kr_gw s) of
              (Inl e, g) \<Rightarrow> set_lookup t (Told (Inl e)) s1 | (Inr u, g) \<Rightarrow> go_on w (ks ! t) t now False s1)"
        and s1: "kr_gw s1 = snd (jwks_refresh w (kr_gw s))" "kr_lock s1 = new_lock" "\<exists>j. kr_jobs s1 = (kr_jobs s)[t := j]"
      show thesis
        by (rule result [of "as" "set_lookup t (Told r) s1"])
          (use run s1 wait ref in \<open>cases r1; auto simp: go_on_def\<close>)+
    qed
  qed
qed

lemma lookup_alone:
  assumes "t < length ks" "t < length (kr_jobs s)" "kr_jobs s ! t = Unasked" and "kr_lock s = new_lock"
    and get: "jwks_get w (ks ! t) (kr_gw s) = (r, g)"
  obtains "as" s' where "key_run w ks as s = Some s'" "kr_jobs s' = (kr_jobs s)[t := Told r]" "kr_gw s' = g"
    "kr_lock s' = new_lock"
proof -
  note result = that
  let ?now = "w_clock w (g_trace (kr_gw s) @ [EvClock])"
  let ?s0 = "s\<lparr>kr_gw := emit EvClock (kr_gw s)\<rparr>"
  let ?old = "jw_keys (the_jwks (kr_gw s)) = [] \<or> ?now - jw_fetched_at (the_jwks (kr_gw s)) > jw_ttl (the_jwks (kr_gw s))"
  have step: "key_run w ks (Look t # as) s = key_run w ks as (begin_lookup w (ks ! t) t s)" for "as"
    using assms by simp
  show thesis
  proof (cases ?old)
    case False
    then have "get_rest w (ks ! t) ?now (kr_gw ?s0) = (r, g)"
      using get by (simp add: jwks_get_rest read_clock_def Let_def jwks_refresh_if_def)
    from first_look_alone [OF assms(1) _ _ this] assms(2,4) obtain "as" s' where
      "key_run w ks as (first_look w (ks ! t) t ?now ?s0) = Some s'" "kr_jobs s' = (kr_jobs s)[t := Told r]" "kr_gw s' = g"
      "kr_lock s' = new_lock" by auto
    with False show thesis
      by (intro result [of "Look t # as" s']) (simp_all add: step begin_lookup_def read_clock_def Let_def del: key_run.simps)
  next
    case True
    have beg: "begin_lookup w (ks ! t) t s = begin_wait w t ?now True ?s0"
      using True by (simp add: begin_lookup_def read_clock_def Let_def)
    obtain r1 g1 where ref: "jwks_refresh w (kr_gw ?s0) = (r1, g1)" by fastforce
    have all: "andThen (r1, g1) (\<lambda>_. get_rest w (ks ! t) ?now) = (r, g)"
      using get True ref by (simp add: jwks_get_rest read_clock_def Let_def jwks_refresh_if_def)
    show thesis
    proof (rule begin_wait_alone [of t ks ?s0 w ?now True])
      fix "as" s1
      assume run: "key_run w ks as (begin_wait w t ?now True ?s0) =
          Some (case jwks_refresh w (kr_gw ?s0) of
              (Inl e, g) \<Rightarrow> set_lookup t (Told (Inl e)) s1 | (Inr u, g) \<Rightarrow> go_on w (ks ! t) t ?now True s1)"
        and s1: "kr_gw s1 = snd (jwks_refresh w (kr_gw ?s0))" "kr_lock s1 = new_lock" "\<exists>j. kr_jobs s1 = (kr_jobs ?s0)[t := j]"
      show thesis
      proof (cases r1)
        case (Inl e)
        show thesis
          by (rule result [of "Look t # as" "set_lookup t (Told r) s1"])
            (use run s1 all ref Inl in \<open>auto simp: step beg simp del: key_run.simps\<close>)
      next
        case (Inr u)
        have "get_rest w (ks ! t) ?now (kr_gw s1) = (r, g)" using all Inr s1(1) ref by simp
        have len: "t < length (kr_jobs s1)" using s1(3) assms(2) by auto
        obtain bs s' where
          bs: "key_run w ks bs (first_look w (ks ! t) t ?now s1) = Some s'" "kr_jobs s' = (kr_jobs s1)[t := Told r]"
            "kr_gw s' = g" "kr_lock s' = new_lock"
          by (rule first_look_alone [OF assms(1) len s1(2) \<open>get_rest w (ks ! t) ?now (kr_gw s1) = (r, g)\<close>])
        show thesis
          by (rule result [of "Look t # as @ bs" s'])
            (use run ref Inr bs s1(3) in \<open>auto simp: step beg go_on_def key_run_append simp del: key_run.simps\<close>)
      qed
    qed (use assms in simp_all)
  qed
qed

text \<open>lookups that run one after the other, each to its end, return and leave behind what \<open>get\<close> of Jwks does.\<close>

lemma lookups_refine_get:
  "\<exists>as s. key_run w ks as (keyring_start g (length ks)) = Some s \<and>
    kr_jobs s = map Told (fst (get_each w ks g)) \<and> kr_gw s = snd (get_each w ks g)"
proof -
  have "\<exists>as s. key_run w (past @ ks) as s0 = Some s \<and> kr_jobs s = js @ map Told (fst (get_each w ks (kr_gw s0))) \<and>
      kr_gw s = snd (get_each w ks (kr_gw s0))"
    if "kr_lock s0 = new_lock" "kr_jobs s0 = js @ replicate (length ks) Unasked" "length js = length past" for past js s0
    using that
  proof (induction ks arbitrary: past js s0)
    case Nil
    then show ?case by (intro exI [of _ "[]"]) simp
  next
    case (Cons k ks)
    let ?ks = "past @ k # ks"
    obtain r g where get: "jwks_get w k (kr_gw s0) = (r, g)" by fastforce
    have t: "length past < length ?ks" "length past < length (kr_jobs s0)" "kr_jobs s0 ! length past = Unasked"
      "?ks ! length past = k"
      using Cons.prems by (simp_all add: nth_append)
    obtain "as" s1 where r1: "key_run w ?ks as s0 = Some s1" "kr_jobs s1 = (kr_jobs s0)[length past := Told r]"
      "kr_gw s1 = g" "kr_lock s1 = new_lock"
      using lookup_alone [OF t(1-3) Cons.prems(1), of w r g] get unfolding t(4) by metis
    have "kr_jobs s1 = (js @ [Told r]) @ replicate (length ks) Unasked"
      using r1(2) Cons.prems(2,3) by (simp add: list_update_append)
    with Cons.IH [of s1 "js @ [Told r]" "past @ [k]"] r1(4) Cons.prems(3) obtain bs s
      where "key_run w ?ks bs s1 = Some s" "kr_jobs s = (js @ [Told r]) @ map Told (fst (get_each w ks g))"
        "kr_gw s = snd (get_each w ks g)"
      using r1(3) by auto
    then show ?case using r1(1) get by (intro exI [of _ "as @ bs"]) (simp add: key_run_append split: prod.split)
  qed
  from this [of "keyring_start g (length ks)" "[]" "[]"] show ?thesis
    by (simp add: keyring_start_def)
qed

end
