(* ===== verification/Protocol.thy ===== *)
theory Protocol
  imports PyJson
begin

text \<open>
  \<open>app/mcp/protocol.py\<close>: the constants and envelopes of JSON-RPC.
\<close>

definition SUPPORTED_PROTOCOL_VERSION :: string where
  "SUPPORTED_PROTOCOL_VERSION = ''2024-11-05''"

definition SERVER_CAPABILITIES :: json where
  "SERVER_CAPABILITIES = JObj [(''tools'', JObj [(''listChanged'', JBool True)])]"

definition METHOD_NOT_FOUND :: int where "METHOD_NOT_FOUND = -32601"

definition INVALID_PARAMS :: int where "INVALID_PARAMS = -32602"

definition INTERNAL_ERROR :: int where "INTERNAL_ERROR = -32603"

definition TOOL_NOT_FOUND :: int where "TOOL_NOT_FOUND = -32001"

definition jsonrpc_result :: "json \<Rightarrow> json \<Rightarrow> json" where
  "jsonrpc_result req_id result =
     JObj [(''jsonrpc'', JStr ''2.0''), (''id'', req_id), (''result'', result)]"

definition jsonrpc_error :: "json \<Rightarrow> int \<Rightarrow> string \<Rightarrow> json option \<Rightarrow> json" where
  "jsonrpc_error req_id code message data =
     JObj [(''jsonrpc'', JStr ''2.0''), (''id'', req_id),
           (''error'', JObj ([(''code'', JInt code), (''message'', JStr message)]
                             @ (case data of None \<Rightarrow> [] | Some d \<Rightarrow> [(''data'', d)])))]"

text \<open>Reading a response: its id, and whether it is a result.\<close>

definition response_id :: "json \<Rightarrow> json" where
  "response_id r = (case r of JObj d \<Rightarrow> jget d ''id'' | _ \<Rightarrow> JNull)"

definition is_result :: "json \<Rightarrow> bool" where
  "is_result r = (case r of JObj d \<Rightarrow> map_of d ''result'' \<noteq> None | _ \<Rightarrow> False)"

definition error_code :: "json \<Rightarrow> int option" where
  "error_code r =
     (case r of
        JObj d \<Rightarrow> (case jget d ''error'' of
                    JObj e \<Rightarrow> (case jget e ''code'' of JInt c \<Rightarrow> Some c | _ \<Rightarrow> None) | _ \<Rightarrow> None)
      | _ \<Rightarrow> None)"

lemma response_simps [simp]:
  "response_id (jsonrpc_result i r) = i" "response_id (jsonrpc_error i c m d) = i"
  "is_result (jsonrpc_result i r)" "\<not> is_result (jsonrpc_error i c m d)"
  "error_code (jsonrpc_error i c m d) = Some c" "error_code (jsonrpc_result i r) = None"
  by (simp_all add: response_id_def is_result_def error_code_def jsonrpc_result_def jsonrpc_error_def jget_def)

lemma error_not_result [simp]: "jsonrpc_error i c m d \<noteq> jsonrpc_result j r"
  by (simp add: jsonrpc_result_def jsonrpc_error_def)

end
