(* ===== verification/AuditLog.thy ===== *)
theory AuditLog
  imports GwState
begin

text \<open>
  \<open>app/audit/writer.py\<close>: one row for a tool call. Writing never fails for the caller; the row is
  lost when the database raises or when a value does not fit its column (the widths of
  \<open>app/db/models.py\<close>). The locale \<open>audit_sink\<close> is what a caller may rely on.
\<close>

section \<open>Writing a row\<close>

text \<open>The keyword arguments of \<open>write_audit\<close> and of \<open>AuditWriter.log\<close>.\<close>

record audit_entry =
  ae_trace_id :: string
  ae_ctx :: auth_ctx
  ae_tool_name :: string
  ae_arguments :: json
  ae_status :: audit_status
  ae_tool_id :: "int option"
  ae_sensitive_fields_hit :: "string list"
  ae_deny_reason :: "string option"
  ae_error_message :: "string option"
  ae_error_code :: "int option"
  ae_error_kind :: "string option"
  ae_latency_ms :: "int option"
  ae_started_at :: "int option"

fun audit_arguments :: "json \<Rightarrow> json" where
  "audit_arguments (JObj d) = JObj d"
| "audit_arguments JNull = JNull"
| "audit_arguments v = JObj [(''_raw'', v)]"

definition audit_row_of :: "audit_entry \<Rightarrow> int \<Rightarrow> int \<Rightarrow> audit_row" where
  "audit_row_of e now rid =
     \<lparr>a_id = rid, a_trace_id = ae_trace_id e, a_user_id = user_id (ae_ctx e),
      a_user_email = email (ae_ctx e), a_roles = roles (ae_ctx e), a_tool_name = ae_tool_name e,
      a_tool_id = ae_tool_id e, a_arguments = audit_arguments (ae_arguments e),
      a_sensitive_fields_hit = ae_sensitive_fields_hit e, a_status = ae_status e,
      a_deny_reason = ae_deny_reason e, a_error_message = ae_error_message e,
      a_error_code = ae_error_code e, a_error_kind = ae_error_kind e,
      a_latency_ms = ae_latency_ms e,
      a_started_at = (case ae_started_at e of None \<Rightarrow> now | Some t \<Rightarrow> t), a_finished_at = now\<rparr>"

section \<open>Column widths\<close>

definition fits_text :: "nat \<Rightarrow> string option \<Rightarrow> bool" where
  "fits_text n o' = (case o' of None \<Rightarrow> True | Some s \<Rightarrow> cp_length s \<le> n)"

definition fits_int32 :: "int option \<Rightarrow> bool" where
  "fits_int32 o' = (case o' of None \<Rightarrow> True | Some i \<Rightarrow> - (2 ^ 31) \<le> i \<and> i < 2 ^ 31)"

fun fits_email :: "json \<Rightarrow> bool" where
  "fits_email JNull = True"
| "fits_email (JStr s) = (cp_length s \<le> 255)"
| "fits_email v = False"

definition audit_fits :: "audit_row \<Rightarrow> bool" where
  "audit_fits r \<longleftrightarrow>
     cp_length (a_user_id r) \<le> 128 \<and> fits_email (a_user_email r) \<and> cp_length (a_tool_name r) \<le> 128 \<and>
     fits_text 255 (a_deny_reason r) \<and> fits_text 64 (a_error_kind r) \<and>
     fits_int32 (a_error_code r) \<and> fits_int32 (a_latency_ms r)"

definition append_audit :: "audit_row \<Rightarrow> gw \<Rightarrow> gw" where
  "append_audit r g =
     g\<lparr>g_db := (g_db g)\<lparr>db_audit := db_audit (g_db g) @ [r], db_audit_seq := db_audit_seq (g_db g) + 1\<rparr>\<rparr>"

text \<open>
  \<open>write_audit\<close>: reads the time, then inserts and commits; whatever the database raises is logged
  and dropped.
\<close>

definition write_audit :: "world \<Rightarrow> audit_entry \<Rightarrow> gw \<Rightarrow> gw" where
  "write_audit w e g =
     (case read_now w g of (now, g) \<Rightarrow>
       (case db_call w ''INSERT tool_audit_log'' g of
          (Inl exc, g) \<Rightarrow> g
        | (Inr _, g) \<Rightarrow>
            (let r = audit_row_of e now (db_audit_seq (g_db g))
             in if audit_fits r then append_audit r g else g)))"

definition audit_log :: "world \<Rightarrow> audit_entry \<Rightarrow> gw \<Rightarrow> gw" where
  "audit_log w e g = write_audit w e g"

section \<open>What a caller relies on\<close>

text \<open>
  A sink appends at most one record for an entry, built from the entry, and touches nothing else
  that the caller can observe through \<open>rest\<close>.
\<close>

locale audit_sink =
  fixes put :: "'e \<Rightarrow> 's \<Rightarrow> 's"
    and rows :: "'s \<Rightarrow> 'r list"
    and describes :: "'e \<Rightarrow> 'r \<Rightarrow> bool"
    and rest :: "'s \<Rightarrow> 'x"
  assumes put_cases: "rows (put e s) = rows s \<or> (\<exists>r. rows (put e s) = rows s @ [r] \<and> describes e r)"
    and put_rest: "rest (put e s) = rest s"
begin

lemma at_most_one: "length (rows (put e s)) \<le> Suc (length (rows s))"
  using put_cases [of e s] by auto

text \<open>A history of entries: earlier records stay in front, and every new one describes an entry.\<close>

lemma append_only:
  "\<exists>rs. rows (fold put es s) = rows s @ rs \<and> length rs \<le> length es \<and>
     (\<forall>r \<in> set rs. \<exists>e \<in> set es. describes e r)"
proof (induction es arbitrary: s)
  case (Cons e es)
  obtain rs where rs: "rows (fold put es (put e s)) = rows (put e s) @ rs" "length rs \<le> length es"
    "\<forall>r \<in> set rs. \<exists>e \<in> set es. describes e r"
    using Cons.IH by blast
  from put_cases [of e s] show ?case
  proof
    assume "rows (put e s) = rows s"
    with rs show ?thesis by (intro exI [of _ rs]) auto
  next
    assume "\<exists>r. rows (put e s) = rows s @ [r] \<and> describes e r"
    then obtain r where "rows (put e s) = rows s @ [r]" "describes e r" by blast
    with rs show ?thesis by (intro exI [of _ "r # rs"]) auto
  qed
qed simp

lemma fold_rest: "rest (fold put es s) = rest s"
  by (induction es arbitrary: s) (simp_all add: put_rest)

end

definition audit_describes :: "audit_entry \<Rightarrow> audit_row \<Rightarrow> bool" where
  "audit_describes e r \<longleftrightarrow> (\<exists>now rid. r = audit_row_of e now rid)"

text \<open>The tables other than the audit log, and the rest of the state but the trace.\<close>

definition beside_audit :: "gw \<Rightarrow> db \<times> tool_cache \<times> jwks_cache option \<times> ((string \<times> string) \<times> string) list" where
  "beside_audit g = ((g_db g)\<lparr>db_audit := [], db_audit_seq := 0\<rparr>, g_cache g, g_jwks g, g_proxy_sessions g)"

lemma append_audit_simps [simp]:
  "g_trace (append_audit r g) = g_trace g" "g_cache (append_audit r g) = g_cache g"
  "g_jwks (append_audit r g) = g_jwks g" "g_proxy_sessions (append_audit r g) = g_proxy_sessions g"
  "db_audit (g_db (append_audit r g)) = db_audit (g_db g) @ [r]"
  "beside_audit (append_audit r g) = beside_audit g"
  by (simp_all add: append_audit_def beside_audit_def)

lemma beside_audit_emit [simp]: "beside_audit (emit e g) = beside_audit g"
  by (simp add: beside_audit_def)

lemma write_audit_cases:
  obtains (lost) "write_audit w e g = emit (EvDb ''INSERT tool_audit_log'') (emit EvNow g)"
  | (written) "write_audit w e g =
      append_audit (audit_row_of e (w_now w (g_trace g @ [EvNow])) (db_audit_seq (g_db g)))
        (emit (EvDb ''INSERT tool_audit_log'') (emit EvNow g))"
      "w_db_error w (g_trace g @ [EvNow, EvDb ''INSERT tool_audit_log'']) = None"
      "audit_fits (audit_row_of e (w_now w (g_trace g @ [EvNow])) (db_audit_seq (g_db g)))"
  by (cases "w_db_error w (g_trace g @ [EvNow, EvDb ''INSERT tool_audit_log''])";
      cases "audit_fits (audit_row_of e (w_now w (g_trace g @ [EvNow])) (db_audit_seq (g_db g)))")
     (auto simp: write_audit_def read_now_def db_call_def Let_def)

interpretation audit: audit_sink "audit_log w" "\<lambda>g. db_audit (g_db g)" audit_describes beside_audit
  for w
proof
  fix e g
  show "db_audit (g_db (audit_log w e g)) = db_audit (g_db g) \<or>
      (\<exists>r. db_audit (g_db (audit_log w e g)) = db_audit (g_db g) @ [r] \<and> audit_describes e r)"
    unfolding audit_log_def audit_describes_def
    by (cases rule: write_audit_cases [of w e g]) auto
  show "beside_audit (audit_log w e g) = beside_audit g"
    unfolding audit_log_def by (cases rule: write_audit_cases [of w e g]) simp_all
qed

lemma audit_log_quiet: "quiet g (audit_log w e g)"
proof -
  have "quiet g (emit (EvDb ''INSERT tool_audit_log'') (emit EvNow g))"
    by (rule quiet_trans [of _ "emit EvNow g"]) simp_all
  then show ?thesis
    unfolding audit_log_def
    by (cases rule: write_audit_cases [of w e g]) (simp_all add: quiet_def extends_def new_events_def)
qed

text \<open>The row is written when the database accepts it and every value fits.\<close>

lemma audit_log_written:
  assumes "\<And>t. w_db_error w t = None" and "\<And>now rid. audit_fits (audit_row_of e now rid)"
  shows "\<exists>now rid. db_audit (g_db (audit_log w e g)) = db_audit (g_db g) @ [audit_row_of e now rid]"
  using assms by (auto simp: audit_log_def write_audit_def read_now_def db_call_def Let_def)

end
