(* ===== verification/Sensitive.thy ===== *)
theory Sensitive
  imports PyJson
begin

text \<open>
  \<open>app/sensitive.py\<close>: the scanner that lists the dotted paths of sensitive argument names. The
  abstract specification is the relation \<open>occurs\<close>: a key occurs in a value at a path. The
  lemmas show that the scanner lists exactly the paths at which a sensitive key occurs, once for
  every occurrence, and that it reads names only, never values.
\<close>

section \<open>The scanner\<close>

text \<open>
  \<open>_SENSITIVE_RE\<close>: one of the alternatives occurs in the name, in any case; \<open>api[_-]?key\<close> is
  three words.
\<close>

definition sensitive_words :: "string list" where
  "sensitive_words =
     [''password'', ''token'', ''secret'', ''apikey'', ''api_key'', ''api-key'', ''authorization'', ''credential'']"

definition sensitive_re :: "string \<Rightarrow> bool" where
  "sensitive_re key = list_ex (\<lambda>word. contains word (lower key)) sensitive_words"

definition full_key :: "string \<Rightarrow> string \<Rightarrow> string" where
  "full_key prefix key = (if prefix \<noteq> [] then prefix @ ''.'' @ key else key)"

definition index_key :: "string \<Rightarrow> nat \<Rightarrow> string" where
  "index_key prefix idx = prefix @ ''['' @ nat_str idx @ '']''"

fun walk :: "json \<Rightarrow> string \<Rightarrow> string list"
and walk_items :: "(string \<times> json) list \<Rightarrow> string \<Rightarrow> string list"
and walk_elems :: "json list \<Rightarrow> nat \<Rightarrow> string \<Rightarrow> string list" where
  "walk (JObj kvs) prefix = walk_items kvs prefix"
| "walk (JList xs) prefix = walk_elems xs 0 prefix"
| "walk _ prefix = []"
| "walk_items [] prefix = []"
| "walk_items ((key, sub) # kvs) prefix =
     (if sensitive_re key then [full_key prefix key] else [])
     @ walk sub (full_key prefix key) @ walk_items kvs prefix"
| "walk_elems [] idx prefix = []"
| "walk_elems (sub # xs) idx prefix = walk sub (index_key prefix idx) @ walk_elems xs (Suc idx) prefix"

definition scan_sensitive_fields :: "json \<Rightarrow> string list" where
  "scan_sensitive_fields value = walk value []"

section \<open>Specification\<close>

inductive occurs :: "json \<Rightarrow> string \<Rightarrow> string \<Rightarrow> string \<Rightarrow> bool" where
  here: "(key, sub) \<in> set kvs \<Longrightarrow> occurs (JObj kvs) prefix (full_key prefix key) key"
| in_value: "(key, sub) \<in> set kvs \<Longrightarrow> occurs sub (full_key prefix key) path k \<Longrightarrow>
     occurs (JObj kvs) prefix path k"
| in_elem: "idx < length xs \<Longrightarrow> occurs (xs ! idx) (index_key prefix idx) path k \<Longrightarrow>
     occurs (JList xs) prefix path k"

inductive_cases occursE [elim]: "occurs (JObj kvs) prefix path k" "occurs (JList xs) prefix path k"

inductive_simps occurs_leaf [simp]:
  "occurs JNull prefix path k" "occurs (JBool b) prefix path k" "occurs (JInt i) prefix path k"
  "occurs (JFloat f) prefix path k" "occurs (JStr s) prefix path k"

lemma occurs_Cons: "occurs (JObj kvs) prefix path k \<Longrightarrow> occurs (JObj (kv # kvs)) prefix path k"
  by (auto elim!: occursE intro: occurs.intros)

lemma walk_sound:
  "path \<in> set (walk v prefix) \<Longrightarrow> \<exists>k. sensitive_re k \<and> occurs v prefix path k"
  "path \<in> set (walk_items kvs prefix) \<Longrightarrow> \<exists>k. sensitive_re k \<and> occurs (JObj kvs) prefix path k"
  "path \<in> set (walk_elems xs idx prefix) \<Longrightarrow>
     \<exists>j k. j < length xs \<and> sensitive_re k \<and> occurs (xs ! j) (index_key prefix (idx + j)) path k"
proof (induction v prefix and kvs prefix and xs idx prefix rule: walk_walk_items_walk_elems.induct)
  case (2 xs prefix)
  then obtain j k where "j < length xs" "sensitive_re k" "occurs (xs ! j) (index_key prefix j) path k"
    by auto
  then show ?case by (blast intro: in_elem)
next
  case (5 key sub kvs prefix)
  then consider "sensitive_re key" "path = full_key prefix key"
    | k where "sensitive_re k" "occurs sub (full_key prefix key) path k"
    | k where "sensitive_re k" "occurs (JObj kvs) prefix path k"
    by (auto split: if_splits)
  then show ?case
  proof cases
    case 1
    then show ?thesis using here [of key sub "(key, sub) # kvs" prefix] by auto
  next
    case 2
    then show ?thesis using in_value [of key sub "(key, sub) # kvs" prefix] by auto
  next
    case 3
    then show ?thesis by (blast intro: occurs_Cons)
  qed
next
  case (7 sub xs idx prefix)
  then consider k where "sensitive_re k" "occurs sub (index_key prefix idx) path k"
    | j k where "j < length xs" "sensitive_re k" "occurs (xs ! j) (index_key prefix (Suc idx + j)) path k"
    by auto
  then show ?case
  proof cases
    case 1
    then show ?thesis by (intro exI [of _ 0] exI [of _ k]) simp
  next
    case 2
    then show ?thesis by (intro exI [of _ "Suc j"] exI [of _ k]) simp
  qed
qed auto

lemma walk_items_mem:
  "(key, sub) \<in> set kvs \<Longrightarrow>
     (sensitive_re key \<longrightarrow> full_key prefix key \<in> set (walk_items kvs prefix)) \<and>
     set (walk sub (full_key prefix key)) \<subseteq> set (walk_items kvs prefix)"
  by (induction kvs) auto

lemma walk_elems_mem:
  "j < length xs \<Longrightarrow> set (walk (xs ! j) (index_key prefix (idx + j))) \<subseteq> set (walk_elems xs idx prefix)"
proof (induction xs arbitrary: idx j)
  case (Cons x xs)
  show ?case
  proof (cases j)
    case (Suc n)
    with Cons.prems Cons.IH [of n "Suc idx"] show ?thesis by auto
  qed simp
qed simp

lemma walk_complete:
  "occurs v prefix path k \<Longrightarrow> sensitive_re k \<Longrightarrow> path \<in> set (walk v prefix)"
proof (induction rule: occurs.induct)
  case (in_elem idx xs prefix path k)
  then show ?case using walk_elems_mem [of idx xs prefix 0] by auto
qed (use walk_items_mem in fastforce)+

text \<open>The number of occurrences of sensitive names, counted without paths.\<close>

fun sensitive_count :: "json \<Rightarrow> nat" where
  "sensitive_count (JObj kvs) =
     sum_list (map (\<lambda>kv. (if sensitive_re (fst kv) then 1 else 0) + sensitive_count (snd kv)) kvs)"
| "sensitive_count (JList xs) = sum_list (map sensitive_count xs)"
| "sensitive_count v = 0"

lemma length_walk:
  "length (walk v prefix) = sensitive_count v"
  "length (walk_items kvs prefix) = sensitive_count (JObj kvs)"
  "length (walk_elems xs idx prefix) = sensitive_count (JList xs)"
  by (induction v prefix and kvs prefix and xs idx prefix rule: walk_walk_items_walk_elems.induct) simp_all

text \<open>A value with every leaf replaced by \<open>None\<close>: only names and structure are left.\<close>

fun erase :: "json \<Rightarrow> json" where
  "erase (JObj kvs) = JObj (map (\<lambda>kv. (fst kv, erase (snd kv))) kvs)"
| "erase (JList xs) = JList (map erase xs)"
| "erase v = JNull"

lemma walk_erase:
  "walk (erase v) prefix = walk v prefix"
  "walk_items (map (\<lambda>kv. (fst kv, erase (snd kv))) kvs) prefix = walk_items kvs prefix"
  "walk_elems (map erase xs) idx prefix = walk_elems xs idx prefix"
  by (induction v prefix and kvs prefix and xs idx prefix rule: walk_walk_items_walk_elems.induct) simp_all

section \<open>Properties\<close>

text \<open>
  C23: the scan reports exactly the paths at which a sensitive name occurs in the arguments, at any
  depth, as many entries as there are occurrences, and reads names only: replacing every leaf value
  changes nothing.
\<close>

theorem sensitive_scan_exact:
  "set (scan_sensitive_fields v) = {path. \<exists>k. sensitive_re k \<and> occurs v [] path k} \<and>
   length (scan_sensitive_fields v) = sensitive_count v \<and>
   scan_sensitive_fields (erase v) = scan_sensitive_fields v"
  using walk_sound(1) walk_complete
  by (auto simp: scan_sensitive_fields_def length_walk(1) walk_erase(1))

end
