(* ===== verification/Handler.thy ===== *)
theory Handler
  imports Protocol Registry AuditLog Sensitive DispatchBase Settings
begin

text \<open>
  \<open>app/mcp/handler.py\<close>: the JSON-RPC methods of the gateway. The dispatchers are an argument
  \<open>ds\<close> here (a dictionary by name); \<open>Gateway\<close> instantiates it with the real ones. The locale
  \<open>backend\<close> states what the handler needs of them.
\<close>

section \<open>Methods without effects\<close>

definition initialize :: "settings \<Rightarrow> json \<Rightarrow> json \<Rightarrow> json res" where
  "initialize s req_id params =
     bindE (as_dict params) (\<lambda>p.
       Inr (jsonrpc_result req_id (JObj
         [(''protocolVersion'', case jget p ''protocolVersion'' of
             JStr v \<Rightarrow> JStr v | _ \<Rightarrow> JStr SUPPORTED_PROTOCOL_VERSION),
          (''serverInfo'', JObj [(''name'', JStr (server_name s)), (''version'', JStr (server_version s))]),
          (''capabilities'', SERVER_CAPABILITIES)])))"

text \<open>\<open>view_to_mcp\<close>, also written out in \<open>_tools_list\<close>.\<close>

definition view_to_mcp :: "tool_view \<Rightarrow> json" where
  "view_to_mcp v =
     JObj [(''name'', JStr (v_name v)), (''description'', JStr (v_description v)),
           (''inputSchema'', JObj (v_input_schema v))]"

definition tools_list :: "world \<Rightarrow> auth_ctx \<Rightarrow> json \<Rightarrow> gw \<Rightarrow> json res \<times> gw" where
  "tools_list w ctx req_id g =
     andThen (list_for_principal w (roles ctx) (customer_code ctx) g) (\<lambda>views g.
       (Inr (jsonrpc_result req_id (JObj [(''tools'', JList (map view_to_mcp views))])), g))"

section \<open>tools/call\<close>

type_synonym dispatchers = "string \<Rightarrow> (tool_invocation \<Rightarrow> gw \<Rightarrow> tool_result res \<times> gw) option"

definition deny_reason :: string where
  "deny_reason = ''not_found_or_no_role''"

text \<open>\<open>int((time.monotonic() - started) * 1000)\<close>.\<close>

definition latency :: "world \<Rightarrow> rat \<Rightarrow> gw \<Rightarrow> int \<times> gw" where
  "latency w started g = (case read_clock w g of (now, g) \<Rightarrow> (trunc_rat ((now - started) * 1000), g))"

text \<open>The keyword arguments every audit call of \<open>_tools_call\<close> shares.\<close>

definition call_entry :: "string \<Rightarrow> auth_ctx \<Rightarrow> string \<Rightarrow> json dict \<Rightarrow> audit_status \<Rightarrow> audit_entry" where
  "call_entry trace_id ctx name args status =
     \<lparr>ae_trace_id = trace_id, ae_ctx = ctx, ae_tool_name = name, ae_arguments = JObj args,
      ae_status = status, ae_tool_id = None, ae_sensitive_fields_hit = [], ae_deny_reason = None,
      ae_error_message = None, ae_error_code = None, ae_error_kind = None, ae_latency_ms = None,
      ae_started_at = None\<rparr>"

definition denied_entry :: "string \<Rightarrow> auth_ctx \<Rightarrow> string \<Rightarrow> json dict \<Rightarrow> audit_entry" where
  "denied_entry trace_id ctx name args =
     (call_entry trace_id ctx name args Denied)
       \<lparr>ae_deny_reason := Some deny_reason, ae_error_code := Some TOOL_NOT_FOUND,
        ae_error_kind := Some deny_reason\<rparr>"

definition error_entry ::
  "string \<Rightarrow> auth_ctx \<Rightarrow> string \<Rightarrow> json dict \<Rightarrow> int \<Rightarrow> string \<Rightarrow> int \<Rightarrow> string \<Rightarrow> int \<Rightarrow> audit_entry" where
  "error_entry trace_id ctx name args tid message code kind ms =
     (call_entry trace_id ctx name args Error)
       \<lparr>ae_tool_id := Some tid, ae_sensitive_fields_hit := scan_sensitive_fields (JObj args),
        ae_error_message := Some message, ae_error_code := Some code, ae_error_kind := Some kind,
        ae_latency_ms := Some ms\<rparr>"

definition ok_entry :: "string \<Rightarrow> auth_ctx \<Rightarrow> string \<Rightarrow> json dict \<Rightarrow> int \<Rightarrow> int \<Rightarrow> audit_entry" where
  "ok_entry trace_id ctx name args tid ms =
     (call_entry trace_id ctx name args Ok)
       \<lparr>ae_tool_id := Some tid, ae_sensitive_fields_hit := scan_sensitive_fields (JObj args),
        ae_latency_ms := Some ms\<rparr>"

text \<open>Each failing branch takes the latency, writes its row and answers.\<close>

definition fail_call ::
  "world \<Rightarrow> string \<Rightarrow> auth_ctx \<Rightarrow> string \<Rightarrow> json dict \<Rightarrow> rat \<Rightarrow> tool_view \<Rightarrow> string \<Rightarrow> int \<Rightarrow> string \<Rightarrow>
   json \<Rightarrow> gw \<Rightarrow> json res \<times> gw" where
  "fail_call w trace_id ctx name args started tool message code kind answer g =
     (case latency w started g of (ms, g) \<Rightarrow>
        (Inr answer, audit_log w (error_entry trace_id ctx name args (v_id tool) message code kind ms) g))"

text \<open>From \<open>dispatcher.invoke\<close> on.\<close>

definition dispatch_call ::
  "world \<Rightarrow> (tool_invocation \<Rightarrow> gw \<Rightarrow> tool_result res \<times> gw) \<Rightarrow> string \<Rightarrow> auth_ctx \<Rightarrow> string \<Rightarrow> json dict \<Rightarrow>
   rat \<Rightarrow> tool_view \<Rightarrow> json \<Rightarrow> gw \<Rightarrow> json res \<times> gw" where
  "dispatch_call w invoke_tool trace_id ctx name args started tool req_id g =
     (case invoke_tool \<lparr>inv_tool = tool, inv_arguments = args, inv_auth = ctx, inv_trace_id = trace_id\<rparr> g of
        (Inl (DispatchError message code kind status), g) \<Rightarrow>
          fail_call w trace_id ctx name args started tool (kind @ '': '' @ message) code kind
            (jsonrpc_error req_id code message
               (Some (JObj ([(''kind'', JStr kind)]
                            @ (case status of None \<Rightarrow> [] | Some n \<Rightarrow> [(''upstreamStatus'', JInt n)]))))) g
      | (Inl exc, g) \<Rightarrow>
          fail_call w trace_id ctx name args started tool (exn_text exc) INTERNAL_ERROR ''internal_error''
            (jsonrpc_error req_id INTERNAL_ERROR (''internal error: '' @ exn_text exc) None) g
      | (Inr result, g) \<Rightarrow>
          (case latency w started g of (ms, g) \<Rightarrow>
             (Inr (jsonrpc_result req_id (to_mcp result)),
              audit_log w (ok_entry trace_id ctx name args (v_id tool) ms) g)))"

text \<open>From the schema check on.\<close>

definition run_call ::
  "world \<Rightarrow> dispatchers \<Rightarrow> string \<Rightarrow> auth_ctx \<Rightarrow> string \<Rightarrow> json dict \<Rightarrow> rat \<Rightarrow> tool_view \<Rightarrow> json \<Rightarrow> gw \<Rightarrow>
   json res \<times> gw" where
  "run_call w ds trace_id ctx name args started tool req_id g =
     (case w_schema w args (v_input_schema tool) of
        SchemaInvalid m \<Rightarrow>
          fail_call w trace_id ctx name args started tool (''schema: '' @ m) INVALID_PARAMS ''schema_validation''
            (jsonrpc_error req_id INVALID_PARAMS (''invalid params: '' @ m) None) g
      | SchemaBroken c t \<Rightarrow> (Inl (PyError c t), g)
      | SchemaOk \<Rightarrow>
          (case ds (v_dispatcher tool) of
             None \<Rightarrow>
               fail_call w trace_id ctx name args started tool (''unknown dispatcher: '' @ v_dispatcher tool)
                 INTERNAL_ERROR ''unknown_dispatcher''
                 (jsonrpc_error req_id INTERNAL_ERROR (''unknown dispatcher: '' @ v_dispatcher tool) None) g
           | Some invoke_tool \<Rightarrow> dispatch_call w invoke_tool trace_id ctx name args started tool req_id g))"

definition not_found_answer :: "json \<Rightarrow> string \<Rightarrow> json" where
  "not_found_answer req_id name =
     jsonrpc_error req_id TOOL_NOT_FOUND (''tool '' @ quoted name @ '' not found'') None"

text \<open>With a name and a dictionary of arguments.\<close>

definition authorized_call ::
  "world \<Rightarrow> dispatchers \<Rightarrow> auth_ctx \<Rightarrow> string \<Rightarrow> json dict \<Rightarrow> json \<Rightarrow> gw \<Rightarrow> json res \<times> gw" where
  "authorized_call w ds ctx name args req_id g =
     (case new_uuid w g of (trace_id, g) \<Rightarrow>
      (case read_clock w g of (started, g) \<Rightarrow>
        andThen (find_authorized_for_principal w name (roles ctx) (customer_code ctx) g) (\<lambda>tool g.
          case tool of
            None \<Rightarrow> (Inr (not_found_answer req_id name), audit_log w (denied_entry trace_id ctx name args) g)
          | Some t \<Rightarrow> run_call w ds trace_id ctx name args started t req_id g)))"

definition tools_call :: "world \<Rightarrow> dispatchers \<Rightarrow> auth_ctx \<Rightarrow> json \<Rightarrow> json \<Rightarrow> gw \<Rightarrow> json res \<times> gw" where
  "tools_call w ds ctx req_id params g =
     (case as_dict params of
        Inl e \<Rightarrow> (Inl e, g)
      | Inr p \<Rightarrow>
          (let arguments = py_or (jget p ''arguments'') (JObj [])
           in case jget p ''name'' of
                JStr name \<Rightarrow>
                  (if name = [] then (Inr (jsonrpc_error req_id INVALID_PARAMS ''missing tool name'' None), g)
                   else (case arguments of
                           JObj args \<Rightarrow> authorized_call w ds ctx name args req_id g
                         | _ \<Rightarrow> (Inr (jsonrpc_error req_id INVALID_PARAMS ''arguments must be object'' None), g)))
              | _ \<Rightarrow> (Inr (jsonrpc_error req_id INVALID_PARAMS ''missing tool name'' None), g)))"

section \<open>handle\<close>

text \<open>The body of the \<open>try\<close>: the method by name.\<close>

definition call_method ::
  "world \<Rightarrow> settings \<Rightarrow> dispatchers \<Rightarrow> auth_ctx \<Rightarrow> json \<Rightarrow> json \<Rightarrow> json \<Rightarrow> gw \<Rightarrow> json option res \<times> gw" where
  "call_method w s ds ctx m req_id params g =
     (if m = JStr ''initialize'' then (bindE (initialize s req_id params) (\<lambda>r. Inr (Some r)), g)
      else if m = JStr ''notifications/initialized'' \<or> m = JStr ''initialized'' then (Inr None, g)
      else if m = JStr ''ping'' then (Inr (Some (jsonrpc_result req_id (JObj []))), g)
      else if m = JStr ''tools/list'' then andThen (tools_list w ctx req_id g) (\<lambda>r g. (Inr (Some r), g))
      else if m = JStr ''tools/call'' then andThen (tools_call w ds ctx req_id params g) (\<lambda>r g. (Inr (Some r), g))
      else (Inr (Some (jsonrpc_error req_id METHOD_NOT_FOUND (''method not found: '' @ py_str m) None)), g))"

definition internal_answer :: "json \<Rightarrow> exn \<Rightarrow> json" where
  "internal_answer req_id exc = jsonrpc_error req_id INTERNAL_ERROR (''internal error: '' @ exn_text exc) None"

definition handle ::
  "world \<Rightarrow> settings \<Rightarrow> dispatchers \<Rightarrow> json \<Rightarrow> auth_ctx \<Rightarrow> gw \<Rightarrow> json option res \<times> gw" where
  "handle w s ds msg ctx g =
     (case msg of
        JObj d \<Rightarrow>
          (if jget d ''jsonrpc'' \<noteq> JStr ''2.0''
           then (Inr (Some (jsonrpc_error (jget d ''id'') INVALID_PARAMS ''invalid JSON-RPC envelope'' None)), g)
           else (let m = jget d ''method''; req_id = jget d ''id''; params = py_or (jget d ''params'') (JObj [])
                 in if m = JNull then (Inr (Some (jsonrpc_error req_id INVALID_PARAMS ''missing method'' None)), g)
                    else if req_id = JNull \<and> \<not> is_str m then (Inl (no_attr m ''startswith''), g)
                    else if req_id = JNull \<and> startswith ''notifications/'' (py_str m) then (Inr None, g)
                    else (case call_method w s ds ctx m req_id params g of
                            (Inl exc, g) \<Rightarrow> (Inr (Some (internal_answer req_id exc)), g)
                          | (Inr r, g) \<Rightarrow> (Inr r, g))))
      | _ \<Rightarrow> (Inr (Some (jsonrpc_error JNull INVALID_PARAMS ''invalid JSON-RPC envelope'' None)), g))"

section \<open>What the branches have in common\<close>

text \<open>An audit entry speaks about this call and agrees with the answer given.\<close>

definition entry_about :: "auth_ctx \<Rightarrow> string \<Rightarrow> json dict \<Rightarrow> audit_entry \<Rightarrow> bool" where
  "entry_about ctx name args e \<longleftrightarrow>
     ae_ctx e = ctx \<and> ae_tool_name e = name \<and> ae_arguments e = JObj args \<and> ae_status e \<noteq> Allowed \<and>
     (ae_status e \<noteq> Denied \<longrightarrow> ae_tool_id e \<noteq> None \<and> ae_latency_ms e \<noteq> None \<and>
        ae_sensitive_fields_hit e = scan_sensitive_fields (JObj args))"

definition entry_agrees :: "json \<Rightarrow> audit_entry \<Rightarrow> bool" where
  "entry_agrees answer e \<longleftrightarrow>
     (ae_status e = Ok \<longleftrightarrow> is_result answer) \<and> (ae_status e \<noteq> Ok \<longrightarrow> error_code answer = ae_error_code e)"

text \<open>The last thing a call did was to write one entry; before that the tables were as at its start.\<close>

definition audited :: "world \<Rightarrow> auth_ctx \<Rightarrow> string \<Rightarrow> json dict \<Rightarrow> json \<Rightarrow> gw \<Rightarrow> gw \<Rightarrow> bool" where
  "audited w ctx name args answer g g' \<longleftrightarrow>
     (\<exists>e g0. g' = audit_log w e g0 \<and> extends g g0 \<and> g_db g0 = g_db g \<and>
        entry_about ctx name args e \<and> entry_agrees answer e)"

lemma auditedI:
  "extends g g0 \<Longrightarrow> g_db g0 = g_db g \<Longrightarrow> entry_about ctx name args e \<Longrightarrow> entry_agrees answer e \<Longrightarrow>
     audited w ctx name args answer g (audit_log w e g0)"
  by (auto simp: audited_def)

lemma audited_later:
  "audited w ctx name args answer g1 g' \<Longrightarrow> extends g g1 \<Longrightarrow> g_db g1 = g_db g \<Longrightarrow> audited w ctx name args answer g g'"
  unfolding audited_def by (metis extends_trans)

lemma audited_extends: "audited w ctx name args answer g g' \<Longrightarrow> extends g g'"
  unfolding audited_def using extends_trans quiet_extends [OF audit_log_quiet] by blast

lemma entry_simps [simp]:
  "entry_about ctx name args (denied_entry t ctx name args)"
  "entry_about ctx name args (error_entry t ctx name args tid message code kind ms)"
  "entry_about ctx name args (ok_entry t ctx name args tid ms)"
  "entry_agrees (not_found_answer i name) (denied_entry t ctx name args)"
  "entry_agrees (jsonrpc_error i code m d) (error_entry t ctx name args tid message code kind ms)"
  "entry_agrees (jsonrpc_result i r) (ok_entry t ctx name args tid ms)"
  by (simp_all add: entry_about_def entry_agrees_def denied_entry_def error_entry_def ok_entry_def call_entry_def
      not_found_answer_def)

lemma latency_state: "snd (latency w started g) = emit EvClock g"
  by (simp add: latency_def read_clock_def Let_def)

lemma fail_call_audited:
  assumes "fail_call w t ctx name args started tool message code kind (jsonrpc_error i code m d) g = (r, g')"
  shows "r = Inr (jsonrpc_error i code m d) \<and> audited w ctx name args (jsonrpc_error i code m d) g g' \<and> quiet g g'"
proof -
  obtain ms where ms: "latency w started g = (ms, emit EvClock g)"
    using latency_state [of w started g] by (cases "latency w started g") simp
  with assms have g': "g' = audit_log w (error_entry t ctx name args (v_id tool) message code kind ms) (emit EvClock g)"
    and "r = Inr (jsonrpc_error i code m d)"
    by (simp_all add: fail_call_def)
  moreover have "audited w ctx name args (jsonrpc_error i code m d) g g'"
    unfolding g' by (rule auditedI) simp_all
  moreover have "quiet g g'"
    unfolding g' by (rule quiet_trans [OF _ audit_log_quiet]) simp
  ultimately show ?thesis by simp
qed

text \<open>The same for a failure after some interactions that left the tables alone.\<close>

lemma fail_call_answer:
  assumes "fail_call w t ctx name args started tool message code kind (jsonrpc_error i code m d) g1 = (r, g')"
    and "extends g g1" "g_db g1 = g_db g"
  shows "\<exists>answer. r = Inr answer \<and> audited w ctx name args answer g g'"
  using fail_call_audited [OF assms(1)] audited_later [OF _ assms(2,3)] by blast

text \<open>The lookup of a call, and what follows it.\<close>

abbreviation principal_tool :: "world \<Rightarrow> auth_ctx \<Rightarrow> string \<Rightarrow> gw \<Rightarrow> tool_view option res \<times> gw" where
  "principal_tool w ctx name g \<equiv>
     find_authorized_for_principal w name (roles ctx) (customer_code ctx) (emit EvClock (emit EvUuid g))"

lemma principal_tool_frame: "registry_frame g (snd (principal_tool w ctx name g))"
proof -
  have "quiet g (emit EvClock (emit EvUuid g))"
    by (rule quiet_trans [of _ "emit EvUuid g"]) simp_all
  then have "registry_frame g (emit EvClock (emit EvUuid g))"
    by (simp add: registry_frame_def)
  moreover have "registry_frame (emit EvClock (emit EvUuid g)) (snd (principal_tool w ctx name g))"
    using refresh_frame [of "emit EvClock (emit EvUuid g)" w]
    by (cases rule: list_cases [of w "emit EvClock (emit EvUuid g)" "roles ctx" "customer_code ctx" name]) simp_all
  ultimately show ?thesis by (rule registry_frame_trans)
qed

lemma authorized_call_cases:
  assumes "authorized_call w ds ctx name args i g = (r, g')"
  obtains (failed) e where "principal_tool w ctx name g = (Inl e, g')" "r = Inl e"
  | (denied) t g1 where "principal_tool w ctx name g = (Inr None, g1)" "r = Inr (not_found_answer i name)"
      "g' = audit_log w (denied_entry t ctx name args) g1"
  | (run) t started tool g1 where "principal_tool w ctx name g = (Inr (Some tool), g1)"
      "run_call w ds t ctx name args started tool i g1 = (r, g')"
proof -
  obtain t where t: "new_uuid w g = (t, emit EvUuid g)"
    using new_uuid_frame [of w g] by (cases "new_uuid w g") simp
  obtain st where st: "read_clock w (emit EvUuid g) = (st, emit EvClock (emit EvUuid g))"
    using read_clock_frame [of w "emit EvUuid g"] by (cases "read_clock w (emit EvUuid g)") simp
  have step: "authorized_call w ds ctx name args i g = andThen (principal_tool w ctx name g) (\<lambda>tool g.
      case tool of
        None \<Rightarrow> (Inr (not_found_answer i name), audit_log w (denied_entry t ctx name args) g)
      | Some v \<Rightarrow> run_call w ds t ctx name args st v i g)"
    by (simp add: authorized_call_def t st)
  obtain out g1 where find: "principal_tool w ctx name g = (out, g1)" by fastforce
  show thesis
  proof (cases out)
    case (Inl e)
    then show thesis using assms step find by (intro failed [of e]) simp_all
  next
    case (Inr found)
    show thesis
    proof (cases found)
      case None
      with Inr show thesis using assms step find by (intro denied [of g1 t]) simp_all
    next
      case (Some tool)
      with Inr show thesis using assms step find by (intro run [of tool g1 t st]) simp_all
    qed
  qed
qed

section \<open>What the handler needs of its dispatchers\<close>

locale backend =
  fixes ds :: dispatchers
  assumes each: "ds n = Some d \<Longrightarrow> dispatcher d"
begin

lemma dispatch_call_audited:
  assumes "ds n = Some d" and "dispatch_call w d t ctx name args started tool i g = (r, g')"
  shows "\<exists>answer. r = Inr answer \<and> audited w ctx name args answer g g'"
proof -
  let ?inv = "\<lparr>inv_tool = tool, inv_arguments = args, inv_auth = ctx, inv_trace_id = t\<rparr>"
  obtain out g1 where out: "d ?inv g = (out, g1)" by fastforce
  have g1: "extends g g1" "g_db g1 = g_db g"
    using dispatcher.invoke_extends [OF each [OF assms(1)], of g ?inv]
      dispatcher.invoke_db [OF each [OF assms(1)], of ?inv g] out by simp_all
  show ?thesis
  proof (cases out)
    case (Inr result)
    obtain ms where ms: "latency w started g1 = (ms, emit EvClock g1)"
      using latency_state [of w started g1] by (cases "latency w started g1") simp
    have "g' = audit_log w (ok_entry t ctx name args (v_id tool) ms) (emit EvClock g1)"
      "r = Inr (jsonrpc_result i (to_mcp result))"
      using assms(2) out Inr ms by (simp_all add: dispatch_call_def)
    moreover have "audited w ctx name args (jsonrpc_result i (to_mcp result)) g1
        (audit_log w (ok_entry t ctx name args (v_id tool) ms) (emit EvClock g1))"
      by (rule auditedI) simp_all
    ultimately show ?thesis using audited_later g1 by blast
  next
    case (Inl exc)
    show ?thesis
    proof (cases "\<exists>message code kind status. exc = DispatchError message code kind status")
      case True
      then obtain message code kind status where exc: "exc = DispatchError message code kind status" by blast
      have "dispatch_call w d t ctx name args started tool i g =
          fail_call w t ctx name args started tool (kind @ '': '' @ message) code kind
            (jsonrpc_error i code message
               (Some (JObj ([(''kind'', JStr kind)]
                            @ (case status of None \<Rightarrow> [] | Some n \<Rightarrow> [(''upstreamStatus'', JInt n)]))))) g1"
        by (simp add: dispatch_call_def out Inl exc)
      with assms(2) show ?thesis by (intro fail_call_answer [OF _ g1]) simp
    next
      case False
      then have "dispatch_call w d t ctx name args started tool i g =
          fail_call w t ctx name args started tool (exn_text exc) INTERNAL_ERROR ''internal_error''
            (jsonrpc_error i INTERNAL_ERROR (''internal error: '' @ exn_text exc) None) g1"
        using out Inl by (cases exc) (auto simp: dispatch_call_def)
      with assms(2) show ?thesis by (intro fail_call_answer [OF _ g1]) simp
    qed
  qed
qed

lemma run_call_audited:
  assumes "run_call w ds t ctx name args started tool i g = (r, g')"
  shows "(\<exists>answer. r = Inr answer \<and> audited w ctx name args answer g g') \<or>
    (\<exists>c m. w_schema w args (v_input_schema tool) = SchemaBroken c m \<and> r = Inl (PyError c m) \<and> g' = g)"
proof (cases "w_schema w args (v_input_schema tool)")
  case SchemaOk
  show ?thesis
  proof (cases "ds (v_dispatcher tool)")
    case None
    have "run_call w ds t ctx name args started tool i g =
        fail_call w t ctx name args started tool (''unknown dispatcher: '' @ v_dispatcher tool)
          INTERNAL_ERROR ''unknown_dispatcher''
          (jsonrpc_error i INTERNAL_ERROR (''unknown dispatcher: '' @ v_dispatcher tool) None) g"
      by (simp add: run_call_def SchemaOk None)
    with assms show ?thesis by (intro disjI1 fail_call_answer [OF _ extends_refl refl]) simp
  next
    case (Some d)
    with SchemaOk assms dispatch_call_audited show ?thesis by (simp add: run_call_def)
  qed
next
  case (SchemaInvalid m)
  have "run_call w ds t ctx name args started tool i g =
      fail_call w t ctx name args started tool (''schema: '' @ m) INVALID_PARAMS ''schema_validation''
        (jsonrpc_error i INVALID_PARAMS (''invalid params: '' @ m) None) g"
    by (simp add: run_call_def SchemaInvalid)
  with assms show ?thesis by (intro disjI1 fail_call_answer [OF _ extends_refl refl]) simp
next
  case (SchemaBroken c m)
  with assms show ?thesis by (simp add: run_call_def)
qed

lemma run_call_requests:
  assumes "run_call w ds t ctx name args started tool i g = (r, g')" and "requests g g' \<noteq> 0"
  shows "w_schema w args (v_input_schema tool) = SchemaOk \<and> ds (v_dispatcher tool) \<noteq> None"
proof (rule ccontr)
  assume no: "\<not> ?thesis"
  have "quiet g g'"
  proof (cases "w_schema w args (v_input_schema tool)")
    case SchemaOk
    with no have "ds (v_dispatcher tool) = None" by simp
    with assms(1) SchemaOk show ?thesis by (auto simp: run_call_def dest!: fail_call_audited)
  next
    case (SchemaInvalid m)
    with assms(1) show ?thesis by (auto simp: run_call_def dest!: fail_call_audited)
  next
    case (SchemaBroken c m)
    with assms(1) show ?thesis by (simp add: run_call_def)
  qed
  with assms(2) show False by (simp add: quiet_requests)
qed

lemma dispatch_call_extends:
  assumes "ds n = Some d" and "dispatch_call w d t ctx name args started tool i g = (r, g')"
  shows "extends g g'"
  using dispatch_call_audited [OF assms] audited_extends by blast

lemma run_call_extends:
  assumes "run_call w ds t ctx name args started tool i g = (r, g')"
  shows "extends g g'"
  using run_call_audited [OF assms] audited_extends by blast

text \<open>A call with a name and a dictionary of arguments ends in one of three ways.\<close>

lemma authorized_call_audited:
  assumes "authorized_call w ds ctx name args i g = (r, g')"
  shows "(\<exists>answer. r = Inr answer \<and> audited w ctx name args answer g g') \<or>
    (\<exists>e. r = Inl e \<and> g_db g' = g_db g \<and> requests g g' = 0 \<and>
       (fst (principal_tool w ctx name g) = Inl e \<or>
        (\<exists>tool c m. fst (principal_tool w ctx name g) = Inr (Some tool) \<and>
           w_schema w args (v_input_schema tool) = SchemaBroken c m \<and> e = PyError c m)))"
  using assms
proof (cases rule: authorized_call_cases)
  case (failed e)
  then show ?thesis using principal_tool_frame [of g w name ctx] by (simp add: registry_frame_def quiet_requests)
next
  case (denied t g1)
  have "audited w ctx name args (not_found_answer i name) g g'"
    unfolding denied(3) by (rule auditedI) (use principal_tool_frame [of g w name ctx] denied(1) in
      \<open>simp_all add: registry_frame_def quiet_extends\<close>)
  with denied(2) show ?thesis by blast
next
  case (run t started tool g1)
  have g1: "extends g g1" "g_db g1 = g_db g" "requests g g1 = 0"
    using principal_tool_frame [of g w name ctx] run(1)
    by (simp_all add: registry_frame_def quiet_extends quiet_requests)
  from run_call_audited [OF run(2)] show ?thesis
  proof
    assume "\<exists>answer. r = Inr answer \<and> audited w ctx name args answer g1 g'"
    then show ?thesis using audited_later [OF _ g1(1,2)] by blast
  next
    assume "\<exists>c m. w_schema w args (v_input_schema tool) = SchemaBroken c m \<and> r = Inl (PyError c m) \<and> g' = g1"
    then show ?thesis using g1 run(1) by auto
  qed
qed

lemma authorized_call_requests:
  assumes "authorized_call w ds ctx name args i g = (r, g')" and "requests g g' \<noteq> 0"
  obtains tool where "fst (principal_tool w ctx name g) = Inr (Some tool)"
    "w_schema w args (v_input_schema tool) = SchemaOk" "ds (v_dispatcher tool) \<noteq> None"
  using assms(1)
proof (cases rule: authorized_call_cases)
  case (failed e)
  then show thesis using principal_tool_frame [of g w name ctx] assms(2) by (simp add: registry_frame_def quiet_requests)
next
  case (denied t g1)
  have "quiet g g1" using principal_tool_frame [of g w name ctx] denied(1) by (simp add: registry_frame_def)
  then have "quiet g g'" unfolding denied(3) by (rule quiet_trans) (rule audit_log_quiet)
  with assms(2) show thesis by (simp add: quiet_requests)
next
  case (run t started tool g1)
  have g1: "quiet g g1" using principal_tool_frame [of g w name ctx] run(1) by (simp add: registry_frame_def)
  have "extends g1 g'" by (rule run_call_extends [OF run(2)])
  then have "requests g g' = requests g1 g'"
    using requests_trans [OF quiet_extends [OF g1]] quiet_requests [OF g1] by simp
  then show thesis
    using that [of tool] run(1) run_call_requests [OF run(2)] assms(2) by simp
qed

end

end
