(* ===== verification/HttpAdapter.thy ===== *)
theory HttpAdapter
  imports DispatchBase Settings
begin

text \<open>
  \<open>app/dispatchers/http_adapter.py\<close>: the configuration-driven HTTP dispatcher, with the split of
  arguments into path, query, body and headers, the rendering of path templates, the retry loop and
  the mapping of responses.
\<close>

section \<open>Path templates\<close>

text \<open>
  \<open>quote(s, safe="")\<close>: unreserved characters stay, every other byte becomes \<open>%XX\<close>.
\<close>

definition unreserved :: "char \<Rightarrow> bool" where
  "unreserved c =
     (let n = of_char c :: nat
      in (65 \<le> n \<and> n \<le> 90) \<or> (97 \<le> n \<and> n \<le> 122) \<or> (48 \<le> n \<and> n \<le> 57) \<or> c \<in> {CHR ''_'', CHR ''.'', CHR ''-'', CHR ''~''})"

definition quote_byte :: "char \<Rightarrow> string" where
  "quote_byte c =
     (if unreserved c then [c]
      else (let n = of_char c :: nat in [CHR 0x25, hex_digit (n div 16), hex_digit (n mod 16)]))"

definition quote :: "string \<Rightarrow> string" where
  "quote s = concat (map quote_byte s)"

text \<open>
  The pieces of a template under \<open>\{(\w+)\}\<close>. A byte above 127 counts as part of a word.
\<close>

datatype piece = Lit char | Var string

definition word_char :: "char \<Rightarrow> bool" where
  "word_char c =
     (let n = of_char c :: nat
      in (65 \<le> n \<and> n \<le> 90) \<or> (97 \<le> n \<and> n \<le> 122) \<or> (48 \<le> n \<and> n \<le> 57) \<or> n = 95 \<or> 128 \<le> n)"

function template_pieces :: "string \<Rightarrow> piece list" where
  "template_pieces [] = []"
| "template_pieces (c # cs) =
     (let v = takeWhile word_char cs; r = dropWhile word_char cs
      in if c = CHR 0x7B \<and> v \<noteq> [] \<and> r \<noteq> [] \<and> hd r = CHR 0x7D
         then Var v # template_pieces (tl r)
         else Lit c # template_pieces cs)"
  by pat_completeness auto
termination
proof (relation "measure length", goal_cases)
  case (2 c cs v r)
  have "length r \<le> length cs" using 2 by (simp add: length_dropWhile_le)
  then show ?case by (simp add: le_less_trans [OF _ lessI])
qed simp_all

fun piece_vars :: "piece list \<Rightarrow> string list" where
  "piece_vars [] = []"
| "piece_vars (Lit c # ps) = piece_vars ps"
| "piece_vars (Var v # ps) = v # piece_vars ps"

fun render :: "json dict \<Rightarrow> piece list \<Rightarrow> string res" where
  "render vs [] = Inr []"
| "render vs (Lit c # ps) = bindE (render vs ps) (\<lambda>s. Inr (c # s))"
| "render vs (Var v # ps) =
     (case map_of vs v of
        None \<Rightarrow> Inl (DispatchError (''missing path argument: '' @ v) (-32602) ''invalid_params'' None)
      | Some x \<Rightarrow> bindE (render vs ps) (\<lambda>s. Inr (quote (py_str x) @ s)))"

definition render_path :: "string \<Rightarrow> json dict \<Rightarrow> string res" where
  "render_path template vs = render vs (template_pieces template)"

section \<open>Splitting the arguments\<close>

record buckets =
  b_path :: "json dict"
  b_query :: "json dict"
  b_body :: "json dict"
  b_header :: "string dict"

abbreviation no_buckets :: buckets where
  "no_buckets \<equiv> \<lparr>b_path = [], b_query = [], b_body = [], b_header = []\<rparr>"

datatype target = ToPath | ToQuery | ToBody | ToHeader string

text \<open>The bucket of one argument.\<close>

definition target_of :: "json \<Rightarrow> string list \<Rightarrow> target \<Rightarrow> string \<Rightarrow> target res" where
  "target_of param_map path_vars bucket key =
     bindE (as_dict param_map) (\<lambda>pm.
       case jget pm key of
         JNull \<Rightarrow> Inr (if key \<in> set path_vars then ToPath else bucket)
       | JStr t \<Rightarrow>
           (if t = ''path'' then Inr ToPath
            else if t = ''query'' then Inr ToQuery
            else if t = ''body'' then Inr ToBody
            else if startswith ''header:'' t then Inr (ToHeader (drop 7 t))
            else Inl (config_error (''unknown param_map target: '' @ t)))
       | v \<Rightarrow> Inl (no_attr v ''startswith''))"

definition header_text :: "json \<Rightarrow> string" where
  "header_text v = (if v = JNull then [] else py_str v)"

fun put :: "target \<Rightarrow> string \<Rightarrow> json \<Rightarrow> buckets \<Rightarrow> buckets" where
  "put ToPath k v b = b\<lparr>b_path := AList.update k v (b_path b)\<rparr>"
| "put ToQuery k v b = b\<lparr>b_query := AList.update k v (b_query b)\<rparr>"
| "put ToBody k v b = b\<lparr>b_body := AList.update k v (b_body b)\<rparr>"
| "put (ToHeader h) k v b = b\<lparr>b_header := AList.update h (header_text v) (b_header b)\<rparr>"

fun split_args :: "json \<Rightarrow> string list \<Rightarrow> target \<Rightarrow> json dict \<Rightarrow> buckets \<Rightarrow> buckets res" where
  "split_args param_map path_vars bucket [] b = Inr b"
| "split_args param_map path_vars bucket ((k, v) # args) b =
     bindE (target_of param_map path_vars bucket k) (\<lambda>t.
       split_args param_map path_vars bucket args (put t k v b))"

text \<open>The key under which \<open>body_wrap\<close> puts the body, as it appears in the JSON sent.\<close>

fun json_key :: "json \<Rightarrow> string res" where
  "json_key (JStr s) = Inr s"
| "json_key (JBool b) = Inr (if b then ''true'' else ''false'')"
| "json_key (JInt i) = Inr (int_str i)"
| "json_key (JFloat f) = Inr (dump_float f)"
| "json_key JNull = Inr ''null''"
| "json_key (JList xs) = Inl (TypeError (''unhashable type: '' @ quoted ''list''))"
| "json_key (JObj d) = Inl (TypeError (''unhashable type: '' @ quoted ''dict''))"

record mapped =
  m_path :: string
  m_query :: "json dict"
  m_body :: "json dict"
  m_header :: "string dict"

definition default_target :: "string \<Rightarrow> target" where
  "default_target verb = (if verb \<in> {''GET'', ''DELETE'', ''HEAD''} then ToQuery else ToBody)"

definition map_params :: "json dict \<Rightarrow> string \<Rightarrow> json \<Rightarrow> string \<Rightarrow> json \<Rightarrow> mapped res" where
  "map_params args path_template param_map verb body_wrap =
     bindE (split_args param_map (piece_vars (template_pieces path_template)) (default_target verb) args no_buckets)
       (\<lambda>b. bindE (render_path path_template (b_path b)) (\<lambda>rendered.
        bindE (if b_body b = [] then Inr []
               else if truthy body_wrap then bindE (json_key body_wrap) (\<lambda>k. Inr [(k, JObj (b_body b))])
               else Inr (b_body b)) (\<lambda>wrapped.
          Inr \<lparr>m_path = rendered, m_query = b_query b, m_body = wrapped, m_header = b_header b\<rparr>)))"

section \<open>Headers and responses\<close>

definition env_required :: "world \<Rightarrow> json \<Rightarrow> string \<Rightarrow> string res" where
  "env_required w name what =
     (if \<not> truthy name then Inl (config_error (''tool config missing '' @ what))
      else bindE (environ_get_json w name) (\<lambda>v.
        if v = [] then Inl (config_error (''missing env var: '' @ py_str name)) else Inr v))"

definition gateway_headers :: "tool_invocation \<Rightarrow> string dict" where
  "gateway_headers i =
     [(''X-Gateway-User-Id'', user_id (inv_auth i)),
      (''X-Gateway-User-Roles'', join '','' (roles (inv_auth i))),
      (''X-Gateway-Trace-Id'', inv_trace_id i),
      (''X-Gateway-Tool-Name'', v_name (inv_tool i))]"

text \<open>The credential that goes under the tool's auth header.\<close>

definition credential :: "world \<Rightarrow> tool_invocation \<Rightarrow> string res" where
  "credential w i =
     (if v_auth_mode (inv_tool i) = ''user_passthrough'' then Inr (raw_token (inv_auth i))
      else (let env_name = text_or (v_secret_env_name (inv_tool i)) [];
                token = environ_get w env_name
            in if token = [] then Inl (config_error (''missing secret env var: '' @ env_name)) else Inr token))"

definition build_headers :: "world \<Rightarrow> tool_invocation \<Rightarrow> string dict \<Rightarrow> string dict res" where
  "build_headers w i extra =
     bindE (if some_text (v_auth_header (inv_tool i))
            then bindE (credential w i) (\<lambda>token.
                   Inr (AList.update (the (v_auth_header (inv_tool i))) (v_auth_prefix (inv_tool i) @ token)
                          (gateway_headers i)))
            else Inr (gateway_headers i)) (\<lambda>headers.
       let headers = (if some_text (customer_code (inv_auth i))
                      then AList.update ''X-Customer-Code'' (the (customer_code (inv_auth i))) headers
                      else headers)
       in Inr (dict_update headers extra))"

definition interpret_resp :: "http_resp \<Rightarrow> tool_result res" where
  "interpret_resp r =
     (let status = rs_status r; snippet = cp_take 2000 (rs_text r)
      in if 200 \<le> status \<and> status < 300 then Inr (text_result (rs_text r))
         else if status \<in> {401, 403}
              then Inl (DispatchError (''upstream denied: '' @ int_str status) (-32001) ''upstream_denied'' (Some status))
         else if status = 404
              then Inl (DispatchError ''upstream not found'' (-32001) ''upstream_not_found'' (Some status))
         else if status = 400
              then Inl (DispatchError (''upstream bad request: '' @ snippet) (-32602) ''upstream_bad_request'' (Some status))
         else Inl (DispatchError (''upstream error '' @ int_str status @ '': '' @ snippet) (-32603) ''upstream_error''
                     (Some status)))"

section \<open>Sending with retries\<close>

record http_adapter =
  ha_timeout :: pyfloat
  ha_retries :: int
  ha_backoff :: rat

definition http_adapter_of :: "settings \<Rightarrow> http_adapter" where
  "http_adapter_of s =
     \<lparr>ha_timeout = http_default_timeout_sec s, ha_retries = http_default_retries s,
      ha_backoff = http_retry_backoff_base_sec s\<rparr>"

definition retries_for :: "http_adapter \<Rightarrow> tool_invocation \<Rightarrow> json dict \<Rightarrow> int res" where
  "retries_for a i cfg =
     (if v_auth_mode (inv_tool i) = ''user_passthrough'' then Inr 0
      else if jget cfg ''retries'' = JNull then Inr (ha_retries a)
      else bindE (to_int (jget cfg ''retries'')) (\<lambda>n. Inr (max 0 n)))"

definition RETRYABLE_STATUS :: "int list" where
  "RETRYABLE_STATUS = [502, 503, 504]"

definition timeout_exn :: "http_req \<Rightarrow> exn" where
  "timeout_exn req =
     DispatchError (''upstream timeout after '' @ repr_float (hr_timeout req) @ ''s'') (-32603) ''upstream_timeout'' None"

definition connection_exn :: "string \<Rightarrow> exn" where
  "connection_exn t = DispatchError (''upstream connection error: '' @ t) (-32603) ''upstream_error'' None"

text \<open>
  The \<open>while True\<close> loop of \<open>_send\<close>, entered with the number of attempts made. The last test, after
  the pause, is the code's own guard against running on after an exception.
\<close>

function send :: "world \<Rightarrow> rat \<Rightarrow> int \<Rightarrow> http_req \<Rightarrow> nat \<Rightarrow> gw \<Rightarrow> tool_result res \<times> gw" where
  "send w backoff retries req attempt g =
     (case http_request w req g of (out, g) \<Rightarrow>
       (case out of
          Response r \<Rightarrow>
            (if rs_status r \<in> set RETRYABLE_STATUS \<and> int attempt < retries
             then send w backoff retries req (Suc attempt) (sleep (backoff * 2 ^ attempt) g)
             else (interpret_resp r, g))
        | Timeout t \<Rightarrow>
            (if int attempt \<ge> retries then (Inl (timeout_exn req), g)
             else (let g = sleep (backoff * 2 ^ attempt) g
                   in if int (Suc attempt) > retries
                      then (Inl (DispatchError (''upstream error: '' @ t) (-32603) ''upstream_error'' None), g)
                      else send w backoff retries req (Suc attempt) g))
        | TransportError t \<Rightarrow>
            (if int attempt \<ge> retries then (Inl (connection_exn t), g)
             else (let g = sleep (backoff * 2 ^ attempt) g
                   in if int (Suc attempt) > retries
                      then (Inl (DispatchError (''upstream error: '' @ t) (-32603) ''upstream_error'' None), g)
                      else send w backoff retries req (Suc attempt) g))
        | Raised cls t \<Rightarrow> (Inl (PyError cls t), g)))"
  by pat_completeness auto
termination
  by (relation "measure (\<lambda>(w, backoff, retries, req, attempt, g). nat (retries - int attempt))") auto

declare send.simps [simp del]

section \<open>invoke\<close>

text \<open>What \<open>invoke\<close> works out before sending: the number of retries and the request.\<close>

definition http_prepare :: "world \<Rightarrow> http_adapter \<Rightarrow> tool_invocation \<Rightarrow> (int \<times> http_req) res" where
  "http_prepare w a i =
     (let cfg = v_config (inv_tool i)
      in bindE (env_required w (jget cfg ''base_url_env'') ''base_url_env'') (\<lambda>base_url.
         let verb = upper (py_str (jget_default cfg ''method'' (JStr ''GET'')))
         in bindE (to_float (py_or (jget cfg ''timeout_sec'') (JFloat (ha_timeout a)))) (\<lambda>timeout.
            bindE (retries_for a i cfg) (\<lambda>retries.
            bindE (map_params (inv_arguments i) (py_str (py_or (jget cfg ''path'') (JStr [])))
                     (py_or (jget cfg ''param_map'') (JObj [])) verb (jget cfg ''body_wrap'')) (\<lambda>m.
            bindE (build_headers w i (m_header m)) (\<lambda>headers.
            Inr (retries,
                 \<lparr>hr_verb = verb, hr_url = rstrip_slash base_url @ m_path m, hr_params = m_query m,
                  hr_body = (if m_body m \<noteq> [] then Some (JObj (m_body m)) else None),
                  hr_headers = headers, hr_timeout = timeout\<rparr>)))))))"

definition http_invoke :: "world \<Rightarrow> http_adapter \<Rightarrow> tool_invocation \<Rightarrow> gw \<Rightarrow> tool_result res \<times> gw" where
  "http_invoke w a i g =
     (case http_prepare w a i of
        Inl e \<Rightarrow> (Inl e, g)
      | Inr (retries, req) \<Rightarrow> send w (ha_backoff a) retries req 0 g)"

text \<open>What a prepared request is made of.\<close>

lemma http_prepareD:
  assumes "http_prepare w a i = Inr (retries, req)"
  obtains base m headers where
    "env_required w (jget (v_config (inv_tool i)) ''base_url_env'') ''base_url_env'' = Inr base"
    "retries_for a i (v_config (inv_tool i)) = Inr retries"
    "map_params (inv_arguments i) (py_str (py_or (jget (v_config (inv_tool i)) ''path'') (JStr [])))
       (py_or (jget (v_config (inv_tool i)) ''param_map'') (JObj [])) (hr_verb req)
       (jget (v_config (inv_tool i)) ''body_wrap'') = Inr m"
    "build_headers w i (m_header m) = Inr headers"
    "hr_headers req = headers" "hr_url req = rstrip_slash base @ m_path m" "hr_params req = m_query m"
    "hr_body req = (if m_body m \<noteq> [] then Some (JObj (m_body m)) else None)"
  using assms unfolding http_prepare_def Let_def bindE_eq_Inr
  by (elim exE conjE) (rule that, auto)

section \<open>The retry loop\<close>

text \<open>The events of attempts \<open>k\<close> to \<open>n\<close>: the same request each time, with doubling pauses between.\<close>

definition attempts :: "http_req \<Rightarrow> rat \<Rightarrow> nat \<Rightarrow> nat \<Rightarrow> trace" where
  "attempts req b k n = concat (map (\<lambda>j. [EvHttp req, EvSleep (b * 2 ^ j)]) [k..<n]) @ [EvHttp req]"

lemma attempts_last [simp]: "attempts req b n n = [EvHttp req]"
  by (simp add: attempts_def)

lemma attempts_first: "k < n \<Longrightarrow> attempts req b k n = EvHttp req # EvSleep (b * 2 ^ k) # attempts req b (Suc k) n"
  by (simp add: attempts_def upt_conv_Cons)

lemma attempts_requests: "length (filter upstream (attempts req b 0 n)) = Suc n"
proof -
  have "filter upstream (concat (map (\<lambda>j. [EvHttp req, EvSleep (b * 2 ^ j)]) js)) = map (\<lambda>j. EvHttp req) js"
    for js :: "nat list"
    by (induction js) simp_all
  then show ?thesis by (simp add: attempts_def)
qed

text \<open>Is an outcome one that another attempt may follow?\<close>

definition retryable :: "http_outcome \<Rightarrow> bool" where
  "retryable out =
     (case out of Response r \<Rightarrow> rs_status r \<in> set RETRYABLE_STATUS | Timeout _ \<Rightarrow> True
      | TransportError _ \<Rightarrow> True | Raised _ _ \<Rightarrow> False)"

definition outcome_result :: "http_req \<Rightarrow> http_outcome \<Rightarrow> tool_result res" where
  "outcome_result req out =
     (case out of Response r \<Rightarrow> interpret_resp r | Timeout _ \<Rightarrow> Inl (timeout_exn req)
      | TransportError t \<Rightarrow> Inl (connection_exn t) | Raised c t \<Rightarrow> Inl (PyError c t))"

text \<open>One turn of the loop: stop with the outcome, or pause and go on. The guard is never taken.\<close>

lemma send_step:
  "send w b retries req k g =
     (let g1 = emit (EvHttp req) g; out = w_http w (g_trace g1)
      in if retryable out \<and> int k < retries
         then send w b retries req (Suc k) (sleep (b * 2 ^ k) g1)
         else (outcome_result req out, g1))"
  by (subst send.simps)
     (simp add: http_request_def Let_def retryable_def outcome_result_def not_less split: http_outcome.splits)

lemma send_shape:
  "send w b retries req k g = (res, g') \<Longrightarrow>
     \<exists>n. k \<le> n \<and> int n \<le> max retries (int k) \<and> g' = g\<lparr>g_trace := g_trace g @ attempts req b k n\<rparr> \<and>
       res = outcome_result req (w_http w (g_trace g')) \<and>
       (int n < retries \<longrightarrow> \<not> retryable (w_http w (g_trace g')))"
proof (induction "nat (retries - int k)" arbitrary: k g rule: less_induct)
  case less
  let ?g1 = "emit (EvHttp req) g"
  show ?case
  proof (cases "retryable (w_http w (g_trace ?g1)) \<and> int k < retries")
    case True
    with less.prems have rec: "send w b retries req (Suc k) (sleep (b * 2 ^ k) ?g1) = (res, g')"
      by (subst (asm) send_step) (simp add: Let_def)
    have "nat (retries - int (Suc k)) < nat (retries - int k)" using True by simp
    from less.hyps [OF this rec] obtain n where n: "Suc k \<le> n" "int n \<le> max retries (int (Suc k))"
      "g' = (sleep (b * 2 ^ k) ?g1)\<lparr>g_trace := g_trace (sleep (b * 2 ^ k) ?g1) @ attempts req b (Suc k) n\<rparr>"
      "res = outcome_result req (w_http w (g_trace g'))"
      "int n < retries \<longrightarrow> \<not> retryable (w_http w (g_trace g'))" by blast
    have "g' = g\<lparr>g_trace := g_trace g @ attempts req b k n\<rparr>"
      using n(1,3) by (simp add: attempts_first sleep_def emit_def)
    with n True show ?thesis by (intro exI [of _ n]) auto
  next
    case False
    with less.prems have "res = outcome_result req (w_http w (g_trace ?g1))" "g' = ?g1"
      by (subst (asm) send_step; auto simp: Let_def)+
    with False show ?thesis by (intro exI [of _ k]) (auto simp: emit_def)
  qed
qed

text \<open>Everything before the loop is a pure function of the configuration and the invocation.\<close>

lemma http_invoke_cases:
  obtains (refused) e where "http_invoke w a i g = (Inl e, g)" "http_prepare w a i = Inl e"
  | (sent) retries req where "http_invoke w a i g = send w (ha_backoff a) retries req 0 g"
      "http_prepare w a i = Inr (retries, req)"
  by (cases "http_prepare w a i") (auto simp: http_invoke_def)

lemma send_frame:
  "g_db (snd (send w b retries req k g)) = g_db g" "g_cache (snd (send w b retries req k g)) = g_cache g"
  "g_jwks (snd (send w b retries req k g)) = g_jwks g" "extends g (snd (send w b retries req k g))"
  using send_shape [of w b retries req k g "fst (send w b retries req k g)" "snd (send w b retries req k g)"]
  by (auto simp: extends_def)

interpretation http: dispatcher "http_invoke w a"
  for w a
proof
  fix i g
  show "extends g (snd (http_invoke w a i g))" "g_db (snd (http_invoke w a i g)) = g_db g"
    "g_cache (snd (http_invoke w a i g)) = g_cache g" "g_jwks (snd (http_invoke w a i g)) = g_jwks g"
    by (cases rule: http_invoke_cases [of w a i g]; simp add: send_frame)+
qed

interpretation http_status: status_map interpret_resp
  by unfold_locales (auto simp: interpret_resp_def is_success_def Let_def)

section \<open>Where the arguments go\<close>

definition args_to :: "json \<Rightarrow> string list \<Rightarrow> target \<Rightarrow> json dict \<Rightarrow> target \<Rightarrow> json dict" where
  "args_to pm vars bucket args t = filter (\<lambda>kv. target_of pm vars bucket (fst kv) = Inr t) args"

text \<open>The header assignments, in the order of the arguments.\<close>

fun header_args :: "json \<Rightarrow> string list \<Rightarrow> target \<Rightarrow> json dict \<Rightarrow> string dict" where
  "header_args pm vars bucket [] = []"
| "header_args pm vars bucket ((k, v) # args) =
     (case target_of pm vars bucket k of
        Inr (ToHeader h) \<Rightarrow> (h, header_text v) # header_args pm vars bucket args
      | _ \<Rightarrow> header_args pm vars bucket args)"

lemma update_new: "k \<notin> fst ` set d \<Longrightarrow> AList.update k v d = d @ [(k, v)]"
  by (induction d) auto

lemma split_args_buckets:
  assumes "split_args pm vars bucket args b = Inr b'" and "wf_dict args"
    and "fst ` set args \<inter> (fst ` set (b_path b) \<union> fst ` set (b_query b) \<union> fst ` set (b_body b)) = {}"
  shows "b_path b' = b_path b @ args_to pm vars bucket args ToPath \<and>
    b_query b' = b_query b @ args_to pm vars bucket args ToQuery \<and>
    b_body b' = b_body b @ args_to pm vars bucket args ToBody \<and>
    b_header b' = dict_update (b_header b) (header_args pm vars bucket args) \<and>
    (\<forall>k \<in> fst ` set args. \<exists>t. target_of pm vars bucket k = Inr t)"
  using assms
proof (induction args arbitrary: b)
  case (Cons kv args)
  obtain k v where kv: "kv = (k, v)" by fastforce
  from Cons.prems(1) obtain t where t: "target_of pm vars bucket k = Inr t"
    and rest: "split_args pm vars bucket args (put t k v b) = Inr b'"
    by (auto simp: kv bindE_eq_Inr)
  have new: "k \<notin> fst ` set (b_path b)" "k \<notin> fst ` set (b_query b)" "k \<notin> fst ` set (b_body b)"
    "k \<notin> fst ` set args" and wf: "wf_dict args"
    using Cons.prems(2,3) by (auto simp: kv wf_dict_def)
  have "fst ` set args \<inter> (fst ` set (b_path (put t k v b)) \<union> fst ` set (b_query (put t k v b)) \<union>
      fst ` set (b_body (put t k v b))) = {}"
    using Cons.prems(3) new by (cases t) (auto simp: kv update_new)
  from Cons.IH [OF rest wf this] show ?case
    using new t by (cases t) (auto simp: kv update_new args_to_def)
qed (simp add: args_to_def)

lemma map_paramsD:
  assumes "map_params args template pm verb wrap = Inr m" and "wf_dict args"
  shows "render_path template (args_to pm (piece_vars (template_pieces template)) (default_target verb) args ToPath)
      = Inr (m_path m)"
    and "m_query m = args_to pm (piece_vars (template_pieces template)) (default_target verb) args ToQuery"
    and "m_header m = dict_update [] (header_args pm (piece_vars (template_pieces template)) (default_target verb) args)"
    and "(let body = args_to pm (piece_vars (template_pieces template)) (default_target verb) args ToBody
          in m_body m = body \<or> (\<exists>k. truthy wrap \<and> json_key wrap = Inr k \<and> body \<noteq> [] \<and> m_body m = [(k, JObj body)]))"
    and "\<forall>k \<in> fst ` set args. \<exists>t. target_of pm (piece_vars (template_pieces template)) (default_target verb) k = Inr t"
proof -
  let ?vars = "piece_vars (template_pieces template)"
  obtain b where b: "split_args pm ?vars (default_target verb) args no_buckets = Inr b"
    and path: "render_path template (b_path b) = Inr (m_path m)" and query: "m_query m = b_query b"
    and header: "m_header m = b_header b"
    and body: "m_body m = b_body b \<or> (\<exists>k. truthy wrap \<and> json_key wrap = Inr k \<and> b_body b \<noteq> [] \<and>
      m_body m = [(k, JObj (b_body b))])"
    using assms(1) by (auto simp: map_params_def bindE_eq_Inr split: if_splits)
  note parts = split_args_buckets [OF b assms(2)]
  show "render_path template (args_to pm ?vars (default_target verb) args ToPath) = Inr (m_path m)"
    using parts path by simp
  show "m_query m = args_to pm ?vars (default_target verb) args ToQuery" using parts query by simp
  show "m_header m = dict_update [] (header_args pm ?vars (default_target verb) args)" using parts header by simp
  show "let body = args_to pm ?vars (default_target verb) args ToBody
        in m_body m = body \<or> (\<exists>k. truthy wrap \<and> json_key wrap = Inr k \<and> body \<noteq> [] \<and> m_body m = [(k, JObj body)])"
    using parts body by simp
  show "\<forall>k \<in> fst ` set args. \<exists>t. target_of pm ?vars (default_target verb) k = Inr t" using parts by simp
qed

section \<open>Paths\<close>

fun literal_text :: "piece list \<Rightarrow> string" where
  "literal_text [] = []"
| "literal_text (Lit c # ps) = c # literal_text ps"
| "literal_text (Var v # ps) = literal_text ps"

definition url_delimiter :: "char \<Rightarrow> bool" where
  "url_delimiter c \<longleftrightarrow> c \<in> {CHR ''/'', CHR ''?'', CHR ''#'', CHR ''&'', CHR '':'', CHR ''@'', CHR '' '', CHR 0x5C}"

lemma hex_digit_plain: "d < 16 \<Longrightarrow> \<not> url_delimiter (hex_digit d)"
proof -
  assume "d < 16"
  then have "d \<in> set [0..<16]" by simp
  moreover have "list_all (\<lambda>d. \<not> url_delimiter (hex_digit d)) [0..<16]" by code_simp
  ultimately show ?thesis unfolding list_all_iff by blast
qed

lemma quote_byte_plain: "c' \<in> set (quote_byte c) \<Longrightarrow> \<not> url_delimiter c'"
proof -
  assume c': "c' \<in> set (quote_byte c)"
  have reserved: "\<not> unreserved c'" if "url_delimiter c'"
    using that by (auto simp: url_delimiter_def unreserved_def Let_def)
  have small: "(of_char c :: nat) div 16 < 16" "(of_char c :: nat) mod 16 < 16"
    using mod_less_divisor [of 256 "of_char c :: nat"] by (simp_all add: less_mult_imp_div_less)
  show ?thesis
  proof (cases "unreserved c")
    case True
    with c' have "c' = c" by (simp add: quote_byte_def)
    with True reserved show ?thesis by blast
  next
    case False
    with c' have "c' = CHR 0x25 \<or> c' = hex_digit ((of_char c :: nat) div 16) \<or> c' = hex_digit ((of_char c :: nat) mod 16)"
      by (simp add: quote_byte_def Let_def)
    then show ?thesis
      using hex_digit_plain small by (auto simp: url_delimiter_def)
  qed
qed

lemma quote_plain: "filter url_delimiter (quote s) = []"
  using quote_byte_plain by (auto simp: quote_def filter_empty_conv)

lemma render_delimiters: "render vs ps = Inr s \<Longrightarrow> filter url_delimiter s = filter url_delimiter (literal_text ps)"
proof (induction vs ps arbitrary: s rule: render.induct)
  case (3 vs v ps)
  then obtain x t where "map_of vs v = Some x" "render vs ps = Inr t" "s = quote (py_str x) @ t"
    by (auto simp: bindE_eq_Inr split: option.splits)
  with 3 show ?case by (simp add: quote_plain)
qed (auto simp: bindE_eq_Inr)

lemma render_vars: "render vs ps = Inr s \<Longrightarrow> set (piece_vars ps) \<subseteq> fst ` set vs"
proof (induction vs ps arbitrary: s rule: render.induct)
  case (3 vs v ps)
  then obtain x t where x: "map_of vs v = Some x" and t: "render vs ps = Inr t"
    by (auto simp: bindE_eq_Inr split: option.splits)
  from map_of_SomeD [OF x] have "v \<in> fst ` set vs" by (rule image_eqI [rotated]) simp
  with 3(1) [OF x t] show ?case by simp
qed (auto simp: bindE_eq_Inr)

section \<open>Headers\<close>

lemma build_headers_get:
  assumes "build_headers w i extra = Inr headers" and "wf_dict extra"
  shows "map_of headers h =
    (case map_of extra h of
       Some v \<Rightarrow> Some v
     | None \<Rightarrow>
         (if some_text (customer_code (inv_auth i)) \<and> h = ''X-Customer-Code'' then customer_code (inv_auth i)
          else if some_text (v_auth_header (inv_tool i)) \<and> v_auth_header (inv_tool i) = Some h
               then Some (v_auth_prefix (inv_tool i) @ projr (credential w i))
          else map_of (gateway_headers i) h))"
proof -
  let ?base = "if some_text (v_auth_header (inv_tool i))
     then AList.update (the (v_auth_header (inv_tool i))) (v_auth_prefix (inv_tool i) @ projr (credential w i)) (gateway_headers i)
     else gateway_headers i"
  have eq: "headers = dict_update
      (if some_text (customer_code (inv_auth i))
       then AList.update ''X-Customer-Code'' (the (customer_code (inv_auth i))) ?base else ?base) extra"
    using assms(1) by (auto simp: build_headers_def bindE_eq_Inr Let_def split: if_splits)
  show ?thesis
    unfolding eq map_of_dict_update [OF assms(2)]
    by (auto simp: update_conv' some_text_def split: option.splits)
qed

text \<open>The headers an invocation assigns through its parameter map.\<close>

definition mapped_headers :: "tool_invocation \<Rightarrow> string \<Rightarrow> string dict" where
  "mapped_headers i verb =
     dict_update []
       (header_args (py_or (jget (v_config (inv_tool i)) ''param_map'') (JObj []))
          (piece_vars (template_pieces (py_str (py_or (jget (v_config (inv_tool i)) ''path'') (JStr [])))))
          (default_target verb) (inv_arguments i))"

section \<open>Properties\<close>

text \<open>
  C8: an invocation either stops before the first request and changes nothing, or sends one and the
  same request at most \<open>retries + 1\<close> times, pausing \<open>backoff * 2 ^ k\<close> after attempt \<open>k\<close>; its result
  is that of the last outcome, which no further attempt was allowed to follow; with
  \<open>user_passthrough\<close> there is exactly one attempt.
\<close>

theorem http_retry_bound:
  assumes "http_invoke w a i g = (res, g')"
  shows "(g' = g \<and> (\<exists>e. http_prepare w a i = Inl e \<and> res = Inl e)) \<or>
    (\<exists>retries req n. http_prepare w a i = Inr (retries, req) \<and> int n \<le> max 0 retries \<and>
       g_trace g' = g_trace g @ attempts req (ha_backoff a) 0 n \<and> g_db g' = g_db g \<and>
       res = outcome_result req (w_http w (g_trace g')) \<and>
       (int n < retries \<longrightarrow> \<not> retryable (w_http w (g_trace g'))) \<and>
       (v_auth_mode (inv_tool i) = ''user_passthrough'' \<longrightarrow> n = 0))"
proof (cases rule: http_invoke_cases [of w a i g])
  case (refused e)
  with assms show ?thesis by simp
next
  case (sent retries req)
  with assms have send: "send w (ha_backoff a) retries req 0 g = (res, g')" by simp
  obtain n where n: "int n \<le> max retries 0" "g' = g\<lparr>g_trace := g_trace g @ attempts req (ha_backoff a) 0 n\<rparr>"
    "res = outcome_result req (w_http w (g_trace g'))"
    "int n < retries \<longrightarrow> \<not> retryable (w_http w (g_trace g'))"
    using send_shape [OF send] by auto
  have "v_auth_mode (inv_tool i) = ''user_passthrough'' \<longrightarrow> n = 0"
    using sent(2) n(1) by (auto elim!: http_prepareD simp: retries_for_def)
  with n sent(2) show ?thesis by (intro disjI2 exI [of _ retries] exI [of _ req] exI [of _ n]) auto
qed

definition sample_adapter :: http_adapter where
  "sample_adapter = \<lparr>ha_timeout = PFin 30, ha_retries = 2, ha_backoff = 1 / 4\<rparr>"

lemma http_retry_bound_witness:
  "\<exists>n. g_trace (snd (http_invoke env_world sample_adapter sample_inv sample_gw)) =
     attempts (snd (projr (http_prepare env_world sample_adapter sample_inv))) (1 / 4) 0 n \<and> n = 0"
proof -
  let ?r = "http_invoke env_world sample_adapter sample_inv sample_gw"
  have ok: "\<not> isl (http_prepare env_world sample_adapter sample_inv)" by code_simp
  have [simp]: "v_auth_mode (inv_tool sample_inv) = ''user_passthrough''" "g_trace sample_gw = []"
      "ha_backoff sample_adapter = 1 / 4"
    by (simp_all add: sample_inv_def sample_view_def sample_gw_def sample_adapter_def)
  have "?r = (fst ?r, snd ?r)" by simp
  from http_retry_bound [OF this] ok show ?thesis by auto
qed

text \<open>
  every argument goes to exactly one place: the path, the query, the body and the headers hold
  the arguments the parameter map, the template and the method assign to them, in order, with their
  values, and nothing else.
\<close>

lemma map_params_partition:
  assumes "map_params args template pm verb wrap = Inr m" and "wf_dict args"
  defines "sent_to \<equiv> args_to pm (piece_vars (template_pieces template)) (default_target verb) args"
  shows "m_query m = sent_to ToQuery \<and>
    (m_body m = sent_to ToBody \<or>
     (\<exists>k. truthy wrap \<and> json_key wrap = Inr k \<and> m_body m = [(k, JObj (sent_to ToBody))])) \<and>
    m_header m = dict_update [] (header_args pm (piece_vars (template_pieces template)) (default_target verb) args) \<and>
    render_path template (sent_to ToPath) = Inr (m_path m) \<and>
    (\<forall>kv \<in> set args. \<exists>!t. target_of pm (piece_vars (template_pieces template)) (default_target verb) (fst kv) = Inr t)"
  using map_paramsD [OF assms(1,2)] unfolding sent_to_def by (auto simp: Let_def)

text \<open>
  C12: a path argument cannot leave its place in the URL: the delimiters of the rendered path
  (slash, question mark, hash, ampersand, colon, at sign, space, backslash) are those of the
  template's own text.
\<close>

theorem path_delimiters_from_template:
  assumes "render_path template vs = Inr s"
  shows "filter url_delimiter s = filter url_delimiter (literal_text (template_pieces template)) \<and>
    set (piece_vars (template_pieces template)) \<subseteq> fst ` set vs"
  using assms render_delimiters render_vars unfolding render_path_def by blast

lemma path_delimiters_from_template_witness:
  "\<exists>s. render_path ''/t/{id}'' [(''id'', JStr ''a/b?c'')] = Inr s \<and> length (filter url_delimiter s) = 2"
proof -
  have "render_path ''/t/{id}'' [(''id'', JStr ''a/b?c'')] = Inr ''/t/a%2Fb%3Fc''" by code_simp
  moreover have "length (filter url_delimiter (literal_text (template_pieces ''/t/{id}''))) = 2" by code_simp
  ultimately show ?thesis
    using path_delimiters_from_template [of "''/t/{id}''" "[(''id'', JStr ''a/b?c'')]" "''/t/a%2Fb%3Fc''"] by auto
qed

text \<open>
  C9: the headers of a request: an argument mapped to a header wins; otherwise the customer code of
  the caller goes out as \<open>X-Customer-Code\<close> whenever there is one, the credential under the tool's
  own header, and the caller's identity, the trace id and the tool under the gateway headers.
\<close>

theorem http_headers:
  assumes "http_prepare w a i = Inr (retries, req)" and "wf_dict (inv_arguments i)"
  shows "map_of (hr_headers req) h =
    (case map_of (mapped_headers i (hr_verb req)) h of
       Some v \<Rightarrow> Some v
     | None \<Rightarrow>
         (if some_text (customer_code (inv_auth i)) \<and> h = ''X-Customer-Code'' then customer_code (inv_auth i)
          else if some_text (v_auth_header (inv_tool i)) \<and> v_auth_header (inv_tool i) = Some h
               then Some (v_auth_prefix (inv_tool i) @ projr (credential w i))
          else map_of (gateway_headers i) h))"
proof (rule http_prepareD [OF assms(1)])
  fix base m headers
  assume m: "map_params (inv_arguments i) (py_str (py_or (jget (v_config (inv_tool i)) ''path'') (JStr [])))
       (py_or (jget (v_config (inv_tool i)) ''param_map'') (JObj [])) (hr_verb req)
       (jget (v_config (inv_tool i)) ''body_wrap'') = Inr m"
    and h: "build_headers w i (m_header m) = Inr headers" "hr_headers req = headers"
  have header: "m_header m = mapped_headers i (hr_verb req)"
    unfolding mapped_headers_def by (rule map_paramsD(3) [OF m assms(2)])
  have "wf_dict (m_header m)" unfolding header by (simp add: mapped_headers_def wf_dict_dict_update)
  from build_headers_get [OF h(1) this] h(2) header show ?thesis by simp
qed

lemma http_headers_witness:
  "map_of (hr_headers (snd (projr (http_prepare env_world sample_adapter sample_inv)))) ''X-Customer-Code''
     = Some ''CUST-1''"
proof -
  let ?p = "http_prepare env_world sample_adapter sample_inv"
  have "\<not> isl ?p" by code_simp
  then have p: "?p = Inr (fst (projr ?p), snd (projr ?p))" by (cases ?p) auto
  have wf: "wf_dict (inv_arguments sample_inv)" by code_simp
  have "mapped_headers sample_inv (hr_verb (snd (projr ?p))) = []" by code_simp
  with http_headers [OF p wf, of "''X-Customer-Code''"] show ?thesis
    by (simp add: sample_inv_def sample_ctx_def)
qed

end
