(* ===== verification/Daytona.thy ===== *)
theory Daytona
  imports DispatchBase Settings
begin

text \<open>
  \<open>app/dispatchers/daytona.py\<close>: the dispatcher that runs Python code in a sandbox of its own. The
  SDK is a parameter: each of its calls is an event whose outcome the world chooses.
\<close>

section \<open>Errors\<close>

text \<open>The dash between the parts of the messages, U+2014.\<close>

definition dash :: string where
  "dash = '' '' @ [CHR 0xE2, CHR 0x80, CHR 0x94] @ '' ''"

definition dispatch_error :: "string \<Rightarrow> int \<Rightarrow> string \<Rightarrow> exn" where
  "dispatch_error m code kind = DispatchError m code kind None"

text \<open>\<open>_map_sdk_error\<close>.\<close>

fun map_sdk_error :: "string \<Rightarrow> sdk_error \<Rightarrow> string \<Rightarrow> exn" where
  "map_sdk_error place AuthenticationError t =
     dispatch_error (''daytona '' @ place @ '': auth failed'' @ dash @ t) (-32001) ''upstream_denied''"
| "map_sdk_error place AuthorizationError t =
     dispatch_error (''daytona '' @ place @ '': forbidden'' @ dash @ t) (-32001) ''upstream_denied''"
| "map_sdk_error place NotFoundError t =
     dispatch_error (''daytona '' @ place @ '': not found'' @ dash @ t) (-32001) ''upstream_not_found''"
| "map_sdk_error place ValidationError t =
     dispatch_error (''daytona '' @ place @ '': validation'' @ dash @ t) (-32602) ''upstream_bad_request''"
| "map_sdk_error place TimeoutError t =
     dispatch_error (''daytona '' @ place @ '': timed out'' @ dash @ t) (-32603) ''upstream_timeout''"
| "map_sdk_error place ConnectionError t =
     dispatch_error (''daytona '' @ place @ '': connection error'' @ dash @ t) (-32603) ''upstream_error''"
| "map_sdk_error place RateLimitError t =
     dispatch_error (''daytona '' @ place @ '': rate limited'' @ dash @ t) (-32603) ''upstream_error''"
| "map_sdk_error place OtherDaytonaError t =
     dispatch_error (''daytona '' @ place @ '': '' @ t) (-32603) ''upstream_error''"
| "map_sdk_error place AsyncioTimeout t =
     dispatch_error (''daytona '' @ place @ '': asyncio timeout'') (-32603) ''upstream_timeout''"
| "map_sdk_error place OtherError t =
     dispatch_error (''daytona '' @ place @ '': '' @ t) (-32603) ''upstream_error''"

section \<open>The sandbox\<close>

text \<open>
  The \<open>finally\<close> block: two attempts at deletion with a pause of a second between them, when a
  sandbox exists; then the client is closed. Errors are logged and dropped.
\<close>

definition delete_sandbox :: "world \<Rightarrow> gw \<Rightarrow> gw" where
  "delete_sandbox w g =
     (case sdk w SdkDelete g of
        (SdkFail e t, g) \<Rightarrow> (case sdk w SdkDelete (sleep 1 g) of (_, g) \<Rightarrow> g)
      | (_, g) \<Rightarrow> g)"

definition close_client :: "world \<Rightarrow> gw \<Rightarrow> gw" where
  "close_client w g = (case sdk w SdkClose g of (_, g) \<Rightarrow> g)"

text \<open>
  The answer of the sandbox as JSON; an attribute the SDK's version lacks takes its default. The
  attributes are JSON values: an SDK whose dump of the artifacts held anything else would make
  \<open>json.dumps\<close> of the payload raise, which is not modelled.
\<close>

definition payload_of :: "sdk_response \<Rightarrow> json" where
  "payload_of r =
     JObj ([(''exit_code'', case sr_exit_code r of None \<Rightarrow> JNull | Some v \<Rightarrow> v),
            (''result'', case sr_result r of None \<Rightarrow> JStr [] | Some v \<Rightarrow> v)]
           @ (case sr_artifacts r of
                None \<Rightarrow> []
              | Some (Dumped v) \<Rightarrow> [(''artifacts'', v)]
              | Some (Undumped s) \<Rightarrow> [(''artifacts'', JStr s)]))"

record run_args =
  ra_base_url :: string
  ra_token :: string
  ra_code :: string
  ra_exec_timeout :: int
  ra_create_timeout :: pyfloat
  ra_language :: string

definition no_attributes :: sdk_response where
  "no_attributes = \<lparr>sr_exit_code = None, sr_result = None, sr_artifacts = None\<rparr>"

text \<open>\<open>_run\<close>; a failure of the client's constructor is outside the inner handlers.\<close>

definition daytona_run :: "world \<Rightarrow> run_args \<Rightarrow> gw \<Rightarrow> json res \<times> gw" where
  "daytona_run w ra g =
     (if \<not> w_sdk_installed w
      then (Inl (config_error ''daytona-sdk not installed; add `daytona-sdk` to requirements.txt''), g)
      else (case sdk w (SdkClient (ra_base_url ra) (ra_token ra)) g of
          (SdkFail e t, g) \<Rightarrow> (Inl (PyError ''SdkError'' t), g)
        | (_, g) \<Rightarrow>
            (case sdk w (SdkCreate (ra_language ra) (ra_create_timeout ra)) g of
               (SdkFail e t, g) \<Rightarrow> (Inl (map_sdk_error ''create sandbox'' e t), close_client w g)
             | (_, g) \<Rightarrow>
                 (case sdk w (SdkRun (ra_code ra) (ra_exec_timeout ra)) g of
                    (SdkFail e t, g) \<Rightarrow> (Inl (map_sdk_error ''code_run'' e t), close_client w (delete_sandbox w g))
                  | (SdkRan r, g) \<Rightarrow> (Inr (payload_of r), close_client w (delete_sandbox w g))
                  | (SdkOk, g) \<Rightarrow> (Inr (payload_of no_attributes), close_client w (delete_sandbox w g))))))"

section \<open>invoke\<close>

record daytona =
  dy_timeout :: pyfloat
  dy_max_timeout :: pyfloat

definition daytona_of :: "settings \<Rightarrow> daytona" where
  "daytona_of s = \<lparr>dy_timeout = daytona_default_timeout_sec s, dy_max_timeout = daytona_max_timeout_sec s\<rparr>"

definition requested_timeout :: "daytona \<Rightarrow> json \<Rightarrow> pyfloat res" where
  "requested_timeout d requested =
     (case to_float requested of
        Inr f \<Rightarrow> Inr f
      | Inl (PyError c t) \<Rightarrow> (if c \<in> {''TypeError'', ''ValueError''} then Inr (dy_timeout d) else Inl (PyError c t))
      | Inl e \<Rightarrow> Inl e)"

definition exec_timeout :: "pyfloat \<Rightarrow> pyfloat \<Rightarrow> int res" where
  "exec_timeout requested max_timeout = int_of_float (pf_min (pf_max requested (PFin 1)) max_timeout)"

text \<open>The guards and conversions before the sandbox is touched.\<close>

definition daytona_prepare :: "world \<Rightarrow> daytona \<Rightarrow> tool_invocation \<Rightarrow> run_args res" where
  "daytona_prepare w d i =
     (let base = rstrip_slash (environ_get w ''DAYTONA_API_BASE''); token = environ_get w ''DAYTONA_API_TOKEN'';
          args = inv_arguments i; cfg = v_config (inv_tool i)
      in if base = [] \<or> is_placeholder (Some base)
         then Inl (config_error ''daytona: DAYTONA_API_BASE is not configured'')
         else if token = [] \<or> is_placeholder (Some token)
         then Inl (config_error ''daytona: DAYTONA_API_TOKEN is not configured'')
         else (case jget args ''code'' of
                 JStr code \<Rightarrow>
                   (if strip code = []
                    then Inl (dispatch_error ''daytona: arguments.code is required (non-empty string)'' (-32602) ''invalid_params'')
                    else bindE (to_float (py_or (jget cfg ''max_timeout_sec'') (JFloat (dy_max_timeout d)))) (\<lambda>max_timeout.
                         bindE (requested_timeout d (py_or (jget args ''timeout_sec'')
                                  (py_or (jget cfg ''timeout_sec'') (JFloat (dy_timeout d))))) (\<lambda>requested.
                         bindE (exec_timeout requested max_timeout) (\<lambda>limit.
                         bindE (to_float (py_or (jget cfg ''create_timeout_sec'') (JFloat (PFin 120)))) (\<lambda>create_timeout.
                           Inr \<lparr>ra_base_url = base, ra_token = token, ra_code = code, ra_exec_timeout = limit,
                                ra_create_timeout = create_timeout,
                                ra_language = py_str (py_or (jget cfg ''language'') (JStr ''python''))\<rparr>)))))
               | _ \<Rightarrow> Inl (dispatch_error ''daytona: arguments.code is required (non-empty string)'' (-32602) ''invalid_params'')))"

text \<open>A DispatchError passes; any other exception of the run becomes one.\<close>

definition unexpected :: "exn \<Rightarrow> exn" where
  "unexpected e =
     (case e of DispatchError m c k s \<Rightarrow> e
      | _ \<Rightarrow> dispatch_error (''daytona unexpected error: '' @ exn_text e) (-32603) ''upstream_error'')"

definition daytona_invoke :: "world \<Rightarrow> daytona \<Rightarrow> tool_invocation \<Rightarrow> gw \<Rightarrow> tool_result res \<times> gw" where
  "daytona_invoke w d i g =
     (case daytona_prepare w d i of
        Inl e \<Rightarrow> (Inl e, g)
      | Inr ra \<Rightarrow>
          (case daytona_run w ra g of
             (Inl e, g) \<Rightarrow> (Inl (unexpected e), g)
           | (Inr payload, g) \<Rightarrow> (Inr (text_result (json_dumps False payload)), g)))"

section \<open>What a run does\<close>

text \<open>The deletions of a run: one, or two with a pause.\<close>

definition deletions :: "bool \<Rightarrow> trace" where
  "deletions again =
     (if again then [EvSdk SdkDelete, EvSleep 1, EvSdk SdkDelete] else [EvSdk SdkDelete])"

fun sdk_failed :: "sdk_outcome \<Rightarrow> bool" where
  "sdk_failed (SdkFail _ _) = True"
| "sdk_failed _ = False"

definition run_events :: "run_args \<Rightarrow> trace" where
  "run_events ra =
     [EvSdk (SdkClient (ra_base_url ra) (ra_token ra)),
      EvSdk (SdkCreate (ra_language ra) (ra_create_timeout ra)),
      EvSdk (SdkRun (ra_code ra) (ra_exec_timeout ra))]"

text \<open>
  The four histories of a run: no SDK, no client, no sandbox (nothing to delete), or a sandbox with
  one run followed by its deletion.
\<close>

definition run_history :: "world \<Rightarrow> trace \<Rightarrow> run_args \<Rightarrow> trace \<Rightarrow> bool" where
  "run_history w past ra es \<longleftrightarrow>
     es = [] \<or> es = take 1 (run_events ra) \<or> es = take 2 (run_events ra) @ [EvSdk SdkClose] \<or>
     es = run_events ra @ deletions (sdk_failed (w_sdk w (past @ run_events ra @ [EvSdk SdkDelete]))) @ [EvSdk SdkClose]"

lemma delete_sandbox_shape:
  "delete_sandbox w g = g\<lparr>g_trace := g_trace g @ deletions (sdk_failed (w_sdk w (g_trace g @ [EvSdk SdkDelete])))\<rparr>"
  by (auto simp: delete_sandbox_def sdk_def Let_def sleep_def emit_def deletions_def split: sdk_outcome.split)

lemma close_client_shape: "close_client w g = g\<lparr>g_trace := g_trace g @ [EvSdk SdkClose]\<rparr>"
  by (simp add: close_client_def sdk_def Let_def emit_def)

lemma sdk_eq: "sdk w c g = (w_sdk w (g_trace g @ [EvSdk c]), emit (EvSdk c) g)"
  by (simp add: sdk_def Let_def)

text \<open>The cleanup after the three calls.\<close>

lemma cleanup_shape:
  assumes "g1 = g\<lparr>g_trace := g_trace g @ run_events ra\<rparr>"
  shows "\<exists>es. close_client w (delete_sandbox w g1) = g\<lparr>g_trace := g_trace g @ es\<rparr> \<and> run_history w (g_trace g) ra es"
  using assms
  by (intro exI [of _ "run_events ra @
        deletions (sdk_failed (w_sdk w (g_trace g @ run_events ra @ [EvSdk SdkDelete]))) @ [EvSdk SdkClose]"])
    (simp add: delete_sandbox_shape close_client_shape run_history_def)

lemma daytona_run_shape:
  assumes "daytona_run w ra g = (r, g')"
  shows "\<exists>es. g' = g\<lparr>g_trace := g_trace g @ es\<rparr> \<and> run_history w (g_trace g) ra es"
proof (cases "w_sdk_installed w")
  case False
  with assms show ?thesis by (intro exI [of _ "[]"]) (simp add: daytona_run_def run_history_def)
next
  case sdk: True
  let ?c1 = "SdkClient (ra_base_url ra) (ra_token ra)"
  let ?c2 = "SdkCreate (ra_language ra) (ra_create_timeout ra)"
  let ?c3 = "SdkRun (ra_code ra) (ra_exec_timeout ra)"
  let ?g1 = "emit (EvSdk ?c1) g"
  let ?g2 = "emit (EvSdk ?c2) ?g1"
  let ?g3 = "emit (EvSdk ?c3) ?g2"
  let ?f = "\<lambda>o'. \<exists>e t. o' = SdkFail e t"
  let ?o1 = "w_sdk w (g_trace g @ [EvSdk ?c1])"
  let ?o2 = "w_sdk w (g_trace ?g1 @ [EvSdk ?c2])"
  let ?o3 = "w_sdk w (g_trace ?g2 @ [EvSdk ?c3])"
  have g3: "?g3 = g\<lparr>g_trace := g_trace g @ run_events ra\<rparr>" by (simp add: emit_def run_events_def)
  consider "?f ?o1" | "\<not> ?f ?o1" "?f ?o2" | "\<not> ?f ?o1" "\<not> ?f ?o2" by blast
  then show ?thesis
  proof cases
    case 1
    then obtain e t where "?o1 = SdkFail e t" by blast
    then have "daytona_run w ra g = (Inl (PyError ''SdkError'' t), ?g1)"
      using sdk by (simp add: daytona_run_def sdk_eq)
    with assms show ?thesis
      by (intro exI [of _ "take 1 (run_events ra)"]) (auto simp: emit_def run_events_def run_history_def)
  next
    case 2
    then obtain e t where o2: "?o2 = SdkFail e t" by blast
    have "daytona_run w ra g = (Inl (map_sdk_error ''create sandbox'' e t), close_client w ?g2)"
      using sdk 2(1) o2 by (cases ?o1) (simp_all add: daytona_run_def sdk_eq)
    with assms show ?thesis
      by (intro exI [of _ "take 2 (run_events ra) @ [EvSdk SdkClose]"])
         (auto simp: emit_def run_events_def run_history_def close_client_shape)
  next
    case 3
    have "daytona_run w ra g = (case sdk w ?c3 ?g2 of
        (SdkFail e t, g) \<Rightarrow> (Inl (map_sdk_error ''code_run'' e t), close_client w (delete_sandbox w g))
      | (SdkRan r, g) \<Rightarrow> (Inr (payload_of r), close_client w (delete_sandbox w g))
      | (SdkOk, g) \<Rightarrow> (Inr (payload_of no_attributes), close_client w (delete_sandbox w g)))"
      using sdk 3 by (cases ?o1; cases ?o2) (simp_all add: daytona_run_def sdk_eq)
    then have "snd (daytona_run w ra g) = close_client w (delete_sandbox w ?g3)"
      by (cases ?o3) (simp_all add: sdk_eq)
    with assms cleanup_shape [OF g3, of w] show ?thesis by simp
  qed
qed

lemma daytona_invoke_cases:
  obtains (refused) e where "daytona_prepare w d i = Inl e" "daytona_invoke w d i g = (Inl e, g)"
  | (ran) ra es where "daytona_prepare w d i = Inr ra"
      "snd (daytona_invoke w d i g) = g\<lparr>g_trace := g_trace g @ es\<rparr>" "run_history w (g_trace g) ra es"
proof (cases "daytona_prepare w d i")
  case (Inl e)
  then show thesis by (intro refused) (simp_all add: daytona_invoke_def)
next
  case (Inr ra)
  obtain r g' where run: "daytona_run w ra g = (r, g')" by fastforce
  then obtain es where "g' = g\<lparr>g_trace := g_trace g @ es\<rparr>" "run_history w (g_trace g) ra es"
    using daytona_run_shape by blast
  with Inr run show thesis by (intro ran [of ra es]) (simp_all add: daytona_invoke_def split: sum.split)
qed

interpretation sandbox: dispatcher "daytona_invoke w d"
  for w d
proof
  fix i g
  show "extends g (snd (daytona_invoke w d i g))" "g_db (snd (daytona_invoke w d i g)) = g_db g"
    "g_cache (snd (daytona_invoke w d i g)) = g_cache g" "g_jwks (snd (daytona_invoke w d i g)) = g_jwks g"
    by (cases rule: daytona_invoke_cases [of w d i g]; simp add: extends_def)+
qed

section \<open>Properties\<close>

text \<open>The code runs and the deletions of a history.\<close>

fun is_run :: "event \<Rightarrow> bool" where
  "is_run (EvSdk (SdkRun _ _)) = True"
| "is_run _ = False"

fun is_delete :: "event \<Rightarrow> bool" where
  "is_delete (EvSdk SdkDelete) = True"
| "is_delete _ = False"

fun dispatch_failure :: "exn \<Rightarrow> bool" where
  "dispatch_failure (DispatchError _ _ _ _) = True"
| "dispatch_failure _ = False"

lemma dispatch_failure_unexpected: "dispatch_failure (unexpected e)"
  by (cases e) (simp_all add: unexpected_def dispatch_error_def)

text \<open>
  A run is followed by the deletion of its sandbox: an attempt, and exactly when it fails a pause and
  a second one.
\<close>

definition cleaned_up :: "world \<Rightarrow> trace \<Rightarrow> trace \<Rightarrow> bool" where
  "cleaned_up w past es \<longleftrightarrow>
     (\<exists>before run again. es = before @ [run] @ deletions again @ [EvSdk SdkClose] \<and> is_run run \<and>
        filter is_run before = [] \<and> filter is_delete before = [] \<and>
        (again \<longleftrightarrow> sdk_failed (w_sdk w (past @ before @ [run, EvSdk SdkDelete]))))"

lemma run_history_shape:
  assumes "run_history w (g_trace g) ra es"
  shows "if filter is_run es = [] then filter is_delete es = [] else cleaned_up w (g_trace g) es"
proof -
  consider "es = []" | "es = take 1 (run_events ra)" | "es = take 2 (run_events ra) @ [EvSdk SdkClose]"
    | again where "es = run_events ra @ deletions again @ [EvSdk SdkClose]"
      "again \<longleftrightarrow> sdk_failed (w_sdk w (g_trace g @ run_events ra @ [EvSdk SdkDelete]))"
    using assms by (auto simp: run_history_def)
  then show ?thesis
  proof cases
    case 4
    have split: "run_events ra = take 2 (run_events ra) @ [EvSdk (SdkRun (ra_code ra) (ra_exec_timeout ra))]"
      by (simp add: run_events_def)
    have "cleaned_up w (g_trace g) es"
      unfolding cleaned_up_def
      by (rule exI [of _ "take 2 (run_events ra)"], rule exI [of _ "EvSdk (SdkRun (ra_code ra) (ra_exec_timeout ra))"],
          rule exI [of _ again])
        (use 4 in \<open>simp_all add: run_events_def\<close>)
    moreover have "filter is_run es \<noteq> []" using 4(1) by (simp add: run_events_def)
    ultimately show ?thesis by simp
  qed (simp_all add: run_events_def)
qed

text \<open>
  The failures that are no DispatchError: a time limit, of the tool or of the caller, that is no
  number or too large for one.
\<close>

definition limit_error :: "daytona \<Rightarrow> tool_invocation \<Rightarrow> exn \<Rightarrow> bool" where
  "limit_error d i e \<longleftrightarrow>
     (let cfg = v_config (inv_tool i);
          max_timeout = to_float (py_or (jget cfg ''max_timeout_sec'') (JFloat (dy_max_timeout d)));
          requested = requested_timeout d (py_or (jget (inv_arguments i) ''timeout_sec'')
                        (py_or (jget cfg ''timeout_sec'') (JFloat (dy_timeout d))))
      in max_timeout = Inl e \<or> requested = Inl e \<or>
         (\<exists>r m. requested = Inr r \<and> max_timeout = Inr m \<and> exec_timeout r m = Inl e) \<or>
         to_float (py_or (jget cfg ''create_timeout_sec'') (JFloat (PFin 120))) = Inl e)"

lemma daytona_prepare_failure:
  assumes "daytona_prepare w d i = Inl e"
  shows "dispatch_failure e \<or> limit_error d i e"
  using assms
  by (auto simp: daytona_prepare_def limit_error_def Let_def bindE_def config_error_def dispatch_error_def
      split: if_splits json.splits sum.splits)

text \<open>
  C20: the submitted code is run at most once, whatever fails; after the run the deletion of the
  sandbox is attempted, and exactly when that fails attempted once more; where nothing was run nothing
  is deleted. A failure of the sandbox is always a DispatchError: the only other failures are time
  limits that cannot be converted, and they are raised before the sandbox is touched.
\<close>

theorem sandbox_lifecycle:
  assumes "daytona_invoke w d i g = (r, g')"
  defines "es \<equiv> new_events g g'"
  shows "length (filter is_run es) \<le> 1 \<and>
    (if filter is_run es = [] then filter is_delete es = [] else cleaned_up w (g_trace g) es) \<and>
    (\<forall>e. r = Inl e \<longrightarrow> dispatch_failure e \<or> limit_error d i e \<and> es = []) \<and>
    g_db g' = g_db g"
proof (cases rule: daytona_invoke_cases [of w d i g])
  case (refused e)
  then show ?thesis using assms(1) daytona_prepare_failure [OF refused(1)] by (auto simp: es_def new_events_def)
next
  case (ran ra events)
  then have es: "es = events" "g_db g' = g_db g" using assms(1) by (simp_all add: es_def new_events_def)
  have "dispatch_failure e" if "r = Inl e" for e
    using assms(1) that ran(1) dispatch_failure_unexpected
    by (auto simp: daytona_invoke_def split: prod.splits sum.splits)
  moreover have "length (filter is_run events) \<le> 1"
    using ran(3) by (auto simp: run_history_def run_events_def deletions_def split: if_splits)
  ultimately show ?thesis using es run_history_shape [OF ran(3)] by simp
qed

definition sandbox_world :: world where
  "sandbox_world = sample_world
     \<lparr>w_environ := (\<lambda>n. if n = ''DAYTONA_API_BASE'' then Some ''https://sandbox/api''
                       else if n = ''DAYTONA_API_TOKEN'' then Some ''dtn_1'' else None),
      w_sdk_installed := True,
      w_sdk := (\<lambda>t. case last t of EvSdk (SdkRun _ _) \<Rightarrow> SdkFail TimeoutError ''late'' | _ \<Rightarrow> SdkOk)\<rparr>"

definition python_inv :: tool_invocation where
  "python_inv = \<lparr>inv_tool = sample_view, inv_arguments = [(''code'', JStr ''print(1)''), (''timeout_sec'', JInt 900)],
     inv_auth = sample_ctx, inv_trace_id = ''t1''\<rparr>"

definition sample_daytona :: daytona where
  "sample_daytona = \<lparr>dy_timeout = PFin 60, dy_max_timeout = PFin 300\<rparr>"

lemma sandbox_lifecycle_witness:
  "length (filter is_run (new_events sample_gw (snd (daytona_invoke sandbox_world sample_daytona python_inv sample_gw)))) \<le> 1"
  using sandbox_lifecycle [of sandbox_world sample_daytona python_inv sample_gw
      "fst (daytona_invoke sandbox_world sample_daytona python_inv sample_gw)"
      "snd (daytona_invoke sandbox_world sample_daytona python_inv sample_gw)", OF prod.collapse [symmetric]]
  by (rule conjunct1)

text \<open>
  Such time limits exist: \<open>float("nan")\<close> is a float that \<open>int\<close> refuses, and a
  maximum of the tool's configuration that is no number is refused by \<open>float\<close>.
\<close>

definition nan_inv :: tool_invocation where
  "nan_inv = python_inv\<lparr>inv_arguments := [(''code'', JStr ''print(1)''), (''timeout_sec'', JStr ''nan'')]\<rparr>"

definition abc_inv :: tool_invocation where
  "abc_inv = python_inv\<lparr>inv_tool := sample_view\<lparr>v_config := [(''max_timeout_sec'', JStr ''abc'')]\<rparr>\<rparr>"

definition is_value_error :: "'a res \<Rightarrow> bool" where
  "is_value_error r = (case r of Inl (PyError c t) \<Rightarrow> c = ''ValueError'' | _ \<Rightarrow> False)"

lemma time_limits_escape:
  "is_value_error (daytona_prepare sandbox_world sample_daytona nan_inv)"
  "is_value_error (daytona_prepare sandbox_world sample_daytona abc_inv)"
  by code_simp+

lemma trunc_bounds: "0 \<le> q \<Longrightarrow> of_int (trunc_rat q) \<le> q" "1 \<le> q \<Longrightarrow> 1 \<le> trunc_rat q"
  by (auto simp: trunc_rat_def)

lemma exec_timeout_bounds:
  assumes "exec_timeout requested (PFin q) = Inr n" and "1 \<le> q"
  shows "1 \<le> n \<and> of_int n \<le> q"
proof -
  have "\<exists>x. pf_min (pf_max requested (PFin 1)) (PFin q) = PFin x \<and> 1 \<le> x \<and> x \<le> q"
    using assms by (cases requested) (auto simp: exec_timeout_def pf_max_def pf_min_def)
  then obtain x where "pf_min (pf_max requested (PFin 1)) (PFin q) = PFin x" "1 \<le> x" "x \<le> q" by blast
  with assms(1) trunc_bounds [of x] show ?thesis by (auto simp: exec_timeout_def)
qed

text \<open>
  the time limit of a run is at least one second and at most the configured maximum, that of
  the tool or else that of the settings, whatever number, text or other value is requested.
\<close>

lemma sandbox_timeout_bounds:
  assumes "daytona_prepare w d i = Inr ra"
    and "to_float (py_or (jget (v_config (inv_tool i)) ''max_timeout_sec'') (JFloat (dy_max_timeout d))) = Inr (PFin q)"
    and "1 \<le> q"
  shows "1 \<le> ra_exec_timeout ra \<and> of_int (ra_exec_timeout ra) \<le> q"
proof -
  obtain requested where "exec_timeout requested (PFin q) = Inr (ra_exec_timeout ra)"
    using assms(1,2)
    by (auto simp: daytona_prepare_def Let_def bindE_eq_Inr split: if_splits json.splits)
  then show ?thesis using assms(3) by (rule exec_timeout_bounds)
qed

end
