(* ===== verification/Gateway.thy ===== *)
theory Gateway
  imports Handler HttpAdapter McpProxy Daytona
begin

text \<open>
  \<open>app/dispatchers/registry.py\<close>, and the MCP handler with the dispatchers it builds: what every
  answer to a JSON-RPC message has in common, when a call reaches a tool, and what a call leaves in
  the audit log. The HTTP client shared by the dispatchers has no state of its own here.
\<close>

section \<open>The dispatchers by name\<close>

definition build_dispatcher_registry :: "world \<Rightarrow> settings \<Rightarrow> dispatchers" where
  "build_dispatcher_registry w s =
     [''http_adapter'' \<mapsto> http_invoke w (http_adapter_of s),
      ''mcp_proxy'' \<mapsto> proxy_invoke w (mcp_proxy_of s),
      ''daytona_sandbox'' \<mapsto> daytona_invoke w (daytona_of s)]"

interpretation gateway: backend "build_dispatcher_registry w s"
  for w s
proof (rule backend.intro)
  fix n d
  assume "build_dispatcher_registry w s n = Some d"
  then consider "d = http_invoke w (http_adapter_of s)" | "d = proxy_invoke w (mcp_proxy_of s)"
    | "d = daytona_invoke w (daytona_of s)"
    by (auto simp: build_dispatcher_registry_def split: if_splits)
  then show "dispatcher d"
    by cases (simp_all add: http.dispatcher_axioms proxy.dispatcher_axioms sandbox.dispatcher_axioms)
qed

lemma known_dispatchers:
  "build_dispatcher_registry w s n \<noteq> None \<longleftrightarrow> n \<in> {''http_adapter'', ''mcp_proxy'', ''daytona_sandbox''}"
  by (auto simp: build_dispatcher_registry_def)

section \<open>Messages\<close>

text \<open>The id a response has to carry, and the messages by what is to be done with them.\<close>

definition request_id :: "json \<Rightarrow> json" where
  "request_id msg = (case msg of JObj d \<Rightarrow> jget d ''id'' | _ \<Rightarrow> JNull)"

definition envelope :: "json \<Rightarrow> json \<Rightarrow> json \<Rightarrow> bool" where
  "envelope msg i m \<longleftrightarrow>
     (case msg of
        JObj d \<Rightarrow> jget d ''jsonrpc'' = JStr ''2.0'' \<and> jget d ''id'' = i \<and> jget d ''method'' = m
      | _ \<Rightarrow> False)"

definition is_call :: "json \<Rightarrow> json \<Rightarrow> string \<Rightarrow> json dict \<Rightarrow> bool" where
  "is_call msg i name args \<longleftrightarrow>
     envelope msg i (JStr ''tools/call'') \<and> name \<noteq> [] \<and>
     (case msg of
        JObj d \<Rightarrow>
          (case py_or (jget d ''params'') (JObj []) of
             JObj p \<Rightarrow> jget p ''name'' = JStr name \<and> py_or (jget p ''arguments'') (JObj []) = JObj args
           | _ \<Rightarrow> False)
      | _ \<Rightarrow> False)"

text \<open>No answer is due: a notification, or the client's report that it is initialized.\<close>

definition silent :: "json \<Rightarrow> bool" where
  "silent msg \<longleftrightarrow>
     (\<exists>i m. envelope msg i (JStr m) \<and>
        (i = JNull \<and> startswith ''notifications/'' m \<or> m \<in> {''notifications/initialized'', ''initialized''}))"

text \<open>The one message the handler fails on: no id, and a method that is no text.\<close>

definition crashes :: "json \<Rightarrow> bool" where
  "crashes msg \<longleftrightarrow> (\<exists>m. envelope msg JNull m \<and> m \<noteq> JNull \<and> \<not> is_str m)"

text \<open>A tool call through the handler.\<close>

lemma handle_call:
  assumes "is_call msg i name args"
  shows "handle w s ds msg ctx g =
    (case authorized_call w ds ctx name args i g of
       (Inl exc, g) \<Rightarrow> (Inr (Some (internal_answer i exc)), g) | (Inr a, g) \<Rightarrow> (Inr (Some a), g))"
proof -
  obtain d where d: "msg = JObj d" using assms by (cases msg) (auto simp: is_call_def envelope_def)
  obtain p where p: "py_or (jget d ''params'') (JObj []) = JObj p" "jget p ''name'' = JStr name"
    "py_or (jget p ''arguments'') (JObj []) = JObj args"
    using assms d by (auto simp: is_call_def split: json.splits)
  have env: "jget d ''jsonrpc'' = JStr ''2.0''" "jget d ''id'' = i" "jget d ''method'' = JStr ''tools/call''" "name \<noteq> []"
    using assms d by (auto simp: is_call_def envelope_def)
  have tc: "tools_call w ds ctx i (JObj p) g = authorized_call w ds ctx name args i g"
    using p env by (simp add: tools_call_def Let_def)
  have "call_method w s ds ctx (JStr ''tools/call'') i (JObj p) g =
      andThen (authorized_call w ds ctx name args i g) (\<lambda>r g. (Inr (Some r), g))"
    by (simp add: call_method_def tc)
  then show ?thesis
    using d env p(1)
    by (cases "authorized_call w ds ctx name args i g"; cases "fst (authorized_call w ds ctx name args i g)")
       (simp_all add: handle_def Let_def)
qed

text \<open>What the handler does with any message.\<close>

lemma handle_cases:
  obtains (refused) a where "handle w s ds msg ctx g = (Inr (Some a), g)" "response_id a = request_id msg"
      "\<not> silent msg" "\<not> crashes msg" "\<not> is_call msg i name args"
  | (crash) e where "handle w s ds msg ctx g = (Inl e, g)" "crashes msg" "\<not> silent msg"
  | (notification) "handle w s ds msg ctx g = (Inr None, g)" "silent msg" "\<not> crashes msg"
  | (called) d m where "msg = JObj d" "envelope msg (request_id msg) m" "\<not> crashes msg"
      "silent msg \<longleftrightarrow> m \<in> {JStr ''notifications/initialized'', JStr ''initialized''}"
      "handle w s ds msg ctx g =
         (case call_method w s ds ctx m (request_id msg) (py_or (jget d ''params'') (JObj [])) g of
            (Inl exc, g) \<Rightarrow> (Inr (Some (internal_answer (request_id msg) exc)), g) | (Inr r, g) \<Rightarrow> (Inr r, g))"
proof (cases "\<exists>d. msg = JObj d \<and> jget d ''jsonrpc'' = JStr ''2.0'' \<and> jget d ''method'' \<noteq> JNull")
  case False
  then have "\<exists>a. handle w s ds msg ctx g = (Inr (Some a), g) \<and> response_id a = request_id msg"
    by (cases msg) (auto simp: handle_def request_id_def Let_def)
  then obtain a where "handle w s ds msg ctx g = (Inr (Some a), g)" "response_id a = request_id msg" by blast
  then show thesis
    by (rule refused) (use False in \<open>cases msg; auto simp: silent_def crashes_def is_call_def envelope_def\<close>)+
next
  case True
  then obtain d where d: "msg = JObj d" "jget d ''jsonrpc'' = JStr ''2.0''" "jget d ''method'' \<noteq> JNull" by blast
  define m where "m = jget d ''method''"
  define i where "i = jget d ''id''"
  have env: "envelope msg i' m' \<longleftrightarrow> i' = i \<and> m' = m" for i' m'
    using d by (auto simp: envelope_def m_def i_def)
  have i: "request_id msg = i" by (simp add: d request_id_def i_def)
  have m: "m \<noteq> JNull" using d by (simp add: m_def)
  have sil: "silent msg \<longleftrightarrow> (\<exists>t. m = JStr t \<and> (i = JNull \<and> startswith ''notifications/'' t \<or>
      t \<in> {''notifications/initialized'', ''initialized''}))"
    unfolding silent_def env by auto
  have cra: "crashes msg \<longleftrightarrow> i = JNull \<and> \<not> is_str m" unfolding crashes_def env using m by auto
  have hnd: "handle w s ds msg ctx g =
      (if i = JNull \<and> \<not> is_str m then (Inl (no_attr m ''startswith''), g)
       else if i = JNull \<and> startswith ''notifications/'' (py_str m) then (Inr None, g)
       else (case call_method w s ds ctx m i (py_or (jget d ''params'') (JObj [])) g of
            (Inl exc, g) \<Rightarrow> (Inr (Some (internal_answer i exc)), g) | (Inr r, g) \<Rightarrow> (Inr r, g)))"
    using d m by (simp add: handle_def Let_def flip: m_def i_def)
  consider (a) "i = JNull" "\<not> is_str m" | (b) t where "i = JNull" "m = JStr t" "startswith ''notifications/'' t"
    | (c) "\<not> (i = JNull \<and> \<not> is_str m)" "\<not> (i = JNull \<and> startswith ''notifications/'' (py_str m))"
    by (cases m) auto
  then show thesis
  proof cases
    case a
    then show thesis by (intro crash [of "no_attr m ''startswith''"]) (auto simp: hnd sil cra)
  next
    case b
    then show thesis by (intro notification) (auto simp: hnd sil cra)
  next
    case c
    then have quiet_msg: "silent msg \<longleftrightarrow> m \<in> {JStr ''notifications/initialized'', JStr ''initialized''}"
      unfolding sil by auto
    have "handle w s ds msg ctx g =
        (case call_method w s ds ctx m (request_id msg) (py_or (jget d ''params'') (JObj [])) g of
           (Inl exc, g) \<Rightarrow> (Inr (Some (internal_answer (request_id msg) exc)), g) | (Inr r, g) \<Rightarrow> (Inr r, g))"
      unfolding i hnd if_not_P [OF c(1)] if_not_P [OF c(2)] ..
    moreover have "envelope msg (request_id msg) m" by (simp add: i env)
    moreover have "\<not> crashes msg" using c by (simp add: cra)
    ultimately show thesis using called [OF d(1) _ _ quiet_msg] by blast
  qed
qed

section \<open>Answers carry the id of the request\<close>

lemma fail_call_value: "\<exists>g'. fail_call w t ctx name args started tool message code kind a g = (Inr a, g')"
  by (simp add: fail_call_def split: prod.split)

lemma dispatch_call_id:
  "dispatch_call w d t ctx name args started tool i g = (Inr a, g') \<Longrightarrow> response_id a = i"
  unfolding dispatch_call_def using fail_call_value
  by (auto split: prod.splits sum.splits exn.splits) (metis Inr_inject Pair_inject response_simps(2))+

lemma run_call_id:
  "run_call w ds t ctx name args started tool i g = (Inr a, g') \<Longrightarrow> response_id a = i"
  using fail_call_value dispatch_call_id unfolding run_call_def
  by (auto split: schema_outcome.splits option.splits) (metis Inr_inject Pair_inject response_simps(2))+

lemma authorized_call_id:
  assumes "authorized_call w ds ctx name args i g = (Inr a, g')"
  shows "response_id a = i"
  using assms
proof (cases rule: authorized_call_cases)
  case (denied t g1)
  then show ?thesis by (simp add: not_found_answer_def)
qed (auto dest: run_call_id)

lemma tools_call_id: "tools_call w ds ctx i p g = (Inr a, g') \<Longrightarrow> response_id a = i"
  unfolding tools_call_def Let_def
  by (auto split: sum.splits json.splits if_splits dest: authorized_call_id)

lemma tools_list_id: "tools_list w ctx i g = (Inr a, g') \<Longrightarrow> response_id a = i"
  by (auto simp: tools_list_def andThen_eq_Inr)

lemma initialize_id: "initialize s i p = Inr a \<Longrightarrow> response_id a = i"
  by (auto simp: initialize_def bindE_eq_Inr)

lemma call_method_id:
  assumes "call_method w s ds ctx m i p g = (Inr r, g')"
  shows "(r = None \<longleftrightarrow> m \<in> {JStr ''notifications/initialized'', JStr ''initialized''}) \<and>
    (\<forall>a. r = Some a \<longrightarrow> response_id a = i)"
  using assms
  by (auto simp: call_method_def andThen_eq_Inr bindE_eq_Inr split: if_splits
      dest: tools_call_id tools_list_id initialize_id)

section \<open>Only calls reach upstream services\<close>

lemma tools_list_frame: "registry_frame g (snd (tools_list w ctx i g))"
  using refresh_frame [of g w]
  by (cases rule: list_cases [of w g "roles ctx" "customer_code ctx" "[]"]) (simp_all add: tools_list_def)

lemma call_method_requests:
  assumes "call_method w s ds ctx m i (py_or (jget d ''params'') (JObj [])) g = (r, g')" "requests g g' \<noteq> 0"
    and "envelope (JObj d) i m"
  obtains name args where "is_call (JObj d) i name args"
proof -
  let ?p = "py_or (jget d ''params'') (JObj [])"
  have "quiet g (snd (tools_list w ctx i g))" using tools_list_frame by (simp add: registry_frame_def)
  then have "m = JStr ''tools/call''"
    using assms(1,2)
    by (auto simp: call_method_def andThen_def quiet_requests split: if_splits prod.splits sum.splits)
  then have snd: "snd (tools_call w ds ctx i ?p g) = g'"
    using assms(1) by (auto simp: call_method_def andThen_def split: prod.splits sum.splits)
  show thesis
  proof (cases "\<exists>name args p. ?p = JObj p \<and> jget p ''name'' = JStr name \<and> name \<noteq> [] \<and>
      py_or (jget p ''arguments'') (JObj []) = JObj args")
    case True
    then show thesis using that assms(3) \<open>m = _\<close> by (auto simp: is_call_def)
  next
    case False
    then have "snd (tools_call w ds ctx i ?p g) = g"
      by (auto simp: tools_call_def Let_def split: sum.splits json.splits elim!: as_dict.elims)
    with snd assms(2) show thesis by simp
  qed
qed

lemma handle_answers_facts:
  assumes "handle w s ds msg ctx g = (r, g')"
  shows "(isl r \<longleftrightarrow> crashes msg) \<and> (r = Inr None \<longleftrightarrow> silent msg) \<and>
    (\<forall>a. r = Inr (Some a) \<longrightarrow> response_id a = request_id msg)"
proof (cases rule: handle_cases [of w s ds msg ctx g i name args])
  case (called d m)
  show ?thesis
  proof (cases "call_method w s ds ctx m (request_id msg) (py_or (jget d ''params'') (JObj [])) g")
    case (Pair out g1)
    show ?thesis
    proof (cases out)
      case (Inl e)
      have "m \<notin> {JStr ''notifications/initialized'', JStr ''initialized''}"
        using Pair Inl by (auto simp: call_method_def split: if_splits)
      with Pair Inl called assms show ?thesis by (auto simp: internal_answer_def)
    next
      case (Inr res)
      with Pair called assms call_method_id [OF Pair [unfolded Inr]] show ?thesis by auto
    qed
  qed
qed (use assms in auto)

lemma handle_raises:
  assumes "handle w s ds msg ctx g = (Inl e, g')"
  shows "g' = g"
  using assms handle_answers_facts [OF assms]
  by (cases rule: handle_cases [of w s ds msg ctx g i name args])
     (auto split: prod.splits sum.splits)

section \<open>Properties\<close>

text \<open>
  C10: the handler answers every message but one kind with a response that carries the request's id:
  no response goes out exactly for notifications and the client's report of being initialized, and
  an exception escapes exactly for a message without an id whose method is no text.
\<close>

theorem handle_answers:
  assumes "handle w s ds msg ctx g = (r, g')"
  shows "(isl r \<longleftrightarrow> crashes msg) \<and> (r = Inr None \<longleftrightarrow> silent msg) \<and>
    (\<forall>a. r = Inr (Some a) \<longrightarrow> response_id a = request_id msg)"
  by (rule handle_answers_facts [OF assms])

lemma handle_answers_witness:
  "crashes (JObj [(''jsonrpc'', JStr ''2.0''), (''method'', JInt 1)]) \<and>
   isl (fst (handle sample_world default_settings Map.empty
     (JObj [(''jsonrpc'', JStr ''2.0''), (''method'', JInt 1)]) sample_ctx sample_gw))"
proof -
  have "crashes (JObj [(''jsonrpc'', JStr ''2.0''), (''method'', JInt 1)])"
    by (simp add: crashes_def envelope_def jget_def)
  with handle_answers [OF surjective_pairing] show ?thesis by blast
qed

text \<open>
  C2: every tool call is audited: with a name and a dictionary of arguments the handler answers, and
  its last action is to write one audit entry about this caller, tool and arguments whose status and
  error code are those of the answer. Without an entry the call reached no service and changed no
  table, because the catalogue could not be read or the tool's own schema is broken.
\<close>

theorem every_call_audited:
  assumes "is_call msg i name args"
    and "handle w s (build_dispatcher_registry w s) msg ctx g = (r, g')"
  shows "\<exists>answer. r = Inr (Some answer) \<and>
    (audited w ctx name args answer g g' \<or>
     (\<exists>e. answer = internal_answer i e \<and> g_db g' = g_db g \<and> requests g g' = 0 \<and>
        (fst (principal_tool w ctx name g) = Inl e \<or>
         (\<exists>tool c m. fst (principal_tool w ctx name g) = Inr (Some tool) \<and>
            w_schema w args (v_input_schema tool) = SchemaBroken c m \<and> e = PyError c m))))"
proof -
  obtain out g1 where call: "authorized_call w (build_dispatcher_registry w s) ctx name args i g = (out, g1)" by fastforce
  have "r = Inr (Some (case out of Inl e \<Rightarrow> internal_answer i e | Inr a \<Rightarrow> a))" "g' = g1"
    using assms(2) by (cases out; simp add: handle_call [OF assms(1)] call)+
  with gateway.authorized_call_audited [OF call] show ?thesis by (cases out) auto
qed

definition call_msg :: "string \<Rightarrow> json" where
  "call_msg name =
     JObj [(''jsonrpc'', JStr ''2.0''), (''id'', JInt 7), (''method'', JStr ''tools/call''),
           (''params'', JObj [(''name'', JStr name), (''arguments'', JObj [])])]"

lemma call_msg_is_call: "name \<noteq> [] \<Longrightarrow> is_call (call_msg name) (JInt 7) name []"
  by (simp add: is_call_def call_msg_def envelope_def jget_def py_or_def)

lemma every_call_audited_witness:
  "\<exists>answer. audited sample_world sample_ctx ''echo'' [] answer sample_gw
     (snd (handle sample_world default_settings (build_dispatcher_registry sample_world default_settings)
        (call_msg ''echo'') sample_ctx sample_gw))"
proof -
  have "\<not> isl (fst (principal_tool sample_world sample_ctx ''echo'' sample_gw))" by code_simp
  then have no: "fst (principal_tool sample_world sample_ctx ''echo'' sample_gw) \<noteq> Inl e" for e by auto
  have "w_schema sample_world a b \<noteq> SchemaBroken c m" for a b c m by (simp add: sample_world_def)
  with no every_call_audited [OF call_msg_is_call surjective_pairing, of "''echo''" sample_world default_settings
      sample_ctx sample_gw]
  show ?thesis by auto
qed

text \<open>
  C5: a tool the caller may not use, in the tables now or in the snapshot, is refused without any
  request to a service, with an answer that depends on the request id and the name alone: it does
  not tell whether such a tool exists.
\<close>

theorem denied_call_is_blind:
  assumes "is_call msg i name args" and "snapshot_of w d0 (g_cache g)" and "wf_db d0" "wf_db (g_db g)"
    and "\<And>d. d \<in> {d0, g_db g} \<Longrightarrow> name \<notin> v_name ` set (listing w d (roles ctx) (customer_code ctx))"
    and "handle w s (build_dispatcher_registry w s) msg ctx g = (r, g')"
  shows "requests g g' = 0 \<and>
    (r = Inr (Some (not_found_answer i name)) \<or>
     (\<exists>e. fst (principal_tool w ctx name g) = Inl e \<and> r = Inr (Some (internal_answer i e))))"
proof -
  let ?ds = "build_dispatcher_registry w s"
  obtain out g1 where call: "authorized_call w ?ds ctx name args i g = (out, g1)" by fastforce
  have r: "r = Inr (Some (case out of Inl e \<Rightarrow> internal_answer i e | Inr a \<Rightarrow> a))" "g' = g1"
    using assms(6) by (cases out; simp add: handle_call [OF assms(1)] call)+
  have not_found: "fst (principal_tool w ctx name g) \<noteq> Inr (Some v)" for v
  proof
    assume "fst (principal_tool w ctx name g) = Inr (Some v)"
    then obtain g2 where find: "principal_tool w ctx name g = (Inr (Some v), g2)"
      by (cases "principal_tool w ctx name g") auto
    have "snapshot_of w d0 (g_cache (emit EvClock (emit EvUuid g)))" "wf_db (g_db (emit EvClock (emit EvUuid g)))"
      using assms(2,4) by simp_all
    from find_from_tables [OF this(1) assms(3) this(2) find] obtain d where
      "d \<in> {d0, g_db g}" "v \<in> set (listing w d (roles ctx) (customer_code ctx))" "v_name v = name"
      by (metis emit_simps(2))
    with assms(5) show False by blast
  qed
  have "requests g g1 = 0"
    using gateway.authorized_call_requests [OF call] not_found by metis
  moreover from call have "out = Inr (not_found_answer i name) \<or>
      (\<exists>e. fst (principal_tool w ctx name g) = Inl e \<and> out = Inl e)"
    by (cases rule: authorized_call_cases) (use not_found in auto)
  ultimately show ?thesis using r by auto
qed

lemma denied_call_is_blind_witness:
  "fst (handle sample_world default_settings (build_dispatcher_registry sample_world default_settings)
     (call_msg ''secret'') sample_ctx sample_gw) = Inr (Some (not_found_answer (JInt 7) ''secret''))"
proof -
  have snap: "snapshot_of sample_world empty_db (g_cache sample_gw)" by code_simp
  have wf: "wf_db empty_db" "wf_db (g_db sample_gw)" by code_simp+
  have "''secret'' \<notin> v_name ` set (listing sample_world empty_db (roles sample_ctx) (customer_code sample_ctx))"
    "''secret'' \<notin> v_name ` set (listing sample_world (g_db sample_gw) (roles sample_ctx) (customer_code sample_ctx))"
    by code_simp+
  then have "''secret'' \<notin> v_name ` set (listing sample_world d (roles sample_ctx) (customer_code sample_ctx))"
    if "d \<in> {empty_db, g_db sample_gw}" for d
    using that by auto
  moreover have "\<not> isl (fst (principal_tool sample_world sample_ctx ''secret'' sample_gw))" by code_simp
  then have "fst (principal_tool sample_world sample_ctx ''secret'' sample_gw) \<noteq> Inl e" for e by auto
  ultimately show ?thesis
    using denied_call_is_blind [OF call_msg_is_call snap wf _ surjective_pairing, of "''secret''" sample_ctx default_settings]
    by simp
qed

text \<open>
  C1: whatever the message, a request to an upstream service means that it was a tool call, that a
  tool of this name is enabled and granted to the caller in the tables now or in the snapshot, that
  the arguments match the tool's schema, and that its dispatcher is one of the three.
\<close>

theorem requests_are_authorized:
  assumes "snapshot_of w d0 (g_cache g)" and "wf_db d0" "wf_db (g_db g)"
    and "handle w s (build_dispatcher_registry w s) msg ctx g = (r, g')" and "requests g g' \<noteq> 0"
  shows "\<exists>i name args. is_call msg i name args \<and> (\<exists>d \<in> {d0, g_db g}. \<exists>t \<in> set (db_tools d).
    t_name t = name \<and> t_enabled t \<and> granted d (roles ctx) (customer_code ctx) t \<and>
    w_schema w args (dict_or (t_input_schema t)) = SchemaOk \<and>
    t_dispatcher t \<in> {''http_adapter'', ''mcp_proxy'', ''daytona_sandbox''})"
proof -
  let ?ds = "build_dispatcher_registry w s"
  obtain i name args where call: "is_call msg i name args"
  proof (cases rule: handle_cases [of w s ?ds msg ctx g i name args])
    case (called d m)
    obtain out g1 where m: "call_method w s ?ds ctx m (request_id msg) (py_or (jget d ''params'') (JObj [])) g = (out, g1)"
      by fastforce
    have "g1 = g'" using called(5) assms(4) m by (cases out) auto
    with m assms(5) called(1,2) show thesis by (auto elim: call_method_requests intro: that)
  qed (use assms(4,5) in auto)
  obtain out g1 where auth: "authorized_call w ?ds ctx name args i g = (out, g1)" by fastforce
  have "g' = g1" using assms(4) by (cases out) (simp_all add: handle_call [OF call] auth)
  with assms(5) auth obtain tool where tool: "fst (principal_tool w ctx name g) = Inr (Some tool)"
    "w_schema w args (v_input_schema tool) = SchemaOk" "?ds (v_dispatcher tool) \<noteq> None"
    by (auto elim: gateway.authorized_call_requests)
  obtain g2 where find: "principal_tool w ctx name g = (Inr (Some tool), g2)"
    using tool(1) by (cases "principal_tool w ctx name g") auto
  have "snapshot_of w d0 (g_cache (emit EvClock (emit EvUuid g)))" "wf_db (g_db (emit EvClock (emit EvUuid g)))"
    using assms(1,3) by simp_all
  from find_from_tables [OF this(1) assms(2) this(2) find] obtain d where d:
    "d \<in> {d0, g_db g}" "tool \<in> set (listing w d (roles ctx) (customer_code ctx))" "v_name tool = name"
    by (metis emit_simps(2))
  then obtain t where "t \<in> set (db_tools d)" "t_enabled t" "granted d (roles ctx) (customer_code ctx) t"
    "tool = from_model d t"
    by (auto simp: in_listing)
  moreover from this have "t_dispatcher t \<in> {''http_adapter'', ''mcp_proxy'', ''daytona_sandbox''}"
    "t_name t = name" "w_schema w args (dict_or (t_input_schema t)) = SchemaOk"
    using tool(2,3) d(3) unfolding known_dispatchers by (simp_all add: from_model_def)
  ultimately show ?thesis using call d(1) by blast
qed

definition echo_env :: world where
  "echo_env = env_world\<lparr>w_http := (\<lambda>_. Response \<lparr>rs_status = 200, rs_headers = [], rs_text = ''ok''\<rparr>)\<rparr>"

lemma requests_are_authorized_witness:
  "requests sample_gw (snd (handle echo_env default_settings (build_dispatcher_registry echo_env default_settings)
      (call_msg ''echo'') sample_ctx sample_gw)) = 1 \<and>
   (\<exists>i name args. is_call (call_msg ''echo'') i name args)"
proof -
  have snap: "snapshot_of echo_env empty_db (g_cache sample_gw)" by code_simp
  have wf: "wf_db empty_db" "wf_db (g_db sample_gw)" by code_simp+
  have one: "requests sample_gw (snd (handle echo_env default_settings
      (build_dispatcher_registry echo_env default_settings) (call_msg ''echo'') sample_ctx sample_gw)) = 1"
    by code_simp
  then have "requests sample_gw (snd (handle echo_env default_settings
      (build_dispatcher_registry echo_env default_settings) (call_msg ''echo'') sample_ctx sample_gw)) \<noteq> 0" by simp
  from requests_are_authorized [OF snap wf surjective_pairing this] one show ?thesis by blast
qed

text \<open>
  \<open>tools/list\<close> shows each caller, in name order, exactly the enabled tools granted to a role or
  to the customer code of the caller, with name, description and input schema only.
\<close>

lemma tools_list_shows_grants:
  assumes "envelope msg i (JStr ''tools/list'')" and "snapshot_of w d0 (g_cache g)"
    and "handle w s ds msg ctx g = (r, g')"
  shows "(\<exists>d \<in> {d0, g_db g}. r = Inr (Some (jsonrpc_result i (JObj [(''tools'', JList
      (map (\<lambda>t. JObj [(''name'', JStr (t_name t)), (''description'', JStr (t_description t)),
                      (''inputSchema'', JObj (dict_or (t_input_schema t)))])
        (filter (granted d (roles ctx) (customer_code ctx)) (fetch_all_enabled_tools w d))))])))) \<or>
    (\<exists>e. fst (refresh_if_stale w g) = Inl e \<and> r = Inr (Some (internal_answer i e)))"
proof -
  have show_view: "view_to_mcp \<circ> from_model d = (\<lambda>t. JObj [(''name'', JStr (t_name t)),
      (''description'', JStr (t_description t)), (''inputSchema'', JObj (dict_or (t_input_schema t)))])" for d
    by (auto simp: view_to_mcp_def from_model_def)
  obtain d' where msg: "msg = JObj d'" using assms(1) by (cases msg) (auto simp: envelope_def)
  have "handle w s ds msg ctx g =
      (case tools_list w ctx i g of
         (Inl exc, g) \<Rightarrow> (Inr (Some (internal_answer i exc)), g) | (Inr a, g) \<Rightarrow> (Inr (Some a), g))"
    using assms(1) by (auto simp: handle_def msg envelope_def Let_def call_method_def andThen_def
        split: prod.splits sum.splits)
  then have hnd: "r = Inr (Some (case fst (tools_list w ctx i g) of Inl e \<Rightarrow> internal_answer i e | Inr a \<Rightarrow> a))"
    using assms(3) by (cases "tools_list w ctx i g"; cases "fst (tools_list w ctx i g)") auto
  show ?thesis
  proof (cases rule: refresh_cases [of w g])
    case (kept g1 now)
    with assms(2) snapshot_listing [of w d0 g1 "roles ctx" "customer_code ctx"] hnd show ?thesis
      by (intro disjI1 bexI [of _ d0]) (simp_all add: tools_list_def list_eq listing_def show_view)
  next
    case (loaded g1)
    with snapshot_listing [of w "g_db g" g1 "roles ctx" "customer_code ctx"] hnd show ?thesis
      by (intro disjI1 bexI [of _ "g_db g"]) (simp_all add: tools_list_def list_eq listing_def show_view)
  qed (use hnd in \<open>auto simp: tools_list_def list_eq\<close>)
qed

definition list_msg :: json where
  "list_msg = JObj [(''jsonrpc'', JStr ''2.0''), (''id'', JInt 1), (''method'', JStr ''tools/list'')]"

end
