(* ===== verification/JwtVerify.thy ===== *)
theory JwtVerify
  imports Settings Jwks
begin

text \<open>
  \<open>app/auth/jwt_verify.py\<close>: the choice of the key a token is verified with and the options given to
  python-jose, whose functions are fields of the world.
\<close>

section \<open>Options\<close>

definition verify_options :: "settings \<Rightarrow> string \<Rightarrow> jwt_options" where
  "verify_options s alg =
     \<lparr>jo_algorithms = [alg],
      jo_audience = (if jwt_audience s \<noteq> [] then Some (jwt_audience s) else None),
      jo_issuer = (if some_text (jwt_issuer s) then jwt_issuer s else None),
      jo_verify_aud = (jwt_audience s \<noteq> []), jo_verify_iss = some_text (jwt_issuer s),
      jo_leeway = jwt_leeway_sec s\<rparr>"

definition gongdan_algorithm :: "settings \<Rightarrow> string" where
  "gongdan_algorithm s = (if gongdan_jwt_algorithm s \<noteq> [] then gongdan_jwt_algorithm s else ''HS256'')"

definition gongdan_options :: "settings \<Rightarrow> jwt_options" where
  "gongdan_options s =
     \<lparr>jo_algorithms = [gongdan_algorithm s], jo_audience = None, jo_issuer = None,
      jo_verify_aud = False, jo_verify_iss = False, jo_leeway = jwt_leeway_sec s\<rparr>"

section \<open>Verification\<close>

definition looks_like_gongdan_customer :: "world \<Rightarrow> settings \<Rightarrow> string \<Rightarrow> bool res" where
  "looks_like_gongdan_customer w s token =
     (if \<not> some_text (gongdan_jwt_secret s) then Inr False
      else (case w_jwt_unverified_claims w token of
              JWTError t \<Rightarrow> Inr False
            | JoseRaised c t \<Rightarrow> Inl (PyError c t)
            | JoseOk unverified \<Rightarrow>
                Inr (jget unverified ''role'' = JStr (gongdan_customer_role_value s))))"

definition verify_gongdan :: "world \<Rightarrow> settings \<Rightarrow> string \<Rightarrow> json dict res" where
  "verify_gongdan w s token =
     bindE (jose_res (w_jwt_decode w token (SecretKey (text_or (gongdan_jwt_secret s) [])) (gongdan_options s)))
       (\<lambda>claims.
         if jget claims ''role'' \<noteq> JStr (gongdan_customer_role_value s)
         then Inl (InvalidTokenError ''gongdan token role mismatch'')
         else Inr claims)"

definition verify_hs256 :: "world \<Rightarrow> settings \<Rightarrow> string \<Rightarrow> json dict res" where
  "verify_hs256 w s token =
     jose_res (w_jwt_decode w token (SecretKey (text_or (jwt_dev_secret s) []))
       (verify_options s (jwt_dev_algorithm s)))"

definition verify_rs256 :: "world \<Rightarrow> settings \<Rightarrow> string \<Rightarrow> gw \<Rightarrow> json dict res \<times> gw" where
  "verify_rs256 w s token g =
     (if g_jwks g = None then (Inl (InvalidTokenError ''jwks cache not configured in prod mode''), g)
      else (case jose_res (w_jwt_unverified_header w token) of
              Inl e \<Rightarrow> (Inl e, g)
            | Inr header \<Rightarrow>
                (let kid = jget header ''kid''
                 in if \<not> truthy kid then (Inl (InvalidTokenError (''jwt header missing '' @ quoted ''kid'')), g)
                    else (case jwks_get w kid g of
                            (Inl e, g) \<Rightarrow>
                              (Inl (case e of PyError c t \<Rightarrow> if c = ''KeyError'' then InvalidTokenError t else e
                                    | _ \<Rightarrow> e), g)
                          | (Inr key, g) \<Rightarrow>
                              (jose_res (w_jwt_decode w token (JwkKey key) (verify_options s ''RS256'')), g)))))"

text \<open>\<open>verify\<close>: every JWTError becomes an InvalidTokenError, other exceptions pass.\<close>

definition catch_jwt_error :: "'a res \<Rightarrow> 'a res" where
  "catch_jwt_error r =
     (case r of
        Inl (PyError c t) \<Rightarrow>
          (if c = ''JWTError'' then Inl (InvalidTokenError (''jwt verify failed: '' @ t)) else r)
      | _ \<Rightarrow> r)"

definition verify :: "world \<Rightarrow> settings \<Rightarrow> jwt_mode_value \<Rightarrow> string \<Rightarrow> gw \<Rightarrow> json dict res \<times> gw" where
  "verify w s mode token g =
     apfst catch_jwt_error
       (case looks_like_gongdan_customer w s token of
          Inl e \<Rightarrow> (Inl e, g)
        | Inr customer \<Rightarrow>
            (if customer then (verify_gongdan w s token, g)
             else if mode = Dev then (verify_hs256 w s token, g)
             else verify_rs256 w s token g))"

section \<open>Which key a token was verified with\<close>

text \<open>
  \<open>signed_by_gongdan\<close>, \<open>signed_dev\<close>, \<open>signed_jwks\<close>: the claims are what python-jose decodes from the
  token with that key and the options of that path.
\<close>

definition signed_by_gongdan :: "world \<Rightarrow> settings \<Rightarrow> string \<Rightarrow> json dict \<Rightarrow> bool" where
  "signed_by_gongdan w s token cl \<longleftrightarrow>
     some_text (gongdan_jwt_secret s) \<and>
     w_jwt_decode w token (SecretKey (the (gongdan_jwt_secret s))) (gongdan_options s) = JoseOk cl \<and>
     jget cl ''role'' = JStr (gongdan_customer_role_value s)"

definition signed_dev :: "world \<Rightarrow> settings \<Rightarrow> string \<Rightarrow> json dict \<Rightarrow> bool" where
  "signed_dev w s token cl \<longleftrightarrow>
     w_jwt_decode w token (SecretKey (text_or (jwt_dev_secret s) [])) (verify_options s (jwt_dev_algorithm s))
       = JoseOk cl"

definition signed_jwks :: "world \<Rightarrow> settings \<Rightarrow> string \<Rightarrow> gw \<Rightarrow> json dict \<Rightarrow> bool" where
  "signed_jwks w s token g cl \<longleftrightarrow>
     g_jwks g \<noteq> None \<and>
     (\<exists>header kid k key. w_jwt_unverified_header w token = JoseOk header \<and> kid = jget header ''kid'' \<and>
        truthy kid \<and> hash_key kid = Inr k \<and> key_lookup (jw_keys (the_jwks g)) k = Some key \<and>
        w_jwt_decode w token (JwkKey key) (verify_options s ''RS256'') = JoseOk cl)"

lemma jose_res_Inr [simp]: "jose_res x = Inr y \<longleftrightarrow> x = JoseOk y"
  by (cases x) auto

lemma verify_gongdan_Inr: "some_text (gongdan_jwt_secret s) \<Longrightarrow>
    verify_gongdan w s token = Inr cl \<longleftrightarrow> signed_by_gongdan w s token cl"
  by (auto simp: verify_gongdan_def signed_by_gongdan_def bindE_eq_Inr text_or_def some_text_def
      split: option.splits if_splits)

lemma verify_rs256_cases:
  assumes "verify_rs256 w s token g = (r, g')"
  obtains (early) e where "r = Inl e" "g' = g"
  | (looked) header r1 where "g_jwks g \<noteq> None" "w_jwt_unverified_header w token = JoseOk header"
      "truthy (jget header ''kid'')" "jwks_get w (jget header ''kid'') g = (r1, g')"
      "\<And>cl. r = Inr cl \<Longrightarrow>
         \<exists>key. r1 = Inr key \<and> w_jwt_decode w token (JwkKey key) (verify_options s ''RS256'') = JoseOk cl"
proof (cases "g_jwks g = None")
  case True
  show thesis by (rule early) (use assms True in \<open>auto simp: verify_rs256_def\<close>)
next
  case jwks: False
  show thesis
  proof (cases "w_jwt_unverified_header w token")
    case header: (JoseOk header)
    show thesis
    proof (cases "truthy (jget header ''kid'')")
      case True
      obtain r1 g1 where get: "jwks_get w (jget header ''kid'') g = (r1, g1)" by fastforce
      show thesis
        by (rule looked [OF jwks header True, of r1])
           (use assms jwks header True get in \<open>cases r1; auto simp: verify_rs256_def Let_def\<close>)+
    qed (use assms jwks header early in \<open>auto simp: verify_rs256_def Let_def\<close>)
  qed (use assms jwks early in \<open>auto simp: verify_rs256_def\<close>)
qed

lemma verify_rs256_frame:
  assumes "verify_rs256 w s token g = (r, g')"
  shows "outside_only g g'" and "(g_jwks g' = None) = (g_jwks g = None)"
  using verify_rs256_cases [OF assms]
  by (cases; use jwks_get_kept in \<open>fastforce simp: jwks_kept_def\<close>)+

lemma verify_rs256_Inr:
  assumes "verify_rs256 w s token g = (Inr cl, g')"
  shows "signed_jwks w s token g' cl"
  using assms
proof (cases rule: verify_rs256_cases)
  case (looked header r1)
  then obtain key where key: "r1 = Inr key" "w_jwt_decode w token (JwkKey key) (verify_options s ''RS256'') = JoseOk cl"
    by auto
  from looked(4) key(1) have get: "jwks_get w (jget header ''kid'') g = (Inr key, g')" by simp
  have "\<exists>k. hash_key (jget header ''kid'') = Inr k \<and> key_lookup (jw_keys (the_jwks g')) k = Some key"
    by (rule jwks_get_cases [OF looked(1) get]) blast
  with key looked jwks_get_kept [OF looked(1) get]
  show ?thesis unfolding signed_jwks_def jwks_kept_def by blast
qed simp

section \<open>verify\<close>

lemma catch_Inr [simp]: "catch_jwt_error r = Inr x \<longleftrightarrow> r = Inr x"
  by (auto simp: catch_jwt_error_def split: sum.splits exn.splits)

lemma verify_cases:
  assumes "verify w s mode token g = (r, g')"
  obtains (pure) e where "r = Inl e" "g' = g"
  | (gongdan) cl where "r = Inr cl" "g' = g" "signed_by_gongdan w s token cl"
  | (dev) cl where "r = Inr cl" "g' = g" "mode = Dev" "signed_dev w s token cl"
  | (prod) r1 where "mode = Prod" "verify_rs256 w s token g = (r1, g')" "r = catch_jwt_error r1"
      "\<not> some_text (gongdan_jwt_secret s) \<or>
       (\<forall>c. w_jwt_unverified_claims w token = JoseOk c \<longrightarrow> jget c ''role'' \<noteq> JStr (gongdan_customer_role_value s))"
proof (cases "looks_like_gongdan_customer w s token")
  case (Inl e)
  show thesis
    by (cases r) (use assms Inl pure in \<open>auto simp: verify_def\<close>)
next
  case (Inr customer)
  show thesis
  proof (cases customer)
    case True
    with Inr have "some_text (gongdan_jwt_secret s)"
      by (auto simp: looks_like_gongdan_customer_def split: if_splits)
    note vg = verify_gongdan_Inr [OF this, of w token]
    show thesis
      by (cases r) (use assms Inr True pure gongdan vg in \<open>auto simp: verify_def\<close>)
  next
    case staff: False
    show thesis
    proof (cases mode)
      case Dev
      show thesis
        by (cases r) (use assms Inr staff Dev pure dev in \<open>auto simp: verify_def verify_hs256_def signed_dev_def\<close>)
    next
      case Prod
      obtain r1 g1 where r1: "verify_rs256 w s token g = (r1, g1)" by fastforce
      have "\<not> some_text (gongdan_jwt_secret s) \<or>
       (\<forall>c. w_jwt_unverified_claims w token = JoseOk c \<longrightarrow> jget c ''role'' \<noteq> JStr (gongdan_customer_role_value s))"
        using Inr staff by (auto simp: looks_like_gongdan_customer_def split: if_splits jose.splits)
      then show thesis
        by (rule prod [OF Prod, rotated 2]) (use assms Inr staff Prod r1 in \<open>auto simp: verify_def\<close>)
    qed
  qed
qed

lemma verify_frame:
  assumes "verify w s mode token g = (r, g')"
  shows "outside_only g g'" and "(g_jwks g' = None) = (g_jwks g = None)"
  using verify_cases [OF assms] verify_rs256_frame by (cases; fastforce)+

text \<open>The claims a verified token stands for.\<close>

definition accepted :: "world \<Rightarrow> settings \<Rightarrow> jwt_mode_value \<Rightarrow> string \<Rightarrow> gw \<Rightarrow> json dict \<Rightarrow> bool" where
  "accepted w s mode token g cl \<longleftrightarrow>
     signed_by_gongdan w s token cl \<or>
     (mode = Dev \<and> signed_dev w s token cl) \<or>
     (mode = Prod \<and> signed_jwks w s token g cl)"

lemma verify_accepted: "verify w s mode token g = (Inr cl, g') \<Longrightarrow> accepted w s mode token g' cl"
  by (erule verify_cases) (auto simp: accepted_def dest!: sym [of "Inr _" "catch_jwt_error _"] verify_rs256_Inr)

lemma catch_no_jwt_error: "catch_jwt_error r \<noteq> Inl (PyError ''JWTError'' t)"
  by (auto simp: catch_jwt_error_def split: sum.splits exn.splits)

lemma verify_no_jwt_error: "fst (verify w s mode token g) \<noteq> Inl (PyError ''JWTError'' t)"
  by (simp add: verify_def catch_no_jwt_error)

section \<open>Properties\<close>

text \<open>
  C6: claims come back only when python-jose decoded them with a key of the gateway's choice: the
  gongdan secret and a customer role, else the development secret in development mode, else the
  cached key named by the token's header, for RS256 and with the configured audience and issuer.
  Without a gongdan secret the mode alone decides. No JWTError escapes, and the tables are not
  touched.
\<close>

theorem verify_sound:
  assumes "verify w s mode token g = (r, g')"
  shows "outside_only g g' \<and>
    (\<forall>cl. r = Inr cl \<longrightarrow> accepted w s mode token g' cl) \<and>
    (\<forall>t. r \<noteq> Inl (PyError ''JWTError'' t)) \<and>
    (\<not> some_text (gongdan_jwt_secret s) \<longrightarrow>
      (mode = Dev \<longrightarrow> (\<forall>cl. r = Inr cl \<longleftrightarrow> signed_dev w s token cl)) \<and>
      (mode = Prod \<longrightarrow> (\<forall>cl. r = Inr cl \<longrightarrow> signed_jwks w s token g' cl)))"
proof -
  have "(\<forall>cl. r = Inr cl \<longleftrightarrow> signed_dev w s token cl)" if "\<not> some_text (gongdan_jwt_secret s)" "mode = Dev"
  proof -
    from assms that have "r = catch_jwt_error (verify_hs256 w s token)"
      by (simp add: verify_def looks_like_gongdan_customer_def)
    then show ?thesis by (simp add: verify_hs256_def signed_dev_def)
  qed
  moreover have "signed_jwks w s token g' cl" if "\<not> some_text (gongdan_jwt_secret s)" "mode = Prod" "r = Inr cl" for cl
    using verify_accepted [of w s mode token g cl g'] assms that
    by (simp add: accepted_def signed_by_gongdan_def)
  ultimately show ?thesis
    using verify_accepted verify_frame(1) [OF assms] verify_no_jwt_error [of w s mode token g] assms by auto
qed

definition dev_settings :: settings where
  "dev_settings = default_settings\<lparr>jwt_dev_secret := Some ''dev-key''\<rparr>"

lemma verify_sound_witness:
  "fst (verify token_world dev_settings Dev ''staff'' sample_gw) = Inr staff_claims"
proof -
  have "\<not> some_text (gongdan_jwt_secret dev_settings)" by code_simp
  moreover have "signed_dev token_world dev_settings ''staff'' staff_claims"
    by (simp add: signed_dev_def token_world_def dev_settings_def)
  ultimately show ?thesis
    using verify_sound [of token_world dev_settings Dev "''staff''" sample_gw
      "fst (verify token_world dev_settings Dev ''staff'' sample_gw)"
      "snd (verify token_world dev_settings Dev ''staff'' sample_gw)"] by simp
qed

end
