(* ===== verification/Roles.thy ===== *)
theory Roles
  imports Settings PyJsonRound
begin

text \<open>
  \<open>app/auth/roles.py\<close> and \<open>app/auth/casdoor.py\<close>: the roles of a user from the token's claim, else
  from Redis, else from Casdoor's \<open>get-account\<close>, with the answer cached in Redis.
\<close>

section \<open>Casdoor client\<close>

record casdoor =
  cd_endpoint :: "string option"
  cd_client_id :: "string option"
  cd_client_secret :: "string option"
  cd_timeout :: pyfloat

definition casdoor_init :: "string option \<Rightarrow> string option \<Rightarrow> string option \<Rightarrow> casdoor" where
  "casdoor_init endpoint cid sec =
     \<lparr>cd_endpoint = (if some_text endpoint then map_option rstrip_slash endpoint else None),
      cd_client_id = cid, cd_client_secret = sec, cd_timeout = PFin 5\<rparr>"

definition casdoor_configured :: "casdoor \<Rightarrow> bool" where
  "casdoor_configured c =
     (some_text (cd_endpoint c) \<and> some_text (cd_client_id c) \<and> some_text (cd_client_secret c))"

text \<open>One entry of a role list: a text, or a record with a name.\<close>

fun entry_name :: "json \<Rightarrow> string list" where
  "entry_name (JStr s) = [s]"
| "entry_name (JObj d) =
     (let name = py_or (jget d ''name'') (jget d ''displayName'')
      in if truthy name then [py_str name] else [])"
| "entry_name v = []"

definition extract_role_names :: "json \<Rightarrow> string list res" where
  "extract_role_names body =
     (case body of
        JObj b \<Rightarrow>
          (case jget b ''data'' of
             JObj data \<Rightarrow>
               bindE (iterate (py_or (jget data ''roles'') (JList []))) (\<lambda>entries.
                 Inr (concat (map entry_name entries)))
           | _ \<Rightarrow> Inr [])
      | _ \<Rightarrow> Inr [])"

definition casdoor_request :: "casdoor \<Rightarrow> string \<Rightarrow> string option \<Rightarrow> http_req" where
  "casdoor_request c uid bearer =
     \<lparr>hr_verb = ''GET'', hr_url = the (cd_endpoint c) @ ''/api/get-account'',
      hr_params = (if some_text bearer then [(''userId'', JStr uid)]
                   else [(''userId'', JStr uid), (''clientId'', JStr (the (cd_client_id c))),
                         (''clientSecret'', JStr (the (cd_client_secret c)))]),
      hr_body = None,
      hr_headers = (if some_text bearer then [(''Authorization'', ''Bearer '' @ the bearer)] else []),
      hr_timeout = cd_timeout c\<rparr>"

text \<open>\<open>get_user_roles\<close>: a failed request, status or JSON gives no roles.\<close>

definition get_user_roles :: "world \<Rightarrow> casdoor \<Rightarrow> string \<Rightarrow> string option \<Rightarrow> gw \<Rightarrow> string list res \<times> gw" where
  "get_user_roles w c uid bearer g =
     (if \<not> casdoor_configured c then (Inr [], g)
      else (case http_request w (casdoor_request c uid bearer) g of (out, g) \<Rightarrow>
             (case out of
                Response r \<Rightarrow>
                  (if is_success r
                   then (case resp_json r of Inl e \<Rightarrow> (Inr [], g) | Inr body \<Rightarrow> (extract_role_names body, g))
                   else (Inr [], g))
              | _ \<Rightarrow> (Inr [], g))))"

section \<open>Role resolver\<close>

record role_resolver =
  rr_claim :: string
  rr_redis :: bool
  rr_casdoor :: "casdoor option"
  rr_ttl :: int

fun normalize :: "json \<Rightarrow> string list" where
  "normalize JNull = []"
| "normalize (JStr s) = [s]"
| "normalize (JList xs) = concat (map entry_name xs)"
| "normalize v = []"

definition role_key :: "string \<Rightarrow> string" where
  "role_key uid = ''roles:'' @ uid"

definition roles_cache_get :: "world \<Rightarrow> role_resolver \<Rightarrow> string \<Rightarrow> gw \<Rightarrow> string list option \<times> gw" where
  "roles_cache_get w rr uid g =
     (if \<not> rr_redis rr then (None, g)
      else (let g = emit (EvRedisGet (role_key uid)) g
            in (case w_redis_get w (g_trace g) of
                  Inl e \<Rightarrow> (None, g)
                | Inr None \<Rightarrow> (None, g)
                | Inr (Some raw) \<Rightarrow>
                    (case json_loads raw of Inl e \<Rightarrow> (None, g) | Inr v \<Rightarrow> (Some (normalize v), g)))))"

text \<open>The text stored for a list of roles.\<close>

definition roles_text :: "string list \<Rightarrow> string" where
  "roles_text rs = json_dumps True (JList (map JStr rs))"

text \<open>A failed SETEX is logged only.\<close>

definition roles_cache_set :: "world \<Rightarrow> role_resolver \<Rightarrow> string \<Rightarrow> string list \<Rightarrow> gw \<Rightarrow> gw" where
  "roles_cache_set w rr uid rs g =
     (if \<not> rr_redis rr then g else emit (EvRedisSet (role_key uid) (rr_ttl rr) (roles_text rs)) g)"

definition invalidate :: "world \<Rightarrow> role_resolver \<Rightarrow> string \<Rightarrow> gw \<Rightarrow> gw" where
  "invalidate w rr uid g = (if \<not> rr_redis rr then g else emit (EvRedisDel (role_key uid)) g)"

definition resolve ::
  "world \<Rightarrow> role_resolver \<Rightarrow> string \<Rightarrow> json dict \<Rightarrow> string option \<Rightarrow> gw \<Rightarrow> string list res \<times> gw" where
  "resolve w rr uid claim raw g =
     (let claim_roles = normalize (jget claim (rr_claim rr))
      in if claim_roles \<noteq> [] then (Inr claim_roles, roles_cache_set w rr uid claim_roles g)
         else (case roles_cache_get w rr uid g of
                 (Some cached, g) \<Rightarrow> (Inr cached, g)
               | (None, g) \<Rightarrow>
                   andThen (case rr_casdoor rr of
                              Some c \<Rightarrow> (if casdoor_configured c then get_user_roles w c uid raw g else (Inr [], g))
                            | None \<Rightarrow> (Inr [], g))
                     (\<lambda>rs g. (Inr rs, roles_cache_set w rr uid rs g))))"

section \<open>Lemmas\<close>

lemma get_user_roles_frame: "outside_only g (snd (get_user_roles w c uid raw g))"
  by (auto simp: get_user_roles_def http_request_def Let_def split: http_outcome.split sum.split)

lemma get_user_roles_jwks: "g_jwks (snd (get_user_roles w c uid raw g)) = g_jwks g"
  by (auto simp: get_user_roles_def http_request_def Let_def split: http_outcome.split sum.split)

lemma roles_cache_get_state: "snd (roles_cache_get w rr uid g) = (if rr_redis rr then emit (EvRedisGet (role_key uid)) g else g)"
  by (auto simp: roles_cache_get_def Let_def split: sum.split option.split)

lemma roles_cache_set_frame: "outside_only g (roles_cache_set w rr uid rs g)" "g_jwks (roles_cache_set w rr uid rs g) = g_jwks g"
  by (simp_all add: roles_cache_set_def)

text \<open>The fallback of \<open>resolve\<close> to Casdoor.\<close>

definition casdoor_roles :: "world \<Rightarrow> role_resolver \<Rightarrow> string \<Rightarrow> string option \<Rightarrow> gw \<Rightarrow> string list res \<times> gw" where
  "casdoor_roles w rr uid raw g =
     (case rr_casdoor rr of
        Some c \<Rightarrow> (if casdoor_configured c then get_user_roles w c uid raw g else (Inr [], g))
      | None \<Rightarrow> (Inr [], g))"

lemma casdoor_roles_frame: "outside_only g (snd (casdoor_roles w rr uid raw g))"
    "g_jwks (snd (casdoor_roles w rr uid raw g)) = g_jwks g"
  by (auto simp: casdoor_roles_def get_user_roles_frame get_user_roles_jwks split: option.split)

lemma resolve_cases:
  obtains (claim) "normalize (jget cl (rr_claim rr)) \<noteq> []"
      "resolve w rr uid cl raw g = (Inr (normalize (jget cl (rr_claim rr))),
         roles_cache_set w rr uid (normalize (jget cl (rr_claim rr))) g)"
  | (cached) rs g1 where "normalize (jget cl (rr_claim rr)) = []" "roles_cache_get w rr uid g = (Some rs, g1)"
      "resolve w rr uid cl raw g = (Inr rs, g1)"
  | (fetched) g1 rs g2 where "normalize (jget cl (rr_claim rr)) = []" "roles_cache_get w rr uid g = (None, g1)"
      "casdoor_roles w rr uid raw g1 = (Inr rs, g2)"
      "resolve w rr uid cl raw g = (Inr rs, roles_cache_set w rr uid rs g2)"
  | (failed) g1 e g2 where "normalize (jget cl (rr_claim rr)) = []" "roles_cache_get w rr uid g = (None, g1)"
      "casdoor_roles w rr uid raw g1 = (Inl e, g2)" "resolve w rr uid cl raw g = (Inl e, g2)"
proof (cases "normalize (jget cl (rr_claim rr)) = []")
  case False
  then show thesis by (intro claim) (simp_all add: resolve_def Let_def)
next
  case True
  obtain c g1 where c: "roles_cache_get w rr uid g = (c, g1)" by fastforce
  obtain r g2 where r: "casdoor_roles w rr uid raw g1 = (r, g2)" by fastforce
  note r' = r [unfolded casdoor_roles_def]
  show thesis
  proof (cases c)
    case (Some rs)
    then show thesis using True c by (intro cached [of rs g1]) (simp_all add: resolve_def)
  next
    case None
    show thesis
    proof (cases r)
      case (Inl e)
      then show thesis using True c None r r' by (intro failed [of g1 e g2]) (simp_all add: resolve_def)
    next
      case (Inr rs)
      then show thesis using True c None r r' by (intro fetched [of g1 rs g2]) (simp_all add: resolve_def)
    qed
  qed
qed

lemma cache_get_frame: "roles_cache_get w rr uid g = (c, g1) \<Longrightarrow> outside_only g g1 \<and> g_jwks g1 = g_jwks g"
  using roles_cache_get_state [of w rr uid g] by (auto split: if_splits)

lemma resolve_frame:
  assumes "resolve w rr uid cl raw g = (r, g')"
  shows "outside_only g g' \<and> g_jwks g' = g_jwks g"
proof (cases rule: resolve_cases [of cl rr w uid raw g])
  case claim
  with assms show ?thesis using roles_cache_set_frame by auto
next
  case (cached rs g1)
  with assms show ?thesis using cache_get_frame by auto
next
  case (fetched g1 rs g2)
  then have "outside_only g g1" "g_jwks g1 = g_jwks g" "outside_only g1 g2" "g_jwks g2 = g_jwks g1"
    using cache_get_frame casdoor_roles_frame [where g = g1 and w = w and rr = rr and uid = uid and raw = raw] by auto
  with fetched assms show ?thesis
    using roles_cache_set_frame [where g = g2 and w = w and rr = rr and uid = uid and rs = rs] outside_only_trans [of g g1 g2] outside_only_trans [of g g2 g'] by auto
next
  case (failed g1 e g2)
  then have "outside_only g g1" "g_jwks g1 = g_jwks g" "outside_only g1 g2" "g_jwks g2 = g_jwks g1"
    using cache_get_frame casdoor_roles_frame [where g = g1 and w = w and rr = rr and uid = uid and raw = raw] by auto
  with failed assms show ?thesis using outside_only_trans [of g g1 g2] by auto
qed

lemma entry_name_strings [simp]: "concat (map (entry_name \<circ> JStr) rs) = rs"
  by (induction rs) simp_all

lemma normalize_strings: "normalize (JList (map JStr rs)) = rs"
  by simp

text \<open>Roles stored in Redis are the roles read back.\<close>

lemma roles_text_back:
  assumes "list_all (text_ok True) rs"
  shows "json_loads (roles_text rs) = Inr (JList (map JStr rs))"
  unfolding roles_text_def
  by (rule loads_dumps) (use assms in \<open>simp add: list_all_iff\<close>)

section \<open>Properties\<close>

text \<open>
  roles in the token are used as they are, and only stored; without them Redis decides when its
  entry is what the gateway stored, with no request to Casdoor, and gives back the very list; only
  when neither has roles is Casdoor asked, at most once, and a failure there gives no roles.
\<close>

lemma resolve_order:
  assumes "resolve w rr uid cl raw g = (r, g')"
  shows "(normalize (jget cl (rr_claim rr)) \<noteq> [] \<longrightarrow>
      r = Inr (normalize (jget cl (rr_claim rr))) \<and> requests g g' = 0 \<and>
      g_trace g' = g_trace g @ (if rr_redis rr
        then [EvRedisSet (role_key uid) (rr_ttl rr) (roles_text (normalize (jget cl (rr_claim rr))))] else [])) \<and>
    (\<forall>rs. normalize (jget cl (rr_claim rr)) = [] \<and> rr_redis rr \<and> list_all (text_ok True) rs \<and>
      w_redis_get w (g_trace g @ [EvRedisGet (role_key uid)]) = Inr (Some (roles_text rs)) \<longrightarrow>
      r = Inr rs \<and> requests g g' = 0) \<and>
    requests g g' \<le> 1"
proof -
  have ask: "requests g1 (snd (casdoor_roles w rr uid raw g1)) \<le> 1" "extends g1 (snd (casdoor_roles w rr uid raw g1))" for g1
    by (auto simp: casdoor_roles_def get_user_roles_def http_request_def Let_def requests_def
        split: option.split http_outcome.split sum.split)
  have get: "requests g g1 = 0" "extends g g1" if "roles_cache_get w rr uid g = (c, g1)" for c g1
    using that roles_cache_get_state [of w rr uid g] by (auto simp: requests_def split: if_splits)
  have put: "requests g1 (roles_cache_set w rr uid rs g1) = 0" "extends g1 (roles_cache_set w rr uid rs g1)" for g1 rs
    by (auto simp: roles_cache_set_def requests_def)
  have "requests g g' \<le> 1"
  proof (cases rule: resolve_cases [of cl rr w uid raw g])
    case (fetched g1 rs g2)
    then show ?thesis
      using assms get [OF fetched(2)] ask [of g1] put [of g2 rs]
        requests_trans [of g g1 g2] requests_trans [of g g2 g'] extends_trans [of g g1 g2] by auto
  next
    case (failed g1 e g2)
    then show ?thesis using assms get [OF failed(2)] ask [of g1] requests_trans [of g g1 g2] by auto
  qed (use assms get put in auto)
  moreover have "r = Inr rs \<and> requests g g' = 0"
    if "normalize (jget cl (rr_claim rr)) = []" "rr_redis rr" "list_all (text_ok True) rs"
      "w_redis_get w (g_trace g @ [EvRedisGet (role_key uid)]) = Inr (Some (roles_text rs))" for rs
  proof -
    have "roles_cache_get w rr uid g = (Some rs, emit (EvRedisGet (role_key uid)) g)"
      using that by (simp add: roles_cache_get_def Let_def roles_text_back normalize_strings)
    with that assms show ?thesis by (auto simp: resolve_def requests_def)
  qed
  moreover have "r = Inr (normalize (jget cl (rr_claim rr))) \<and> requests g g' = 0 \<and>
      g_trace g' = g_trace g @ (if rr_redis rr
        then [EvRedisSet (role_key uid) (rr_ttl rr) (roles_text (normalize (jget cl (rr_claim rr))))] else [])"
    if "normalize (jget cl (rr_claim rr)) \<noteq> []"
    using that assms by (auto simp: resolve_def Let_def roles_cache_set_def requests_def)
  ultimately show ?thesis by blast
qed

definition sample_resolver :: role_resolver where
  "sample_resolver = \<lparr>rr_claim = ''roles'', rr_redis = True, rr_casdoor = None, rr_ttl = 60\<rparr>"

definition redis_world :: world where
  "redis_world = sample_world\<lparr>w_redis_get := (\<lambda>_. Inr (Some (roles_text [''dev''])))\<rparr>"

end
