(* ===== verification/Gongdan.thy ===== *)
theory Gongdan
  imports GwState
begin

text \<open>
  \<open>app/external/gongdan.py\<close>: the client of the ticket system that turns a customer code or id into
  a customer record. Every lookup is one request; nothing is cached.
\<close>

section \<open>Customer records\<close>

record customer =
  cu_id :: string
  cu_code :: string
  cu_name :: string
  cu_tier :: json
  cu_queue_type :: json
  cu_engineer :: json

text \<open>\<open>str(payload.get(k) or "")\<close>.\<close>

definition text_field :: "json dict \<Rightarrow> string \<Rightarrow> string" where
  "text_field d k = (let v = jget d k in if truthy v then py_str v else [])"

definition customer_of :: "json dict \<Rightarrow> customer" where
  "customer_of d =
     \<lparr>cu_id = text_field d ''id'', cu_code = text_field d ''customerCode'', cu_name = text_field d ''name'',
      cu_tier = jget d ''tier'', cu_queue_type = jget d ''queueType'',
      cu_engineer = jget d ''boundEngineerId''\<rparr>"

definition from_api :: "json \<Rightarrow> customer res" where
  "from_api payload = bindE (as_dict payload) (\<lambda>d. Inr (customer_of d))"

section \<open>Client\<close>

record gongdan =
  gd_base_url :: string
  gd_api_key :: string
  gd_timeout :: pyfloat

definition gongdan_init :: "string option \<Rightarrow> string option \<Rightarrow> pyfloat \<Rightarrow> gongdan" where
  "gongdan_init base key timeout =
     \<lparr>gd_base_url = rstrip_slash (text_or base []), gd_api_key = text_or key [], gd_timeout = timeout\<rparr>"

definition gongdan_configured :: "gongdan \<Rightarrow> bool" where
  "gongdan_configured c = (gd_base_url c \<noteq> [] \<and> gd_api_key c \<noteq> [])"

definition gongdan_request :: "gongdan \<Rightarrow> string \<Rightarrow> http_req" where
  "gongdan_request c url =
     \<lparr>hr_verb = ''GET'', hr_url = url, hr_params = [], hr_body = None,
      hr_headers = [(''X-Api-Key'', gd_api_key c)], hr_timeout = gd_timeout c\<rparr>"

definition gongdan_get :: "world \<Rightarrow> gongdan \<Rightarrow> string \<Rightarrow> gw \<Rightarrow> http_resp res \<times> gw" where
  "gongdan_get w c url g =
     (case http_request w (gongdan_request c url) g of
        (Response r, g) \<Rightarrow> (Inr r, g)
      | (Timeout t, g) \<Rightarrow> (Inl (GongdanUpstreamError (''gongdan HTTP error: '' @ t)), g)
      | (TransportError t, g) \<Rightarrow> (Inl (GongdanUpstreamError (''gongdan HTTP error: '' @ t)), g)
      | (Raised cls t, g) \<Rightarrow> (Inl (PyError cls t), g))"

definition parse_json :: "http_resp \<Rightarrow> json res" where
  "parse_json r =
     (case resp_json r of
        Inl e \<Rightarrow> Inl (GongdanUpstreamError (''gongdan: invalid JSON body: '' @ e))
      | Inr v \<Rightarrow> Inr v)"

definition get_by_id :: "world \<Rightarrow> gongdan \<Rightarrow> string \<Rightarrow> gw \<Rightarrow> customer option res \<times> gw" where
  "get_by_id w c cid g =
     (if \<not> gongdan_configured c \<or> cid = [] then (Inr None, g)
      else andThen (gongdan_get w c (gd_base_url c @ ''/api/customers/'' @ cid) g) (\<lambda>r g.
        if rs_status r = 404 then (Inr None, g)
        else if rs_status r \<ge> 400
             then (Inl (GongdanUpstreamError (''gongdan get_by_id failed: '' @ int_str (rs_status r) @ '' ''
                     @ cp_take 200 (rs_text r))), g)
        else (bindE (parse_json r) (\<lambda>v. bindE (from_api v) (\<lambda>cu. Inr (Some cu))), g)))"

text \<open>The first row that is a record with the wanted code.\<close>

fun find_row :: "string \<Rightarrow> json list \<Rightarrow> json dict option" where
  "find_row target [] = None"
| "find_row target (JObj row # rows) =
     (if jget row ''customerCode'' = JStr target then Some row else find_row target rows)"
| "find_row target (_ # rows) = find_row target rows"

definition get_by_code :: "world \<Rightarrow> gongdan \<Rightarrow> string \<Rightarrow> gw \<Rightarrow> customer option res \<times> gw" where
  "get_by_code w c code g =
     (if \<not> gongdan_configured c \<or> code = [] then (Inr None, g)
      else andThen (gongdan_get w c (gd_base_url c @ ''/api/customers'') g) (\<lambda>r g.
        if rs_status r \<ge> 400
        then (Inl (GongdanUpstreamError (''gongdan list failed: '' @ int_str (rs_status r) @ '' ''
                @ cp_take 200 (rs_text r))), g)
        else (bindE (parse_json r) (\<lambda>rows.
               case rows of
                 JList xs \<Rightarrow> Inr (map_option customer_of (find_row (strip code) xs))
               | _ \<Rightarrow> Inl (GongdanUpstreamError ''gongdan list: expected JSON array'')), g)))"

section \<open>What a lookup says\<close>

text \<open>
  \<open>confirms_id\<close> and \<open>confirms_code\<close>: a response of the ticket system to the request that ends the
  trace describes the customer.
\<close>

definition confirms_id :: "world \<Rightarrow> gongdan \<Rightarrow> string \<Rightarrow> trace \<Rightarrow> customer \<Rightarrow> bool" where
  "confirms_id w c cid t cu \<longleftrightarrow>
     (\<exists>t0 r d. t = t0 @ [EvHttp (gongdan_request c (gd_base_url c @ ''/api/customers/'' @ cid))] \<and>
        w_http w t = Response r \<and> rs_status r < 400 \<and> resp_json r = Inr (JObj d) \<and> cu = customer_of d)"

definition confirms_code :: "world \<Rightarrow> gongdan \<Rightarrow> string \<Rightarrow> trace \<Rightarrow> customer \<Rightarrow> bool" where
  "confirms_code w c code t cu \<longleftrightarrow>
     (\<exists>t0 r rows d. t = t0 @ [EvHttp (gongdan_request c (gd_base_url c @ ''/api/customers''))] \<and>
        w_http w t = Response r \<and> rs_status r < 400 \<and> resp_json r = Inr (JList rows) \<and> JObj d \<in> set rows \<and>
        jget d ''customerCode'' = JStr (strip code) \<and> cu = customer_of d)"

lemma find_row_Some: "find_row target rows = Some d \<Longrightarrow> JObj d \<in> set rows \<and> jget d ''customerCode'' = JStr target"
  by (induction target rows rule: find_row.induct) (auto split: if_splits)

lemma find_row_None: "find_row target rows = None \<longleftrightarrow> (\<forall>d. JObj d \<in> set rows \<longrightarrow> jget d ''customerCode'' \<noteq> JStr target)"
  by (induction target rows rule: find_row.induct) auto

lemma gongdan_get_state: "snd (gongdan_get w c url g) = emit (EvHttp (gongdan_request c url)) g"
  by (auto simp: gongdan_get_def http_request_def Let_def split: http_outcome.split)

lemma gongdan_get_Inr:
  "gongdan_get w c url g = (Inr r, g') \<Longrightarrow> g' = emit (EvHttp (gongdan_request c url)) g \<and> w_http w (g_trace g') = Response r"
  by (auto simp: gongdan_get_def http_request_def Let_def split: http_outcome.splits)

lemma get_by_id_state:
  "snd (get_by_id w c cid g) =
     (if \<not> gongdan_configured c \<or> cid = [] then g
      else emit (EvHttp (gongdan_request c (gd_base_url c @ ''/api/customers/'' @ cid))) g)"
  using gongdan_get_state [of w c "gd_base_url c @ ''/api/customers/'' @ cid" g]
  by (cases "gongdan_get w c (gd_base_url c @ ''/api/customers/'' @ cid) g"; cases "fst (gongdan_get w c (gd_base_url c @ ''/api/customers/'' @ cid) g)")
     (auto simp: get_by_id_def)

lemma get_by_code_state:
  "snd (get_by_code w c code g) =
     (if \<not> gongdan_configured c \<or> code = [] then g
      else emit (EvHttp (gongdan_request c (gd_base_url c @ ''/api/customers''))) g)"
  using gongdan_get_state [of w c "gd_base_url c @ ''/api/customers''" g]
  by (cases "gongdan_get w c (gd_base_url c @ ''/api/customers'') g"; cases "fst (gongdan_get w c (gd_base_url c @ ''/api/customers'') g)")
     (auto simp: get_by_code_def)

lemma parse_json_Inr [simp]: "parse_json r = Inr v \<longleftrightarrow> resp_json r = Inr v"
  by (auto simp: parse_json_def split: sum.splits)

lemma as_dict_Inr [simp]: "as_dict v = Inr d \<longleftrightarrow> v = JObj d"
  by (cases v) auto

lemma get_by_id_Some:
  assumes "get_by_id w c cid g = (Inr (Some cu), g')"
  shows "gongdan_configured c \<and> cid \<noteq> [] \<and> confirms_id w c cid (g_trace g') cu"
  using assms
  by (auto simp: get_by_id_def andThen_eq_Inr bindE_eq_Inr from_api_def confirms_id_def
      dest!: gongdan_get_Inr split: if_splits)

lemma rows_case_Inr:
  "(case v of JList xs \<Rightarrow> Inr (f xs) | _ \<Rightarrow> Inl e) = Inr y \<longleftrightarrow> (\<exists>xs. v = JList xs \<and> f xs = y)"
  by (cases v) auto

lemma get_by_code_Some:
  assumes "get_by_code w c code g = (Inr (Some cu), g')"
  shows "gongdan_configured c \<and> code \<noteq> [] \<and> confirms_code w c code (g_trace g') cu"
  using assms
  by (auto simp: get_by_code_def andThen_eq_Inr bindE_eq_Inr confirms_code_def rows_case_Inr
      dest!: gongdan_get_Inr find_row_Some split: if_splits)

lemma confirmed_code: "confirms_code w c code t cu \<Longrightarrow> cu_code cu = strip code"
  by (auto simp: confirms_code_def customer_of_def text_field_def)

end
