(* ===== verification/Authenticate.thy ===== *)
theory Authenticate
  imports JwtVerify Roles Gongdan
begin

text \<open>
  \<open>app/auth/dependency.py\<close>, with \<open>require_role\<close> of \<open>app/admin/deps.py\<close> and the 401 answer of
  \<open>app/api/errors.py\<close>: from the Authorization header of a request to the \<open>auth_ctx\<close> everything
  else uses. \<open>auth_deps\<close> holds what \<open>lifespan\<close> puts on the application's state.
\<close>

section \<open>Wiring\<close>

record auth_deps =
  ad_settings :: settings
  ad_mode :: jwt_mode_value
  ad_resolver :: role_resolver
  ad_gongdan :: "gongdan option"
  ad_customer_claim :: string

definition auth_deps_of :: "settings \<Rightarrow> auth_deps res" where
  "auth_deps_of s =
     bindE (jwt_mode s) (\<lambda>mode. Inr
       \<lparr>ad_settings = s, ad_mode = mode,
        ad_resolver = \<lparr>rr_claim = casdoor_roles_claim s, rr_redis = True,
                       rr_casdoor = Some (casdoor_init (casdoor_endpoint s) (casdoor_client_id s)
                                            (casdoor_client_secret s)),
                       rr_ttl = role_cache_ttl_sec s\<rparr>,
        ad_gongdan = Some (gongdan_init (gongdan_api_base s) (gongdan_api_key s) (gongdan_timeout_sec s)),
        ad_customer_claim = gongdan_customer_claim s\<rparr>)"

section \<open>The bearer token\<close>

text \<open>\<open>s.split(None, 1)\<close>.\<close>

definition split_ws_once :: "string \<Rightarrow> string list" where
  "split_ws_once s =
     (let s' = lstrip s; word = takeWhile (\<lambda>c. \<not> is_space c) s';
          more = lstrip (dropWhile (\<lambda>c. \<not> is_space c) s')
      in if s' = [] then [] else if more = [] then [word] else [word, more])"

definition extract_bearer :: "string option \<Rightarrow> string option" where
  "extract_bearer header =
     (if \<not> some_text header then None
      else (case split_ws_once (the header) of
              [scheme, rest] \<Rightarrow>
                (if lower scheme = ''bearer'' then (if strip rest \<noteq> [] then Some (strip rest) else None)
                 else None)
            | _ \<Rightarrow> None))"

section \<open>Customer code\<close>

definition code_claim :: "json dict \<Rightarrow> string \<Rightarrow> string option" where
  "code_claim claim key =
     (if key = [] then None
      else (case jget claim key of JStr v \<Rightarrow> (if strip v \<noteq> [] then Some (strip v) else None) | _ \<Rightarrow> None))"

definition extract_customer_code :: "json dict \<Rightarrow> string \<Rightarrow> string option" where
  "extract_customer_code claim primary =
     (case code_claim claim primary of
        Some v \<Rightarrow> Some v
      | None \<Rightarrow> (case code_claim claim ''customerCode'' of
                  Some v \<Rightarrow> Some v
                | None \<Rightarrow> code_claim claim ''customer_code''))"

definition is_customer_claims :: "json dict \<Rightarrow> bool" where
  "is_customer_claims claim = (jget claim ''role'' = JStr ''CUSTOMER'')"

text \<open>\<open>except GongdanUpstreamError\<close> around a lookup.\<close>

definition gongdan_failure :: "exn \<Rightarrow> exn" where
  "gongdan_failure e =
     (case e of GongdanUpstreamError m \<Rightarrow> InvalidTokenError (''gongdan upstream error: '' @ m) | _ \<Rightarrow> e)"

definition mapfst_error :: "(exn \<Rightarrow> exn) \<Rightarrow> 'a res \<times> gw \<Rightarrow> 'a res \<times> gw" where
  "mapfst_error f m = (case m of (Inl e, g) \<Rightarrow> (Inl (f e), g) | (Inr x, g) \<Rightarrow> (Inr x, g))"

text \<open>Is there a configured client?\<close>

definition gongdan_ready :: "gongdan option \<Rightarrow> bool" where
  "gongdan_ready c = (case c of None \<Rightarrow> False | Some c \<Rightarrow> gongdan_configured c)"

section \<open>authenticate\<close>

definition authenticate_customer ::
  "world \<Rightarrow> gongdan option \<Rightarrow> json dict \<Rightarrow> string \<Rightarrow> string \<Rightarrow> gw \<Rightarrow> auth_ctx res \<times> gw" where
  "authenticate_customer w gongdan_client claim uid token g =
     (if \<not> gongdan_ready gongdan_client
      then (Inl (InvalidTokenError ''customer token presented but gongdan client is not configured''), g)
      else (let customer_uuid = py_str (py_or (jget claim ''customerId'') (JStr uid))
            in andThen (mapfst_error gongdan_failure (get_by_id w (the gongdan_client) customer_uuid g)) (\<lambda>found g.
               case found of
                 None \<Rightarrow> (Inl (InvalidTokenError (''unknown customer id: '' @ customer_uuid)), g)
               | Some cu \<Rightarrow>
                   (if cu_code cu = []
                    then (Inl (InvalidTokenError (''gongdan customer '' @ customer_uuid @ '' has no customerCode'')), g)
                    else (Inr \<lparr>user_id = uid, roles = [], raw_token = token, email = jget claim ''email'',
                               user_name = py_or (jget claim ''name'') (py_or (JStr (cu_name cu)) JNull),
                               customer_code = Some (cu_code cu),
                               customer_id = Some (if cu_id cu \<noteq> [] then cu_id cu else customer_uuid),
                               customer_tier = cu_tier cu, customer_queue_type = cu_queue_type cu,
                               claims = claim\<rparr>, g)))))"

text \<open>The customer of a staff token, when it carries a code.\<close>

definition staff_customer ::
  "world \<Rightarrow> auth_deps \<Rightarrow> json dict \<Rightarrow> gw \<Rightarrow> (string \<times> customer) option res \<times> gw" where
  "staff_customer w a claim g =
     (case extract_customer_code claim (ad_customer_claim a) of
        None \<Rightarrow> (Inr None, g)
      | Some raw_code \<Rightarrow>
          (if \<not> gongdan_ready (ad_gongdan a)
           then (Inl (InvalidTokenError ''customer_code present but gongdan is not configured''), g)
           else andThen (mapfst_error gongdan_failure (get_by_code w (the (ad_gongdan a)) raw_code g)) (\<lambda>found g.
             case found of
               None \<Rightarrow> (Inl (InvalidTokenError (''unknown customer_code: '' @ raw_code)), g)
             | Some cu \<Rightarrow> (Inr (Some (if cu_code cu \<noteq> [] then cu_code cu else raw_code, cu)), g))))"

definition authenticate_staff ::
  "world \<Rightarrow> auth_deps \<Rightarrow> json dict \<Rightarrow> string \<Rightarrow> string \<Rightarrow> gw \<Rightarrow> auth_ctx res \<times> gw" where
  "authenticate_staff w a claim uid token g =
     andThen (resolve w (ad_resolver a) uid claim (Some token) g) (\<lambda>rs g.
     andThen (staff_customer w a claim g) (\<lambda>found g.
       (Inr \<lparr>user_id = uid, roles = rs, raw_token = token, email = jget claim ''email'',
             user_name = jget claim ''name'', customer_code = map_option fst found,
             customer_id = map_option (\<lambda>f. cu_id (snd f)) found,
             customer_tier = (case found of None \<Rightarrow> JNull | Some f \<Rightarrow> cu_tier (snd f)),
             customer_queue_type = (case found of None \<Rightarrow> JNull | Some f \<Rightarrow> cu_queue_type (snd f)),
             claims = claim\<rparr>, g)))"

definition authenticate :: "world \<Rightarrow> auth_deps \<Rightarrow> string option \<Rightarrow> gw \<Rightarrow> auth_ctx res \<times> gw" where
  "authenticate w a header g =
     (case extract_bearer header of
        None \<Rightarrow> (Inl (MissingTokenError ''missing Bearer token''), g)
      | Some token \<Rightarrow>
          andThen (verify w (ad_settings a) (ad_mode a) token g) (\<lambda>claim g.
            let uid = py_str (py_or (jget claim ''sub'') (JStr []))
            in if uid = [] then (Inl (InvalidTokenError (''token missing '' @ quoted ''sub'')), g)
               else if is_customer_claims claim
                    then authenticate_customer w (ad_gongdan a) claim uid token g
               else authenticate_staff w a claim uid token g))"

section \<open>Guards\<close>

text \<open>\<open>require_role\<close> of the admin routes.\<close>

definition require_role :: "string \<Rightarrow> auth_ctx \<Rightarrow> auth_ctx res" where
  "require_role role ctx =
     (if role \<notin> set (roles ctx)
      then Inl (HTTPException 403 (''role '' @ quoted role @ '' required'')) else Inr ctx)"

text \<open>\<open>auth_error_handler\<close>: the status and the JSON-RPC body for an AuthError.\<close>

fun is_auth_error :: "exn \<Rightarrow> bool" where
  "is_auth_error (MissingTokenError m) = True"
| "is_auth_error (InvalidTokenError m) = True"
| "is_auth_error e = False"

section \<open>What an identity rests on\<close>

lemma mapfst_error_Inr [simp]: "mapfst_error f m = (Inr x, g) \<longleftrightarrow> m = (Inr x, g)"
  by (cases m; cases "fst m") (auto simp: mapfst_error_def)

lemma snd_mapfst_error [simp]: "snd (mapfst_error f m) = snd m"
  by (cases m; cases "fst m") (auto simp: mapfst_error_def)

lemma extract_customer_code_strip:
  "extract_customer_code cl primary = Some c \<Longrightarrow> c \<noteq> [] \<and> strip c = c"
  by (auto simp: extract_customer_code_def code_claim_def split: option.splits if_splits json.splits)

lemma authenticate_customer_Inr:
  assumes "authenticate_customer w gd cl uid token g = (Inr ctx, g')"
  obtains c cu where "gd = Some c" "gongdan_configured c"
    "confirms_id w c (py_str (py_or (jget cl ''customerId'') (JStr uid))) (g_trace g') cu"
    "cu_code cu \<noteq> []" "customer_code ctx = Some (cu_code cu)" "roles ctx = []" "raw_token ctx = token"
    "user_id ctx = uid" "claims ctx = cl" "email ctx = jget cl ''email''" "outside_only g g'" "g_jwks g' = g_jwks g"
proof -
  let ?id = "py_str (py_or (jget cl ''customerId'') (JStr uid))"
  from assms obtain c cu where c: "gd = Some c" "get_by_id w c ?id g = (Inr (Some cu), g')"
    and ctx: "cu_code cu \<noteq> []" "customer_code ctx = Some (cu_code cu)" "roles ctx = []" "raw_token ctx = token"
    "user_id ctx = uid" "claims ctx = cl" "email ctx = jget cl ''email''"
    by (auto simp: authenticate_customer_def gongdan_ready_def Let_def andThen_eq_Inr split: if_splits option.splits)
  have "outside_only g g'" "g_jwks g' = g_jwks g"
    using get_by_id_state [of w c ?id g] c(2) by (auto split: if_splits)
  with that [of c cu] get_by_id_Some [OF c(2)] c(1) ctx show thesis by blast
qed

lemma staff_customer_Inr:
  assumes "staff_customer w a cl g = (Inr found, g')"
  shows "outside_only g g' \<and> g_jwks g' = g_jwks g \<and>
    (case extract_customer_code cl (ad_customer_claim a) of
       None \<Rightarrow> found = None
     | Some raw \<Rightarrow> (\<exists>c cu. ad_gongdan a = Some c \<and> gongdan_configured c \<and>
         confirms_code w c raw (g_trace g') cu \<and> found = Some (raw, cu)))"
proof (cases "extract_customer_code cl (ad_customer_claim a)")
  case None
  with assms show ?thesis by (simp add: staff_customer_def)
next
  case (Some raw)
  with assms obtain c cu where c: "ad_gongdan a = Some c" "get_by_code w c raw g = (Inr (Some cu), g')"
    "found = Some (if cu_code cu \<noteq> [] then cu_code cu else raw, cu)"
    by (auto simp: staff_customer_def gongdan_ready_def andThen_eq_Inr split: if_splits option.splits)
  have "outside_only g g'" "g_jwks g' = g_jwks g"
    using get_by_code_state [of w c raw g] c(2) by (auto split: if_splits)
  moreover have conf: "gongdan_configured c \<and> confirms_code w c raw (g_trace g') cu"
    using get_by_code_Some [OF c(2)] by blast
  moreover have "cu_code cu = raw"
    using confirmed_code conf extract_customer_code_strip [OF Some] by metis
  ultimately show ?thesis using Some c by auto
qed

lemma authenticate_staff_Inr:
  assumes "authenticate_staff w a cl uid token g = (Inr ctx, g')"
  obtains g1 found where "resolve w (ad_resolver a) uid cl (Some token) g = (Inr (roles ctx), g1)"
    "staff_customer w a cl g1 = (Inr found, g')" "customer_code ctx = map_option fst found"
    "raw_token ctx = token" "user_id ctx = uid" "claims ctx = cl" "outside_only g g'" "g_jwks g' = g_jwks g"
proof -
  from assms obtain rs g1 found where 1: "resolve w (ad_resolver a) uid cl (Some token) g = (Inr rs, g1)"
    and 2: "staff_customer w a cl g1 = (Inr found, g')"
    and ctx: "roles ctx = rs" "customer_code ctx = map_option fst found" "raw_token ctx = token" "user_id ctx = uid"
      "claims ctx = cl"
    by (auto simp: authenticate_staff_def andThen_eq_Inr)
  have "outside_only g g'" "g_jwks g' = g_jwks g"
    using resolve_frame [OF 1] staff_customer_Inr [OF 2] outside_only_trans [of g g1 g'] by auto
  with 1 2 ctx show thesis by (intro that [of g1 found]) simp_all
qed

text \<open>Authentication, successful or not, only talks to the outside.\<close>

lemma authenticate_frame: "outside_only g (snd (authenticate w a header g))"
proof (cases "extract_bearer header")
  case None
  then show ?thesis by (simp add: authenticate_def)
next
  case (Some token)
  obtain r g1 where v: "verify w (ad_settings a) (ad_mode a) token g = (r, g1)" by fastforce
  have 1: "outside_only g g1" by (rule verify_frame(1) [OF v])
  have cust: "outside_only h (snd (authenticate_customer w gd cl uid token h))" for gd cl uid h
    using get_by_id_state [of w "the gd" _ h]
    by (auto simp: authenticate_customer_def Let_def andThen_def split: prod.splits sum.splits option.splits dest!: arg_cong [of _ _ snd])
  have staff: "outside_only h (snd (authenticate_staff w a cl uid token h))" for cl uid h
  proof -
    obtain rr h1 where res: "resolve w (ad_resolver a) uid cl (Some token) h = (rr, h1)" by fastforce
    have "outside_only h1 (snd (staff_customer w a cl h1))"
      using get_by_code_state [of w "the (ad_gongdan a)" _ h1]
      by (auto simp: staff_customer_def andThen_def split: prod.splits sum.splits option.splits dest!: arg_cong [of _ _ snd])
    then have "outside_only h1 (snd (andThen (rr, h1) (\<lambda>rs g. andThen (staff_customer w a cl g) (\<lambda>found g.
        (Inr \<lparr>user_id = uid, roles = rs, raw_token = token, email = jget cl ''email'',
             user_name = jget cl ''name'', customer_code = map_option fst found,
             customer_id = map_option (\<lambda>f. cu_id (snd f)) found,
             customer_tier = (case found of None \<Rightarrow> JNull | Some f \<Rightarrow> cu_tier (snd f)),
             customer_queue_type = (case found of None \<Rightarrow> JNull | Some f \<Rightarrow> cu_queue_type (snd f)),
             claims = cl\<rparr>, g)))))"
      by (cases rr; cases "staff_customer w a cl h1"; cases "fst (staff_customer w a cl h1)") auto
    then show ?thesis
      using resolve_frame [OF res] outside_only_trans by (auto simp: authenticate_staff_def res)
  qed
  show ?thesis
    using 1 cust [of g1] staff [of g1] outside_only_trans [OF 1]
    by (cases r) (simp_all add: authenticate_def Some v Let_def)
qed

text \<open>The last response in the trace describes a customer with this code.\<close>

definition customer_confirmed :: "world \<Rightarrow> gongdan option \<Rightarrow> trace \<Rightarrow> string \<Rightarrow> bool" where
  "customer_confirmed w gd t code \<longleftrightarrow>
     (\<exists>c cu. gd = Some c \<and> gongdan_configured c \<and> cu_code cu = code \<and>
        (confirms_code w c code t cu \<or> (\<exists>cid. confirms_id w c cid t cu)))"

lemma customer_confirmedI:
  "gd = Some c \<Longrightarrow> gongdan_configured c \<Longrightarrow> cu_code cu = code \<Longrightarrow> confirms_code w c code t cu \<Longrightarrow>
     customer_confirmed w gd t code"
  "gd = Some c \<Longrightarrow> gongdan_configured c \<Longrightarrow> cu_code cu = code \<Longrightarrow> confirms_id w c cid t cu \<Longrightarrow>
     customer_confirmed w gd t code"
  by (auto simp: customer_confirmed_def)

lemma signed_jwks_same: "g_jwks g' = g_jwks g \<Longrightarrow> signed_jwks w s token g' cl = signed_jwks w s token g cl"
  by (simp add: signed_jwks_def the_jwks_def)

lemma accepted_same: "g_jwks g' = g_jwks g \<Longrightarrow> accepted w s m token g' cl = accepted w s m token g cl"
  using signed_jwks_same [of g' g w s token cl] by (simp add: accepted_def)

lemma authenticate_facts:
  assumes "authenticate w a header g = (Inr ctx, g')"
  shows "extract_bearer header = Some (raw_token ctx) \<and>
    accepted w (ad_settings a) (ad_mode a) (raw_token ctx) g' (claims ctx) \<and>
    user_id ctx = py_str (py_or (jget (claims ctx) ''sub'') (JStr [])) \<and> user_id ctx \<noteq> [] \<and>
    (\<forall>code. customer_code ctx = Some code \<longrightarrow>
       code \<noteq> [] \<and> customer_confirmed w (ad_gongdan a) (g_trace g') code) \<and>
    (is_customer_claims (claims ctx) \<longrightarrow> roles ctx = [] \<and> customer_code ctx \<noteq> None) \<and>
    (\<not> is_customer_claims (claims ctx) \<longrightarrow>
       customer_code ctx = extract_customer_code (claims ctx) (ad_customer_claim a)) \<and>
    outside_only g g'"
proof -
  from assms obtain token cl g1 where token: "extract_bearer header = Some token"
    and v: "verify w (ad_settings a) (ad_mode a) token g = (Inr cl, g1)"
    and uid: "py_str (py_or (jget cl ''sub'') (JStr [])) \<noteq> []"
    and rest: "(if is_customer_claims cl
       then authenticate_customer w (ad_gongdan a) cl (py_str (py_or (jget cl ''sub'') (JStr []))) token g1
       else authenticate_staff w a cl (py_str (py_or (jget cl ''sub'') (JStr []))) token g1) = (Inr ctx, g')"
    by (auto simp: authenticate_def andThen_eq_Inr Let_def split: option.splits if_splits)
  have acc: "accepted w (ad_settings a) (ad_mode a) token g1 cl" by (rule verify_accepted [OF v])
  have out: "outside_only g g1" by (rule verify_frame(1) [OF v])
  show ?thesis
  proof (cases "is_customer_claims cl")
    case True
    with rest have "authenticate_customer w (ad_gongdan a) cl (py_str (py_or (jget cl ''sub'') (JStr []))) token g1 = (Inr ctx, g')"
      by simp
    then show ?thesis
    proof (rule authenticate_customer_Inr)
      fix c cu
      let ?uid = "py_str (py_or (jget cl ''sub'') (JStr []))"
      assume c: "ad_gongdan a = Some c" "gongdan_configured c"
        and conf: "confirms_id w c (py_str (py_or (jget cl ''customerId'') (JStr ?uid))) (g_trace g') cu"
        and ctx: "cu_code cu \<noteq> []" "customer_code ctx = Some (cu_code cu)" "roles ctx = []" "raw_token ctx = token"
        "user_id ctx = ?uid" "claims ctx = cl" "outside_only g1 g'" "g_jwks g' = g_jwks g1"
      from customer_confirmedI(2) [OF c refl conf]
      show ?thesis
        using ctx token acc uid True accepted_same [of g' g1] outside_only_trans [OF out, of g'] by auto
    qed
  next
    case False
    with rest have "authenticate_staff w a cl (py_str (py_or (jget cl ''sub'') (JStr []))) token g1 = (Inr ctx, g')"
      by simp
    then show ?thesis
    proof (rule authenticate_staff_Inr)
      fix g2 found
      assume sc: "staff_customer w a cl g2 = (Inr found, g')" and code: "customer_code ctx = map_option fst found"
        and ctx: "raw_token ctx = token" "user_id ctx = py_str (py_or (jget cl ''sub'') (JStr []))" "claims ctx = cl"
        "outside_only g1 g'" "g_jwks g' = g_jwks g1"
      have codes: "customer_code ctx = extract_customer_code cl (ad_customer_claim a)"
        using staff_customer_Inr [OF sc] code by (auto split: option.splits)
      have conf: "raw \<noteq> [] \<and> customer_confirmed w (ad_gongdan a) (g_trace g') raw" if raw: "customer_code ctx = Some raw" for raw
      proof -
        have ex: "extract_customer_code cl (ad_customer_claim a) = Some raw" using raw codes by simp
        then obtain c cu where c: "ad_gongdan a = Some c" "gongdan_configured c" "confirms_code w c raw (g_trace g') cu"
          using staff_customer_Inr [OF sc] by auto
        with extract_customer_code_strip [OF ex] confirmed_code [OF c(3)] customer_confirmedI(1) [OF c(1,2) _ c(3)]
        show ?thesis by simp
      qed
      show ?thesis
        using token acc uid False ctx codes conf accepted_same [of g' g1] outside_only_trans [OF out, of g'] by auto
    qed
  qed
qed

section \<open>Properties\<close>

text \<open>
  C3: an identity comes from the bearer token of the request and from verified claims with a
  subject; it has a customer code only when the ticket system, in the last response before the
  identity was built, described that customer; a customer token (role CUSTOMER) never has roles,
  and a staff token carrying a customer code is refused unless the code is confirmed.
\<close>

theorem authenticate_sound:
  assumes "authenticate w a header g = (Inr ctx, g')"
  shows "extract_bearer header = Some (raw_token ctx) \<and>
    accepted w (ad_settings a) (ad_mode a) (raw_token ctx) g' (claims ctx) \<and>
    user_id ctx = py_str (py_or (jget (claims ctx) ''sub'') (JStr [])) \<and> user_id ctx \<noteq> [] \<and>
    (\<forall>code. customer_code ctx = Some code \<longrightarrow>
       code \<noteq> [] \<and> customer_confirmed w (ad_gongdan a) (g_trace g') code) \<and>
    (is_customer_claims (claims ctx) \<longrightarrow> roles ctx = [] \<and> customer_code ctx \<noteq> None) \<and>
    (\<not> is_customer_claims (claims ctx) \<longrightarrow>
       customer_code ctx = extract_customer_code (claims ctx) (ad_customer_claim a)) \<and>
    outside_only g g'"
  using authenticate_facts [OF assms] .

definition both_settings :: settings where
  "both_settings = dev_settings
     \<lparr>gongdan_jwt_secret := Some ''gd-key'', gongdan_api_base := Some ''https://gd/'',
      gongdan_api_key := Some ''k''\<rparr>"

lemma authenticate_sound_witness:
  "\<exists>ctx. fst (authenticate token_world (projr (auth_deps_of both_settings)) (Some ''Bearer cust'') sample_gw) = Inr ctx \<and>
     roles ctx = [] \<and> customer_code ctx \<noteq> None"
proof -
  let ?a = "projr (auth_deps_of both_settings)"
  let ?r = "authenticate token_world ?a (Some ''Bearer cust'') sample_gw"
  have ok: "\<not> isl (fst ?r)" "is_customer_claims (claims (projr (fst ?r)))" by code_simp+
  then obtain ctx g' where r: "?r = (Inr ctx, g')" by (cases ?r; cases "fst ?r") auto
  have "is_customer_claims (claims ctx)" using ok(2) unfolding r by simp
  then show ?thesis using authenticate_sound [OF r] unfolding r by (intro exI [of _ ctx]) simp
qed

text \<open>A staff token with roles and without a customer code needs nobody else.\<close>

lemma authenticate_claim_roles:
  assumes "verify w (ad_settings a) (ad_mode a) token g = (Inr cl, g1)"
    and "extract_bearer header = Some token" and "jget cl ''sub'' = JStr uid" and "uid \<noteq> []"
    and "\<not> is_customer_claims cl" and "normalize (jget cl (rr_claim (ad_resolver a))) \<noteq> []"
    and "extract_customer_code cl (ad_customer_claim a) = None"
  shows "\<exists>ctx g'. authenticate w a header g = (Inr ctx, g') \<and>
    roles ctx = normalize (jget cl (rr_claim (ad_resolver a))) \<and> raw_token ctx = token \<and> claims ctx = cl"
  using assms by (simp add: authenticate_def authenticate_staff_def staff_customer_def resolve_def Let_def py_or_def)

text \<open>
  C7: with the customer role left at CUSTOMER, roles are given only to tokens verified with a staff
  key: the development secret in development mode or a key of the identity provider in production;
  a token the ticket system signed never carries any.
\<close>

theorem roles_need_staff_key:
  assumes "authenticate w a header g = (Inr ctx, g')"
    and "gongdan_customer_role_value (ad_settings a) = ''CUSTOMER''" and "roles ctx \<noteq> []"
  shows "(ad_mode a = Dev \<and> signed_dev w (ad_settings a) (raw_token ctx) (claims ctx)) \<or>
    (ad_mode a = Prod \<and> signed_jwks w (ad_settings a) (raw_token ctx) g' (claims ctx))"
proof -
  from assms(1) obtain token cl g1 where v: "verify w (ad_settings a) (ad_mode a) token g = (Inr cl, g1)"
    and rest: "(if is_customer_claims cl
       then authenticate_customer w (ad_gongdan a) cl (py_str (py_or (jget cl ''sub'') (JStr []))) token g1
       else authenticate_staff w a cl (py_str (py_or (jget cl ''sub'') (JStr []))) token g1) = (Inr ctx, g')"
    by (auto simp: authenticate_def andThen_eq_Inr Let_def split: option.splits if_splits)
  have staff: "\<not> is_customer_claims cl"
  proof
    assume "is_customer_claims cl"
    with rest have "authenticate_customer w (ad_gongdan a) cl (py_str (py_or (jget cl ''sub'') (JStr []))) token g1 = (Inr ctx, g')"
      by simp
    then show False by (rule authenticate_customer_Inr) (use assms(3) in simp)
  qed
  with rest have "authenticate_staff w a cl (py_str (py_or (jget cl ''sub'') (JStr []))) token g1 = (Inr ctx, g')"
    by simp
  then have same: "raw_token ctx = token" "claims ctx = cl" "g_jwks g' = g_jwks g1"
    by (rule authenticate_staff_Inr; simp)+
  have "accepted w (ad_settings a) (ad_mode a) (raw_token ctx) g' (claims ctx)"
    using verify_accepted [OF v] same accepted_same [of g' g1] by simp
  moreover have "\<not> signed_by_gongdan w (ad_settings a) (raw_token ctx) (claims ctx)"
    using staff assms(2) same by (simp add: signed_by_gongdan_def is_customer_claims_def)
  ultimately show ?thesis by (simp add: accepted_def)
qed

lemma both_deps: "ad_settings (projr (auth_deps_of both_settings)) = both_settings"
  "ad_mode (projr (auth_deps_of both_settings)) = Dev"
  "rr_claim (ad_resolver (projr (auth_deps_of both_settings))) = ''roles''"
  "ad_customer_claim (projr (auth_deps_of both_settings)) = ''customer_code''"
proof -
  have "jwt_mode both_settings = Inr Dev" "casdoor_roles_claim both_settings = ''roles''"
    "gongdan_customer_claim both_settings = ''customer_code''" by code_simp+
  then show "ad_settings (projr (auth_deps_of both_settings)) = both_settings"
    "ad_mode (projr (auth_deps_of both_settings)) = Dev"
    "rr_claim (ad_resolver (projr (auth_deps_of both_settings))) = ''roles''"
    "ad_customer_claim (projr (auth_deps_of both_settings)) = ''customer_code''"
    by (simp_all add: auth_deps_of_def)
qed

lemma roles_need_staff_key_witness:
  "\<exists>ctx g'. authenticate token_world (projr (auth_deps_of both_settings)) (Some ''Bearer staff'') sample_gw = (Inr ctx, g') \<and>
     signed_dev token_world both_settings (raw_token ctx) (claims ctx)"
proof -
  let ?a = "projr (auth_deps_of both_settings)"
  have v: "verify token_world (ad_settings ?a) (ad_mode ?a) ''staff'' sample_gw = (Inr staff_claims, sample_gw)"
    unfolding both_deps
    by (simp add: verify_def verify_hs256_def looks_like_gongdan_customer_def token_world_def staff_claims_def
        both_settings_def dev_settings_def default_settings_def jget_def)
  have bearer: "extract_bearer (Some ''Bearer staff'') = Some ''staff''" by code_simp
  have cl: "jget staff_claims ''sub'' = JStr ''u1''" "''u1'' \<noteq> []" "\<not> is_customer_claims staff_claims"
    "normalize (jget staff_claims (rr_claim (ad_resolver ?a))) \<noteq> []"
    "extract_customer_code staff_claims (ad_customer_claim ?a) = None"
    unfolding both_deps
    by (simp_all add: staff_claims_def jget_def is_customer_claims_def extract_customer_code_def code_claim_def)
  from authenticate_claim_roles [OF v bearer cl] cl(4) obtain ctx g' where
    r: "authenticate token_world ?a (Some ''Bearer staff'') sample_gw = (Inr ctx, g')" and rs: "roles ctx \<noteq> []" by auto
  have role: "gongdan_customer_role_value (ad_settings ?a) = ''CUSTOMER''"
    unfolding both_deps by (simp add: both_settings_def dev_settings_def default_settings_def)
  from roles_need_staff_key [OF r role rs] have "signed_dev token_world both_settings (raw_token ctx) (claims ctx)"
    unfolding both_deps by simp
  with r show ?thesis by blast
qed

text \<open>
  C24: with any other value of \<open>gongdan_customer_role_value\<close> this fails: the token goes to the
  ticket system's key, but the test for a customer compares with the fixed word CUSTOMER, so the
  roles it claims are granted.
\<close>

theorem other_role_value_grants_roles:
  assumes "gongdan_customer_role_value (ad_settings a) \<noteq> ''CUSTOMER''"
    and "signed_by_gongdan w (ad_settings a) token cl"
    and "w_jwt_unverified_claims w token = JoseOk cl"
    and "extract_bearer header = Some token" and "jget cl ''sub'' = JStr uid" and "uid \<noteq> []"
    and "normalize (jget cl (rr_claim (ad_resolver a))) \<noteq> []"
    and "extract_customer_code cl (ad_customer_claim a) = None"
  shows "\<exists>ctx g'. authenticate w a header g = (Inr ctx, g') \<and>
    roles ctx = normalize (jget cl (rr_claim (ad_resolver a)))"
proof -
  have gd: "some_text (gongdan_jwt_secret (ad_settings a))" "jget cl ''role'' = JStr (gongdan_customer_role_value (ad_settings a))"
    using assms(2) by (simp_all add: signed_by_gongdan_def)
  have v: "verify w (ad_settings a) (ad_mode a) token g = (Inr cl, g)"
    using gd assms(2,3) verify_gongdan_Inr [OF gd(1), of w token cl]
    by (simp add: verify_def looks_like_gongdan_customer_def catch_jwt_error_def)
  have "\<not> is_customer_claims cl" using gd(2) assms(1) by (simp add: is_customer_claims_def)
  from authenticate_claim_roles [OF v assms(4-6) this assms(7,8)] show ?thesis by blast
qed

definition lower_settings :: settings where
  "lower_settings = both_settings\<lparr>gongdan_customer_role_value := ''customer''\<rparr>"

definition lower_claims :: "json dict" where
  "lower_claims = [(''sub'', JStr ''c1''), (''role'', JStr ''customer''), (''roles'', JList [JStr ''cloud_admin''])]"

definition lower_world :: world where
  "lower_world = sample_world
     \<lparr>w_jwt_decode := (\<lambda>tok key _. if tok = ''cust'' \<and> key = SecretKey ''gd-key'' then JoseOk lower_claims
        else JWTError ''bad signature''),
      w_jwt_unverified_claims := (\<lambda>tok. JoseOk lower_claims)\<rparr>"

lemma other_role_value_grants_roles_witness:
  "\<exists>ctx g'. authenticate lower_world (projr (auth_deps_of lower_settings)) (Some ''Bearer cust'') sample_gw = (Inr ctx, g') \<and>
     roles ctx = [''cloud_admin'']"
proof -
  let ?a = "projr (auth_deps_of lower_settings)"
  have "jwt_mode lower_settings = Inr Dev" "casdoor_roles_claim lower_settings = ''roles''"
    "gongdan_customer_claim lower_settings = ''customer_code''" by code_simp+
  then have a: "ad_settings ?a = lower_settings" "rr_claim (ad_resolver ?a) = ''roles''" "ad_customer_claim ?a = ''customer_code''"
    by (simp_all add: auth_deps_of_def)
  have s: "gongdan_customer_role_value (ad_settings ?a) \<noteq> ''CUSTOMER''"
    unfolding a by (simp add: lower_settings_def)
  have signed: "signed_by_gongdan lower_world (ad_settings ?a) ''cust'' lower_claims"
    unfolding a by (simp add: signed_by_gongdan_def lower_world_def lower_settings_def both_settings_def lower_claims_def jget_def)
  have peek: "w_jwt_unverified_claims lower_world ''cust'' = JoseOk lower_claims" by (simp add: lower_world_def)
  have bearer: "extract_bearer (Some ''Bearer cust'') = Some ''cust''" by code_simp
  have rest: "jget lower_claims ''sub'' = JStr ''c1''" "''c1'' \<noteq> []"
    "normalize (jget lower_claims (rr_claim (ad_resolver ?a))) \<noteq> []"
    "extract_customer_code lower_claims (ad_customer_claim ?a) = None"
    unfolding a by (simp_all add: lower_claims_def jget_def extract_customer_code_def code_claim_def)
  from other_role_value_grants_roles [OF s signed peek bearer rest, of sample_gw]
  show ?thesis unfolding a by (simp add: lower_claims_def jget_def)
qed

end
