(* ===== verification/SseText.thy ===== *)
theory SseText
  imports McpProxy
begin

text \<open>
  The text of a server-sent event as the gateway writes it (\<open>_sse_event\<close> of
  \<open>app/mcp/streamable.py\<close>, the f-strings of \<open>app/mcp/sse.py\<close>) and what the reader of the MCP
  proxy makes of it. The lemmas follow \<open>str.splitlines\<close> through printed JSON: a document printed
  with \<open>ensure_ascii=False\<close> is one line unless a text in it holds U+0085, U+2028 or U+2029.
\<close>

section \<open>Writing an event\<close>

definition sse_text :: "string \<Rightarrow> string \<Rightarrow> string" where
  "sse_text event data = ''event: '' @ event @ [CHR 0x0A] @ ''data: '' @ data @ [CHR 0x0A, CHR 0x0A]"

definition sse_event :: "string \<Rightarrow> json \<Rightarrow> string" where
  "sse_event event data = sse_text event (json_dumps False data)"

section \<open>Texts without a line boundary\<close>

definition unbroken :: "string \<Rightarrow> bool" where
  "unbroken s \<longleftrightarrow> next_line s = (s, None)"

definition ascii_start :: "string \<Rightarrow> bool" where
  "ascii_start s \<longleftrightarrow> (case s of [] \<Rightarrow> True | c # _ \<Rightarrow> (of_char c :: nat) < 128)"

lemma unbroken_Nil [simp]: "unbroken []"
  by (simp add: unbroken_def)

lemma unbroken_Cons: "unbroken (c # s) \<longleftrightarrow> line_break (c # s) = None \<and> unbroken s"
  by (auto simp: unbroken_def split: option.split prod.split)

lemma line_break_append:
  assumes "line_break (c # s) = None" and "ascii_start b"
  shows "line_break ((c # s) @ b) = None"
proof (cases b)
  case (Cons d ds)
  with assms(2) have d: "(of_char d :: nat) < 128" by (simp add: ascii_start_def)
  then have "d \<noteq> CHR 0x85" "d \<noteq> CHR 0x80" "d \<noteq> CHR 0xA8" "d \<noteq> CHR 0xA9" by auto
  moreover have "c \<noteq> CHR 0x0D" using assms(1) by (auto simp: line_break_def split: if_splits)
  ultimately show ?thesis
    using assms(1) Cons by (cases s; cases "tl s") (auto simp: line_break_def split: if_splits)
qed (use assms in simp)

lemma unbroken_append: "unbroken a \<Longrightarrow> unbroken b \<Longrightarrow> ascii_start b \<Longrightarrow> unbroken (a @ b)"
  using line_break_append by (induction a) (auto simp: unbroken_Cons)

lemma next_line_break: "unbroken a \<Longrightarrow> next_line (a @ CHR 0x0A # r) = (a, Some r)"
proof (induction a)
  case (Cons c a)
  then have "line_break ((c # a) @ CHR 0x0A # r) = None"
    by (intro line_break_append) (simp_all add: unbroken_Cons ascii_start_def)
  with Cons show ?case by (simp add: unbroken_Cons)
qed (simp add: line_break_def)

lemma splitlines_line: "unbroken a \<Longrightarrow> splitlines (a @ CHR 0x0A # r) = a # splitlines r"
  by (subst splitlines.simps) (simp add: next_line_break)

section \<open>Printed documents\<close>

definition printable :: "char \<Rightarrow> bool" where
  "printable c \<longleftrightarrow> 32 \<le> (of_char c :: nat) \<and> (of_char c :: nat) < 127"

lemma printable_line_break:
  assumes "printable c"
  shows "line_break (c # s) = None"
proof -
  have "c \<noteq> CHR 0x0D" "c \<noteq> CHR 0xC2" "c \<noteq> CHR 0xE2" "c \<noteq> CHR 0x0A" "c \<noteq> CHR 0x0B" "c \<noteq> CHR 0x0C"
    "c \<noteq> CHR 0x1C" "c \<noteq> CHR 0x1D" "c \<noteq> CHR 0x1E"
    using assms by (auto simp: printable_def)
  then show ?thesis by (simp add: line_break_def)
qed

lemma unbroken_printable: "list_all printable a \<Longrightarrow> unbroken (a @ b) \<longleftrightarrow> unbroken b"
  by (induction a) (simp_all add: unbroken_Cons printable_line_break)

lemma printable_ascii_start: "a \<noteq> [] \<Longrightarrow> list_all printable a \<Longrightarrow> ascii_start (a @ b)"
  by (cases a) (simp_all add: ascii_start_def printable_def)

text \<open>Which texts are printed without a boundary.\<close>

definition one_line :: "string \<Rightarrow> bool" where
  "one_line s \<longleftrightarrow>
     \<not> contains [CHR 0xC2, CHR 0x85] s \<and> \<not> contains [CHR 0xE2, CHR 0x80, CHR 0xA8] s \<and>
     \<not> contains [CHR 0xE2, CHR 0x80, CHR 0xA9] s"

fun all_texts :: "(string \<Rightarrow> bool) \<Rightarrow> json \<Rightarrow> bool" where
  "all_texts P (JStr s) = P s"
| "all_texts P (JList xs) = list_all (all_texts P) xs"
| "all_texts P (JObj kvs) = list_all (\<lambda>kv. P (fst kv) \<and> all_texts P (snd kv)) kvs"
| "all_texts P v = True"

lemma hex_digit_printable: "d < 16 \<Longrightarrow> printable (hex_digit_lower d)"
  by (auto simp: printable_def hex_digit_lower_def)

lemma dump_byte_shape:
  "dump_byte c = [c] \<and> 127 \<le> (of_char c :: nat) \<or> dump_byte c \<noteq> [] \<and> list_all printable (dump_byte c)"
proof (cases "127 \<le> (of_char c :: nat)")
  case True
  then have "dump_byte c = [c]"
    unfolding dump_byte_def
    by (cases "c = CHR 0x22"; cases "c = CHR 0x5C"; cases "c = CHR 0x0A"; cases "c = CHR 0x0D";
        cases "c = CHR 0x09"; cases "c = CHR 0x0C"; cases "c = CHR 0x08"; simp)
  with True show ?thesis by simp
next
  case False
  then have "list_all printable (dump_byte c)"
    by (simp add: dump_byte_def u_escape_def hex_digit_printable) (simp add: printable_def)
  moreover have "dump_byte c \<noteq> []" by (simp add: dump_byte_def u_escape_def)
  ultimately show ?thesis by simp
qed

text \<open>A pattern of bytes above 127 occurs in the printed text only where it was in the text.\<close>

lemma startswith_dump_high:
  assumes "list_all (\<lambda>c. 128 \<le> (of_char c :: nat)) p" and "startswith p (concat (map dump_byte s))"
  shows "startswith p s"
  using assms
proof (induction p arbitrary: s)
  case (Cons d p)
  then have d: "128 \<le> (of_char d :: nat)" by simp
  show ?case
  proof (cases s)
    case Nil
    with Cons.prems(2) show ?thesis by simp
  next
    case c: (Cons c cs)
    from dump_byte_shape [of c] show ?thesis
    proof
      assume "dump_byte c = [c] \<and> 127 \<le> (of_char c :: nat)"
      with Cons c show ?thesis by simp
    next
      assume shape: "dump_byte c \<noteq> [] \<and> list_all printable (dump_byte c)"
      then obtain e es where "dump_byte c = e # es" by (cases "dump_byte c") auto
      with shape Cons.prems(2) c d show ?thesis by (auto simp: printable_def)
    qed
  qed
qed simp

lemma line_break_high:
  assumes "127 \<le> (of_char c :: nat)"
    and "\<not> startswith [CHR 0xC2, CHR 0x85] (c # s)" "\<not> startswith [CHR 0xE2, CHR 0x80, CHR 0xA8] (c # s)"
    "\<not> startswith [CHR 0xE2, CHR 0x80, CHR 0xA9] (c # s)"
  shows "line_break (c # s) = None"
proof -
  have "c \<noteq> CHR 0x0D" "c \<noteq> CHR 0x0A" "c \<noteq> CHR 0x0B" "c \<noteq> CHR 0x0C" "c \<noteq> CHR 0x1C" "c \<noteq> CHR 0x1D" "c \<noteq> CHR 0x1E"
    using assms(1) by auto
  with assms(2-4) show ?thesis by (simp add: line_break_def)
qed

lemma one_line_Cons: "one_line (c # s) \<Longrightarrow> one_line s \<and>
    \<not> startswith [CHR 0xC2, CHR 0x85] (c # s) \<and> \<not> startswith [CHR 0xE2, CHR 0x80, CHR 0xA8] (c # s) \<and>
    \<not> startswith [CHR 0xE2, CHR 0x80, CHR 0xA9] (c # s)"
  by (simp add: one_line_def)

lemma unbroken_dump_bytes: "one_line s \<Longrightarrow> unbroken (concat (map dump_byte s))"
proof (induction s)
  case (Cons c s)
  note 1 = one_line_Cons [OF Cons.prems]
  from dump_byte_shape [of c] show ?case
  proof
    assume c: "dump_byte c = [c] \<and> 127 \<le> (of_char c :: nat)"
    have "startswith p (c # concat (map dump_byte s)) \<Longrightarrow> startswith p (c # s)"
      if "list_all (\<lambda>c. 128 \<le> (of_char c :: nat)) p" for p
      using that by (cases p) (auto intro: startswith_dump_high)
    from this [of "[CHR 0xC2, CHR 0x85]"] this [of "[CHR 0xE2, CHR 0x80, CHR 0xA8]"]
      this [of "[CHR 0xE2, CHR 0x80, CHR 0xA9]"] 1 c
    have "line_break (c # concat (map dump_byte s)) = None" by (intro line_break_high) auto
    with c 1 Cons.IH show ?thesis by (simp add: unbroken_Cons)
  next
    assume "dump_byte c \<noteq> [] \<and> list_all printable (dump_byte c)"
    with 1 Cons.IH show ?thesis by (simp add: unbroken_printable)
  qed
qed simp

lemma unbroken_dump_text: "one_line s \<Longrightarrow> unbroken (dump_text False s)"
proof -
  assume "one_line s"
  then have "unbroken (concat (map dump_byte s))" by (rule unbroken_dump_bytes)
  then have "unbroken (concat (map dump_byte s) @ [CHR 0x22])"
    by (rule unbroken_append) (simp_all add: unbroken_def ascii_start_def line_break_def)
  moreover have "dump_one False = dump_byte" by (simp add: dump_one_def [abs_def])
  ultimately show ?thesis
    using dump_text_bytes [of False s] unbroken_printable [of "[CHR 0x22]" "concat (map dump_byte s) @ [CHR 0x22]"]
    by (simp add: text_ok_def printable_def)
qed

lemma ascii_start_dump_text [simp]: "ascii_start (dump_text ea s @ b)"
  by (simp add: dump_text_def ascii_start_def)

lemma dec_printable: "0 \<le> n \<Longrightarrow> list_all printable (dec n)"
proof -
  have "is_digit c \<Longrightarrow> printable c" for c
    by (auto simp: is_digit_def printable_def Let_def)
  then show "0 \<le> n \<Longrightarrow> list_all printable (dec n)"
    using dec_digits [of n] by (auto simp: list_all_iff)
qed

lemma int_str_printable: "list_all printable (int_str i)"
  using dec_printable [of i] dec_printable [of "- i"] by (simp add: int_str_def printable_def)

lemma unbroken_join:
  assumes "\<And>x. x \<in> set xs \<Longrightarrow> unbroken x \<and> (\<forall>b. ascii_start (x @ b))"
  shows "unbroken (join '', '' xs)"
  using assms
proof (induction "'', ''" xs rule: join.induct)
  case (3 x y zs)
  have "unbroken (join '', '' (y # zs))" by (rule 3(1)) (use 3(2) in auto)
  then have "unbroken ('', '' @ join '', '' (y # zs))" by (subst unbroken_printable) (simp_all add: printable_def)
  moreover have "ascii_start ('', '' @ join '', '' (y # zs))" by (simp add: ascii_start_def)
  ultimately show ?case using 3(2) by (simp add: unbroken_append)
qed simp_all

lemma unbroken_close:
  assumes "unbroken s" and "printable c" "printable d"
  shows "unbroken (c # s @ [d])"
proof -
  have "unbroken (s @ [d])"
    using assms by (intro unbroken_append)
      (simp_all add: unbroken_Cons printable_line_break ascii_start_def printable_def)
  with assms(2) show ?thesis by (simp add: unbroken_Cons printable_line_break)
qed

text \<open>A printed document is one line and starts with an ASCII character.\<close>

lemma dumps_one_line:
  "plain False v \<Longrightarrow> all_texts one_line v \<Longrightarrow>
     unbroken (json_dumps False v) \<and> (\<forall>b. ascii_start (json_dumps False v @ b))"
proof (induction v)
  case (JInt i)
  have "int_str i \<noteq> []" by (rule int_str_hd(2))
  then show ?case
    using int_str_printable [of i] unbroken_printable [of "int_str i" "[]"] printable_ascii_start by simp
next
  case (JStr s)
  then show ?case by (simp add: unbroken_dump_text)
next
  case (JList xs)
  then have "unbroken (join '', '' (map (json_dumps False) xs))"
    by (intro unbroken_join) (auto simp: list_all_iff)
  then have "unbroken (CHR ''['' # join '', '' (map (json_dumps False) xs) @ [CHR '']''])"
    by (rule unbroken_close) (simp_all add: printable_def)
  then show ?case by (simp add: ascii_start_def)
next
  case (JObj kvs)
  have member: "unbroken (dump_text False k @ '': '' @ json_dumps False v) \<and>
      (\<forall>b. ascii_start ((dump_text False k @ '': '' @ json_dumps False v) @ b))" if "(k, v) \<in> set kvs" for k v
  proof -
    have kv: "one_line k" "unbroken (json_dumps False v)"
      using JObj that by (fastforce simp: list_all_iff)+
    then have "unbroken ('': '' @ json_dumps False v)" by (subst unbroken_printable) (simp_all add: printable_def)
    moreover have "ascii_start ('': '' @ json_dumps False v)" by (simp add: ascii_start_def)
    ultimately show ?thesis
      using unbroken_append [OF unbroken_dump_text [OF kv(1)]] by simp
  qed
  have "unbroken (join '', '' (map (\<lambda>kv. dump_text False (fst kv) @ '': '' @ json_dumps False (snd kv)) kvs))"
    by (intro unbroken_join) (use member in auto)
  then have "unbroken (CHR ''{'' # join '', '' (map (\<lambda>kv. dump_text False (fst kv) @ '': '' @ json_dumps False (snd kv)) kvs) @ [CHR ''}''])"
    by (rule unbroken_close) (simp_all add: printable_def)
  then show ?case by (simp add: ascii_start_def)
qed (simp_all add: unbroken_Cons line_break_def ascii_start_def)

section \<open>Reading an event\<close>

lemma printable_lstrip:
  assumes "printable c" and "c \<noteq> CHR '' ''"
  shows "lstrip (c # s) = c # s"
proof -
  have "(of_char c :: nat) \<noteq> of_char (CHR '' '')" using assms(2) of_char_eq_iff by blast
  then show ?thesis using assms(1) by (simp add: lstrip_def is_space_def printable_def Let_def)
qed

lemma lstrip_dumps: "plain ea v \<Longrightarrow> lstrip (json_dumps ea v) = json_dumps ea v"
proof (cases v)
  case (JInt i)
  then obtain c cs where c: "int_str i = c # cs" using int_str_hd(2) [of i] by (cases "int_str i") auto
  moreover from c have "printable c" using int_str_printable [of i] by simp
  moreover from c have "c \<noteq> CHR '' ''" using int_str_hd(1) [of i] by (auto simp: is_digit_def)
  ultimately show ?thesis using JInt by (simp add: printable_lstrip)
qed (simp_all add: printable_lstrip printable_def dump_text_def)

text \<open>
  C34: what the gateway writes as a server-sent event, the gateway's own MCP proxy reads back: the
  same JSON-RPC message, whatever its nesting, escapes and keys, as long as it holds no float and no
  text with a line separator (U+0085, U+2028, U+2029).
\<close>

theorem sse_event_roundtrip:
  assumes "plain False v" and "all_texts one_line v" and "unbroken event"
  shows "parse_sse_envelope (sse_event event v) = Inr v"
proof -
  let ?d = "json_dumps False v"
  have d: "unbroken ?d" using dumps_one_line [OF assms(1,2)] by simp
  have e: "unbroken (''event: '' @ event)"
    using assms(3) by (subst unbroken_printable) (simp_all add: printable_def)
  have l: "unbroken (''data: '' @ ?d)"
    using d by (subst unbroken_printable) (simp_all add: printable_def)
  have "sse_event event v = (''event: '' @ event) @ CHR 0x0A # ((''data: '' @ ?d) @ CHR 0x0A # ([] @ CHR 0x0A # []))"
    by (simp add: sse_event_def sse_text_def)
  then have lines: "splitlines (sse_event event v) = [''event: '' @ event, ''data: '' @ ?d, []]"
    using splitlines_line [OF e] splitlines_line [OF l] splitlines_line [OF unbroken_Nil, of "[]"]
    by (simp add: splitlines.simps [of "[]"])
  have strip: "strip (c # s) \<noteq> []" if "\<not> is_space c" for c s
    using that by (auto simp: strip_def lstrip_def rstrip_def)
  have space: "\<not> is_space (CHR ''e'')" "\<not> is_space (CHR ''d'')" "is_space (CHR '' '')" by (simp_all add: is_space_def)
  have ls: "lstrip ?d = ?d" by (rule lstrip_dumps [OF assms(1)])
  have "sse_chunks [''event: '' @ event, ''data: '' @ ?d, []] [] = [?d]"
    using strip [OF space(1)] strip [OF space(2)] ls space(3)
    by (simp add: lstrip_def)
  then show ?thesis
    using loads_dumps [OF assms(1)] by (simp add: parse_sse_envelope_def lines)
qed

lemma sse_event_roundtrip_witness:
  "parse_sse_envelope (sse_event ''message'' (JObj [(''id'', JInt 3), (''result'', JList [JStr ''a'', JNull])])) =
     Inr (JObj [(''id'', JInt 3), (''result'', JList [JStr ''a'', JNull])])"
proof (rule sse_event_roundtrip)
  show "plain False (JObj [(''id'', JInt 3), (''result'', JList [JStr ''a'', JNull])])"
    by (simp add: text_ok_def wf_dict_def)
  show "all_texts one_line (JObj [(''id'', JInt 3), (''result'', JList [JStr ''a'', JNull])])"
    by (simp add: one_line_def)
  show "unbroken ''message''" by (simp add: unbroken_Cons line_break_def)
qed

text \<open>
  A text with U+2028 in it does not survive: the JSON is printed with the character as it is, the
  reader takes it for the end of the line, and the rest of the document is lost.
\<close>

lemma sse_separator_breaks:
  "json_loads (json_dumps False (JStr [CHR 0xE2, CHR 0x80, CHR 0xA8])) = Inr (JStr [CHR 0xE2, CHR 0x80, CHR 0xA8]) \<and>
   isl (parse_sse_envelope (sse_event ''message'' (JStr [CHR 0xE2, CHR 0x80, CHR 0xA8])))"
  by code_simp

end
