(* ===== verification/Transport.thy ===== *)
theory Transport
  imports Gateway Authenticate SseText
begin

text \<open>
  \<open>app/mcp/streamable.py\<close>, \<open>app/mcp/sse.py\<close> and \<open>app/api/errors.py\<close>: the routes through which
  JSON-RPC messages arrive, the event streams, and the answer to an exception. A request body is
  the UTF-8 text of the body; rendering a reply's content as text is the web framework's. A stream
  is opened, read and closed by separate operations, in any order with the other requests.
\<close>

section \<open>Replies\<close>

text \<open>
  A JSON body with its status, a status alone, the 401 challenge with \<open>WWW-Authenticate\<close>, the 422 of
  FastAPI for a request outside its schema, or an exception that is left to the server (a plain 500).
\<close>

datatype reply = JsonReply int json | EmptyReply int | Challenge json | Unprocessable | ServerError exn

definition text_or_default :: "string \<Rightarrow> string \<Rightarrow> string" where
  "text_or_default s d = (if s \<noteq> [] then s else d)"

definition auth_error_handler :: "exn \<Rightarrow> reply" where
  "auth_error_handler e =
     Challenge (jsonrpc_error JNull (-32001) (text_or_default (exn_text e) ''unauthorized'') None)"

text \<open>What FastAPI does with an exception: the handler above, its own for HTTPException.\<close>

definition error_reply :: "exn \<Rightarrow> reply" where
  "error_reply e =
     (if is_auth_error e then auth_error_handler e
      else (case e of
              HTTPException status detail \<Rightarrow> JsonReply status (JObj [(''detail'', JStr detail)])
            | _ \<Rightarrow> ServerError e))"

text \<open>\<open>await request.json()\<close>; \<open>json.loads\<close> of bytes accepts a byte order mark.\<close>

definition request_json :: "string \<Rightarrow> string + json" where
  "request_json body = json_loads (if startswith bom body then drop 3 body else body)"

definition invalid_json :: reply where
  "invalid_json = JsonReply 400 (jsonrpc_error JNull INTERNAL_ERROR ''invalid json'' None)"

section \<open>POST /mcp\<close>

text \<open>The items of a batch in order; an exception ends it.\<close>

fun handle_batch ::
  "world \<Rightarrow> settings \<Rightarrow> dispatchers \<Rightarrow> auth_ctx \<Rightarrow> json list \<Rightarrow> gw \<Rightarrow> json list res \<times> gw" where
  "handle_batch w s ds ctx [] g = (Inr [], g)"
| "handle_batch w s ds ctx (item # items) g =
     andThen (handle w s ds item ctx g) (\<lambda>r g.
     andThen (handle_batch w s ds ctx items g) (\<lambda>rs g.
       (Inr (case r of None \<Rightarrow> rs | Some a \<Rightarrow> a # rs), g)))"

definition post_body ::
  "world \<Rightarrow> settings \<Rightarrow> dispatchers \<Rightarrow> auth_ctx \<Rightarrow> string \<Rightarrow> gw \<Rightarrow> reply \<times> gw" where
  "post_body w s ds ctx body g =
     (case request_json body of
        Inl e \<Rightarrow> (invalid_json, g)
      | Inr (JList items) \<Rightarrow>
          (case handle_batch w s ds ctx items g of
             (Inl e, g) \<Rightarrow> (error_reply e, g)
           | (Inr results, g) \<Rightarrow> (if results = [] then EmptyReply 204 else JsonReply 200 (JList results), g))
      | Inr msg \<Rightarrow>
          (case handle w s ds msg ctx g of
             (Inl e, g) \<Rightarrow> (error_reply e, g)
           | (Inr None, g) \<Rightarrow> (EmptyReply 204, g)
           | (Inr (Some resp), g) \<Rightarrow> (JsonReply 200 resp, g)))"

definition mcp_post ::
  "world \<Rightarrow> settings \<Rightarrow> dispatchers \<Rightarrow> auth_deps \<Rightarrow> string option \<Rightarrow> string \<Rightarrow> gw \<Rightarrow> reply \<times> gw" where
  "mcp_post w s ds a header body g =
     (case authenticate w a header g of
        (Inl e, g) \<Rightarrow> (error_reply e, g)
      | (Inr ctx, g) \<Rightarrow> post_body w s ds ctx body g)"

section \<open>GET /mcp\<close>

definition list_changed :: json where
  "list_changed = JObj [(''jsonrpc'', JStr ''2.0''), (''method'', JStr ''notifications/tools/list_changed'')]"

definition stream_open ::
  "world \<Rightarrow> auth_deps \<Rightarrow> string option \<Rightarrow> gw \<Rightarrow> (nat \<times> string) res \<times> gw" where
  "stream_open w a header g =
     andThen (authenticate w a header g) (\<lambda>ctx g.
       case subscribe g of (n, g) \<Rightarrow>
         (Inr (n, sse_event ''endpoint'' (JObj [(''method'', JStr ''notifications/tools/list_changed'')])), g))"

text \<open>One turn of the generator: it waits (None) while its queue is empty, and ends after \<open>__stop__\<close>.\<close>

definition stream_next :: "nat \<Rightarrow> gw \<Rightarrow> string option \<times> gw" where
  "stream_next n g =
     (case take_event n g of
        (None, g) \<Rightarrow> (None, g)
      | (Some e, g) \<Rightarrow>
          (Some (sse_event ''message'' list_changed), if e = ''__stop__'' then unsubscribe n g else g))"

definition stream_close :: "nat \<Rightarrow> gw \<Rightarrow> gw" where
  "stream_close n g = unsubscribe n g"

section \<open>The SSE transport\<close>

text \<open>
  A session: who opened it, its queue of at most 64 messages, and the messages whose senders wait in
  \<open>queue.put\<close> for room.
\<close>

record sse_session =
  ss_ctx :: auth_ctx
  ss_queue :: "string list"
  ss_waiting :: "string list"

type_synonym sse_sessions = "(string \<times> sse_session) list"

definition queue_size :: nat where "queue_size = 64"

text \<open>\<open>uuid4().hex\<close>.\<close>

definition uuid_hex :: "string \<Rightarrow> string" where
  "uuid_hex u = filter (\<lambda>c. c \<noteq> CHR ''-'') u"

definition sse_open ::
  "world \<Rightarrow> auth_deps \<Rightarrow> string option \<Rightarrow> sse_sessions \<Rightarrow> gw \<Rightarrow> (string \<times> string) res \<times> sse_sessions \<times> gw" where
  "sse_open w a header ss g =
     (case authenticate w a header g of
        (Inl e, g) \<Rightarrow> (Inl e, ss, g)
      | (Inr ctx, g) \<Rightarrow>
          (case new_uuid w g of (u, g) \<Rightarrow>
             (let sid = uuid_hex u
              in (Inr (sid, sse_text ''endpoint'' (''/mcp/sse/messages?session_id='' @ sid)),
                  AList.update sid \<lparr>ss_ctx = ctx, ss_queue = [], ss_waiting = []\<rparr> ss, g))))"

text \<open>\<open>queue.put\<close>: at once when there is room, else the sender waits its turn.\<close>

definition push :: "string \<Rightarrow> sse_session \<Rightarrow> sse_session" where
  "push m x =
     (if length (ss_queue x) < queue_size then x\<lparr>ss_queue := ss_queue x @ [m]\<rparr>
      else x\<lparr>ss_waiting := ss_waiting x @ [m]\<rparr>)"

text \<open>
  A message posted to a session is handled with the identity that opened the session. The reply is
  sent once the answer is in the queue.
\<close>

definition sse_post ::
  "world \<Rightarrow> settings \<Rightarrow> dispatchers \<Rightarrow> string option \<Rightarrow> string \<Rightarrow> sse_sessions \<Rightarrow> gw \<Rightarrow> reply \<times> sse_sessions \<times> gw" where
  "sse_post w s ds session_id body ss g =
     (let sid = text_or session_id []
      in case map_of ss sid of
           None \<Rightarrow> (JsonReply 404 (jsonrpc_error JNull INTERNAL_ERROR ''unknown session'' None), ss, g)
         | Some session \<Rightarrow>
             (case request_json body of
                Inl e \<Rightarrow> (invalid_json, ss, g)
              | Inr msg \<Rightarrow>
                  (case handle w s ds msg (ss_ctx session) g of
                     (Inl e, g) \<Rightarrow> (error_reply e, ss, g)
                   | (Inr None, g) \<Rightarrow> (EmptyReply 202, ss, g)
                   | (Inr (Some resp), g) \<Rightarrow>
                       (EmptyReply 202, AList.update sid (push (json_dumps False resp) session) ss, g))))"

text \<open>\<open>queue.get\<close>: the oldest message; the sender that waited longest takes the place it leaves.\<close>

definition pull :: "sse_session \<Rightarrow> (string \<times> sse_session) option" where
  "pull x =
     (case ss_queue x of
        [] \<Rightarrow> None
      | m # q \<Rightarrow> Some (m, x\<lparr>ss_queue := q @ take 1 (ss_waiting x), ss_waiting := drop 1 (ss_waiting x)\<rparr>))"

definition sse_next :: "string \<Rightarrow> sse_sessions \<Rightarrow> string option \<times> sse_sessions" where
  "sse_next sid ss =
     (case map_of ss sid of
        None \<Rightarrow> (None, ss)
      | Some x \<Rightarrow>
          (case pull x of
             None \<Rightarrow> (None, ss)
           | Some (m, x') \<Rightarrow> (Some (sse_text ''message'' m), AList.update sid x' ss)))"

definition sse_close :: "string \<Rightarrow> sse_sessions \<Rightarrow> sse_sessions" where
  "sse_close sid ss = AList.delete sid ss"

section \<open>What a client of a queue relies on\<close>

text \<open>Reading up to \<open>n\<close> messages.\<close>

fun drain :: "('q \<Rightarrow> ('m \<times> 'q) option) \<Rightarrow> nat \<Rightarrow> 'q \<Rightarrow> 'm list \<times> 'q" where
  "drain get 0 q = ([], q)"
| "drain get (Suc n) q =
     (case get q of None \<Rightarrow> ([], q) | Some (m, q') \<Rightarrow> (case drain get n q' of (ms, q'') \<Rightarrow> (m # ms, q'')))"

lemma drain_Suc:
  "fst (drain get (Suc n) q) = (case get q of None \<Rightarrow> [] | Some (m, q') \<Rightarrow> m # fst (drain get n q'))"
  by (simp split: option.split prod.split)

declare drain.simps(2) [simp del]

text \<open>A mailbox loses nothing and keeps the order: it behaves like the list of its contents.\<close>

locale mailbox =
  fixes put :: "'m \<Rightarrow> 'q \<Rightarrow> 'q"
    and get :: "'q \<Rightarrow> ('m \<times> 'q) option"
    and contents :: "'q \<Rightarrow> 'm list"
    and ok :: "'q \<Rightarrow> bool"
  assumes put_contents: "ok q \<Longrightarrow> contents (put m q) = contents q @ [m]"
    and put_ok: "ok q \<Longrightarrow> ok (put m q)"
    and get_None: "ok q \<Longrightarrow> get q = None \<longleftrightarrow> contents q = []"
    and get_Some: "ok q \<Longrightarrow> get q = Some (m, q') \<Longrightarrow> contents q = m # contents q'"
    and get_ok: "ok q \<Longrightarrow> get q = Some (m, q') \<Longrightarrow> ok q'"
begin

lemma drain_contents: "ok q \<Longrightarrow> fst (drain get n q) = take n (contents q)"
proof (induction n arbitrary: q)
  case (Suc n)
  show ?case
  proof (cases "get q")
    case None
    moreover from this have "contents q = []" using get_None [OF Suc.prems] by simp
    ultimately show ?thesis by (simp add: drain_Suc)
  next
    case (Some mq)
    then obtain m q' where g: "get q = Some (m, q')" by (cases mq) auto
    with Suc.IH [OF get_ok [OF Suc.prems g]] get_Some [OF Suc.prems g] show ?thesis
      by (simp add: drain_Suc)
  qed
qed simp

lemma puts_contents: "ok q \<Longrightarrow> contents (fold put ms q) = contents q @ ms \<and> ok (fold put ms q)"
  by (induction ms arbitrary: q) (simp_all add: put_contents put_ok)

text \<open>A message put in is read after those before it.\<close>

lemma delivered: "ok q \<Longrightarrow> fst (drain get (Suc (length (contents q))) (put m q)) = contents q @ [m]"
  by (simp add: drain_contents put_contents put_ok)

end

definition pending :: "sse_session \<Rightarrow> string list" where
  "pending x = ss_queue x @ ss_waiting x"

definition wf_session :: "sse_session \<Rightarrow> bool" where
  "wf_session x \<longleftrightarrow>
     length (ss_queue x) \<le> queue_size \<and> (ss_waiting x \<noteq> [] \<longrightarrow> length (ss_queue x) = queue_size)"

lemma queue_size_pos [simp]: "0 < queue_size" "queue_size \<noteq> 0"
  by (simp_all add: queue_size_def)

lemma pull_Some:
  assumes "wf_session x" and "pull x = Some (m, x')"
  shows "pending x = m # pending x' \<and> wf_session x' \<and> ss_ctx x' = ss_ctx x"
proof -
  obtain q where q: "ss_queue x = m # q"
    and x': "x' = x\<lparr>ss_queue := q @ take 1 (ss_waiting x), ss_waiting := drop 1 (ss_waiting x)\<rparr>"
    using assms(2) by (auto simp: pull_def split: list.splits)
  show ?thesis
    using assms(1) unfolding x' by (cases "ss_waiting x") (auto simp: pending_def wf_session_def q)
qed

interpretation session: mailbox push pull pending wf_session
proof
  show "pending (push m x) = pending x @ [m]" if "wf_session x" for x m
    using that by (auto simp: pending_def push_def wf_session_def)
  show "wf_session (push m x)" if "wf_session x" for x m
    using that by (auto simp: push_def wf_session_def)
  show "pull x = None \<longleftrightarrow> pending x = []" if "wf_session x" for x
    using that by (auto simp: pull_def pending_def wf_session_def split: list.splits)
qed (use pull_Some in blast)+

section \<open>Properties\<close>

text \<open>Reading a session through its stream.\<close>

fun sse_read :: "nat \<Rightarrow> string \<Rightarrow> sse_sessions \<Rightarrow> string list \<times> sse_sessions" where
  "sse_read 0 sid ss = ([], ss)"
| "sse_read (Suc n) sid ss =
     (case sse_next sid ss of
        (None, ss) \<Rightarrow> ([], ss)
      | (Some e, ss) \<Rightarrow> (case sse_read n sid ss of (es, ss) \<Rightarrow> (e # es, ss)))"

lemma sse_read_Suc:
  "fst (sse_read (Suc n) sid ss) =
     (case sse_next sid ss of (None, ss) \<Rightarrow> [] | (Some e, ss) \<Rightarrow> e # fst (sse_read n sid ss))"
  by (simp split: option.split prod.split)

declare sse_read.simps(2) [simp del]

lemma sse_read_drain:
  "map_of ss sid = Some x \<Longrightarrow> fst (sse_read n sid ss) = map (sse_text ''message'') (fst (drain pull n x))"
proof (induction n arbitrary: ss x)
  case (Suc n)
  show ?case
  proof (cases "pull x")
    case None
    with Suc.prems show ?thesis by (simp add: sse_next_def sse_read_Suc drain_Suc)
  next
    case (Some mx)
    then obtain m x' where p: "pull x = Some (m, x')" by (cases mx) auto
    have "map_of (AList.update sid x' ss) sid = Some x'" by (simp add: update_conv')
    from Suc.IH [OF this] show ?thesis
      using Suc.prems p by (simp add: sse_next_def sse_read_Suc drain_Suc)
  qed
qed simp

text \<open>
  C33: a response posted to a session reaches its client: it is accepted at once, and whatever is
  pending, reading once more than there are pending messages yields all of them in order and then
  this response, even when the queue of 64 was full.
\<close>

theorem sse_response_delivered:
  assumes "map_of ss sid = Some x" and "sid \<noteq> []" and "wf_session x" and "request_json body = Inr msg"
    and "handle w s ds msg (ss_ctx x) g = (Inr (Some resp), g1)"
    and "sse_post w s ds (Some sid) body ss g = (rep, ss', g')"
  shows "rep = EmptyReply 202 \<and> g' = g1 \<and>
    fst (sse_read (Suc (length (pending x))) sid ss') =
      map (sse_text ''message'') (pending x) @ [sse_event ''message'' resp]"
proof -
  have post: "rep = EmptyReply 202" "g' = g1" "ss' = AList.update sid (push (json_dumps False resp) x) ss"
    using assms by (simp_all add: sse_post_def text_or_def some_text_def Let_def)
  then have "map_of ss' sid = Some (push (json_dumps False resp) x)" by (simp add: update_conv')
  from sse_read_drain [OF this] session.delivered [OF assms(3)] post(1,2) show ?thesis
    by (simp add: sse_event_def)
qed

definition ping_body :: string where
  "ping_body = ''{\"jsonrpc\": \"2.0\", \"id\": 1, \"method\": \"ping\"}''"

definition full_session :: sse_session where
  "full_session = \<lparr>ss_ctx = sample_ctx, ss_queue = replicate queue_size ''old'', ss_waiting = [''late'']\<rparr>"

lemma sse_response_delivered_witness:
  "fst (sse_read 66 ''s1'' (fst (snd (sse_post sample_world default_settings Map.empty (Some ''s1'') ping_body
      [(''s1'', full_session)] sample_gw)))) =
   replicate 64 (sse_text ''message'' ''old'') @ [sse_text ''message'' ''late'',
     sse_event ''message'' (jsonrpc_result (JInt 1) (JObj []))]"
proof -
  let ?msg = "JObj [(''jsonrpc'', JStr ''2.0''), (''id'', JInt 1), (''method'', JStr ''ping'')]"
  have wf: "wf_session full_session" by (simp add: wf_session_def full_session_def)
  have body: "request_json ping_body = Inr ?msg" by code_simp
  have hnd: "handle sample_world default_settings Map.empty ?msg (ss_ctx full_session) sample_gw =
      (Inr (Some (jsonrpc_result (JInt 1) (JObj []))), sample_gw)"
    by (simp add: handle_def jget_def call_method_def)
  have len: "Suc (length (pending full_session)) = 66"
    by (simp add: pending_def full_session_def queue_size_def)
  have old: "map (sse_text ''message'') (pending full_session) =
      replicate 64 (sse_text ''message'' ''old'') @ [sse_text ''message'' ''late'']"
    by (simp add: pending_def full_session_def queue_size_def map_replicate)
  obtain rep ss' g' where post: "sse_post sample_world default_settings Map.empty (Some ''s1'') ping_body
      [(''s1'', full_session)] sample_gw = (rep, ss', g')"
    by (metis prod_cases3)
  show ?thesis
    using sse_response_delivered [OF _ _ wf body hnd post] unfolding len old by (simp add: post)
qed

text \<open>The first message of a batch, and the rest.\<close>

lemma batch_Cons_cases:
  obtains (raised) e where "handle w s ds m ctx g = (Inl e, g)" "handle_batch w s ds ctx (m # msgs) g = (Inl e, g)"
      "crashes m"
  | (went_on) a g1 where "handle w s ds m ctx g = (Inr a, g1)" "\<not> crashes m" "a = None \<longleftrightarrow> silent m"
      "\<And>x. a = Some x \<Longrightarrow> response_id x = request_id m"
      "\<And>rest. handle_batch w s ds ctx (m # rest) g =
         (case handle_batch w s ds ctx rest g1 of
            (Inl e, g') \<Rightarrow> (Inl e, g')
          | (Inr rs, g') \<Rightarrow> (Inr (case a of None \<Rightarrow> rs | Some x \<Rightarrow> x # rs), g'))"
proof (cases "handle w s ds m ctx g")
  case h: (Pair r g1)
  note ans = handle_answers_facts [OF h]
  show thesis
  proof (cases r)
    case (Inl e)
    moreover from this have "g1 = g" using handle_raises h by blast
    ultimately show thesis using h ans by (intro raised [of e]) simp_all
  next
    case (Inr a)
    with h ans show thesis
      by (intro went_on [of a g1]) (auto simp: andThen_def)
  qed
qed

lemma batch_ids:
  "fst (handle_batch w s ds ctx msgs g) = r \<Longrightarrow> (isl r \<longleftrightarrow> (\<exists>m \<in> set msgs. crashes m)) \<and>
    (\<forall>as. r = Inr as \<longrightarrow> map response_id as = map request_id (filter (\<lambda>m. \<not> silent m) msgs))"
proof (induction msgs arbitrary: g r)
  case (Cons m msgs)
  show ?case
  proof (cases rule: batch_Cons_cases [of w s ds m ctx g msgs])
    case (raised e)
    then show ?thesis using Cons.prems by auto
  next
    case (went_on a g1)
    obtain r2 g2 where b: "handle_batch w s ds ctx msgs g1 = (r2, g2)" by fastforce
    from Cons.IH [of g1 r2] b have IH: "isl r2 \<longleftrightarrow> (\<exists>m \<in> set msgs. crashes m)"
      "\<And>as. r2 = Inr as \<Longrightarrow> map response_id as = map request_id (filter (\<lambda>m. \<not> silent m) msgs)"
      by simp_all
    show ?thesis
    proof (cases r2)
      case (Inl e)
      with went_on(5) b Cons.prems have "r = Inl e" by simp
      with IH(1) Inl show ?thesis by simp
    next
      case (Inr rs)
      with went_on(5) b Cons.prems have "r = Inr (case a of None \<Rightarrow> rs | Some x \<Rightarrow> x # rs)" by simp
      with IH Inr went_on(2-4) show ?thesis by (cases a) auto
    qed
  qed
qed simp

lemma batch_raises:
  assumes "crashes m" and "\<forall>b \<in> set before. \<not> crashes b"
  shows "snd (handle_batch w s ds ctx (before @ m # after) g) = snd (handle_batch w s ds ctx before g)"
  using assms(2)
proof (induction before arbitrary: g)
  case Nil
  show ?case
    by (cases rule: batch_Cons_cases [of w s ds m ctx g after]) (use assms(1) in auto)
next
  case (Cons b before)
  show ?case
  proof (cases rule: batch_Cons_cases [of w s ds b ctx g before])
    case (raised e)
    with Cons.prems show ?thesis by simp
  next
    case (went_on a g1)
    from Cons have "snd (handle_batch w s ds ctx (before @ m # after) g1) = snd (handle_batch w s ds ctx before g1)" by simp
    moreover have "snd (handle_batch w s ds ctx (b # rest) g) = snd (handle_batch w s ds ctx rest g1)" for rest
      unfolding went_on(5) by (simp split: prod.split sum.split)
    ultimately show ?thesis by simp
  qed
qed

text \<open>
  C35: a batch is answered by one response for each message that is due one, in the order of the
  messages and with their ids. It fails as a whole exactly when it holds a message the handler
  raises on, and then the answers of the messages before it are lost, with all they did.
\<close>

theorem batch_responses:
  assumes "handle_batch w s ds ctx msgs g = (r, g')"
  shows "(isl r \<longleftrightarrow> (\<exists>m \<in> set msgs. crashes m)) \<and>
    (\<forall>as. r = Inr as \<longrightarrow> map response_id as = map request_id (filter (\<lambda>m. \<not> silent m) msgs)) \<and>
    (\<forall>before m after. msgs = before @ m # after \<and> crashes m \<and> (\<forall>b \<in> set before. \<not> crashes b) \<longrightarrow>
       g' = snd (handle_batch w s ds ctx before g))"
  using batch_ids [of w s ds ctx msgs g r] batch_raises [of _ _ w s ds ctx _ g] assms
  by (simp add: prod_eq_iff) blast

lemma batch_responses_witness:
  "fst (handle_batch echo_env default_settings (build_dispatcher_registry echo_env default_settings) sample_ctx
     [call_msg ''echo'', JObj [(''jsonrpc'', JStr ''2.0''), (''method'', JInt 1)]] sample_gw) =
   Inl (no_attr (JInt 1) ''startswith'') \<and>
   snd (handle_batch echo_env default_settings (build_dispatcher_registry echo_env default_settings) sample_ctx
     [call_msg ''echo'', JObj [(''jsonrpc'', JStr ''2.0''), (''method'', JInt 1)]] sample_gw) =
   snd (handle_batch echo_env default_settings (build_dispatcher_registry echo_env default_settings) sample_ctx
     [call_msg ''echo''] sample_gw)"
proof -
  let ?bad = "JObj [(''jsonrpc'', JStr ''2.0''), (''method'', JInt 1)]"
  let ?ds = "build_dispatcher_registry echo_env default_settings"
  have "crashes ?bad" by (simp add: crashes_def envelope_def jget_def)
  moreover have "\<not> crashes (call_msg ''echo'')" by (simp add: crashes_def envelope_def call_msg_def jget_def)
  moreover have "[call_msg ''echo'', ?bad] = [call_msg ''echo''] @ ?bad # []" by simp
  ultimately have "snd (handle_batch echo_env default_settings ?ds sample_ctx [call_msg ''echo'', ?bad] sample_gw) =
      snd (handle_batch echo_env default_settings ?ds sample_ctx [call_msg ''echo''] sample_gw)"
    using batch_responses [OF surjective_pairing, of echo_env default_settings ?ds sample_ctx "[call_msg ''echo'', ?bad]" sample_gw]
    by (metis list.set(1,2) singletonD)
  moreover have "fst (handle_batch echo_env default_settings ?ds sample_ctx [call_msg ''echo'', ?bad] sample_gw) =
      Inl (no_attr (JInt 1) ''startswith'')"
    by code_simp
  ultimately show ?thesis by blast
qed

text \<open>
  when authentication fails, POST /mcp answers with that failure (401 for a missing or invalid
  token) and has done nothing else: no message of the body is looked at, and no table, snapshot or
  remote session changes. Without a bearer token nothing happens at all.
\<close>

lemma mcp_post_needs_identity:
  assumes "fst (authenticate w a header g) = Inl e"
  shows "mcp_post w s ds a header body g = (error_reply e, snd (authenticate w a header g)) \<and>
    outside_only g (snd (mcp_post w s ds a header body g)) \<and>
    (extract_bearer header = None \<longrightarrow> mcp_post w s ds a header body g =
       (Challenge (jsonrpc_error JNull (-32001) ''missing Bearer token'' None), g))"
proof -
  have "mcp_post w s ds a header body g = (error_reply e, snd (authenticate w a header g))"
    using assms by (cases "authenticate w a header g") (simp add: mcp_post_def)
  with assms authenticate_frame [of g w a header] show ?thesis
    by (auto simp: authenticate_def error_reply_def auth_error_handler_def text_or_default_def)
qed

end
