(* ===== verification/AdminTools.thy ===== *)
theory AdminTools
  imports Transport "HOL-Library.Product_Lexorder"
begin

text \<open>
  \<open>app/admin/tools.py\<close> with the parts of \<open>app/admin/schemas.py\<close> and \<open>app/admin/deps.py\<close> it
  uses: listing, upserting, patching and deleting tools. A request is modelled after its parsing by
  pydantic; \<open>valid_upsert\<close> and \<open>valid_patch\<close> are the schema. Dates in a reply are left as numbers.
  Every change is one transaction: it takes effect when COMMIT succeeds. The \<open>updated_at\<close> trigger,
  the check constraints and the column widths are those of the tables.
\<close>

section \<open>The guard of the admin routes\<close>

definition admin_guard :: "world \<Rightarrow> auth_deps \<Rightarrow> string option \<Rightarrow> gw \<Rightarrow> auth_ctx res \<times> gw" where
  "admin_guard w a header g =
     andThen (authenticate w a header g) (\<lambda>ctx g. (require_role ''cloud_admin'' ctx, g))"

text \<open>A route: the guard, the schema, then the function.\<close>

definition admin_route ::
  "world \<Rightarrow> auth_deps \<Rightarrow> string option \<Rightarrow> bool \<Rightarrow> (gw \<Rightarrow> reply res \<times> gw) \<Rightarrow> gw \<Rightarrow> reply \<times> gw" where
  "admin_route w a header valid f g =
     (case admin_guard w a header g of
        (Inl e, g) \<Rightarrow> (error_reply e, g)
      | (Inr ctx, g) \<Rightarrow>
          (if \<not> valid then (Unprocessable, g)
           else (case f g of (Inl e, g) \<Rightarrow> (error_reply e, g) | (Inr r, g) \<Rightarrow> (r, g))))"

section \<open>Schemas\<close>

definition AuthMode :: "string list" where
  "AuthMode = [''service_key'', ''user_passthrough'']"

definition DispatcherName :: "string list" where
  "DispatcherName = [''http_adapter'', ''mcp_proxy'', ''daytona_sandbox'']"

definition text_within :: "nat \<Rightarrow> nat \<Rightarrow> string \<Rightarrow> bool" where
  "text_within lo hi s \<longleftrightarrow> lo \<le> cp_length s \<and> cp_length s \<le> hi"

record tool_upsert =
  up_name :: string
  up_display_name :: string
  up_description :: string
  up_category :: "string option"
  up_dispatcher :: string
  up_config :: "json dict"
  up_auth_mode :: string
  up_secret_env_name :: "string option"
  up_auth_header :: "string option"
  up_auth_prefix :: string
  up_input_schema :: "json dict"
  up_output_schema :: "json dict option"
  up_enabled :: bool

definition valid_upsert :: "tool_upsert \<Rightarrow> bool" where
  "valid_upsert p \<longleftrightarrow>
     text_within 1 128 (up_name p) \<and> text_within 1 255 (up_display_name p) \<and> 1 \<le> cp_length (up_description p) \<and>
     fits_text 64 (up_category p) \<and> up_dispatcher p \<in> set DispatcherName \<and> up_auth_mode p \<in> set AuthMode \<and>
     fits_text 128 (up_secret_env_name p) \<and> fits_text 128 (up_auth_header p) \<and> cp_length (up_auth_prefix p) \<le> 32"

text \<open>
  A patch: a field that is not sent is \<open>None\<close>, one that is sent as null is \<open>Some None\<close>.
\<close>

record tool_patch =
  tp_display_name :: "string option option"
  tp_description :: "string option option"
  tp_category :: "string option option"
  tp_dispatcher :: "string option option"
  tp_config :: "json dict option option"
  tp_auth_mode :: "string option option"
  tp_secret_env_name :: "string option option"
  tp_auth_header :: "string option option"
  tp_auth_prefix :: "string option option"
  tp_input_schema :: "json dict option option"
  tp_output_schema :: "json dict option option"
  tp_enabled :: "bool option option"

definition sent_within :: "nat \<Rightarrow> nat \<Rightarrow> string option option \<Rightarrow> bool" where
  "sent_within lo hi v = (case v of Some (Some s) \<Rightarrow> text_within lo hi s | _ \<Rightarrow> True)"

definition sent_among :: "string list \<Rightarrow> string option option \<Rightarrow> bool" where
  "sent_among xs v = (case v of Some (Some s) \<Rightarrow> s \<in> set xs | _ \<Rightarrow> True)"

definition valid_patch :: "tool_patch \<Rightarrow> bool" where
  "valid_patch p \<longleftrightarrow>
     sent_within 1 255 (tp_display_name p) \<and>
     (case tp_description p of Some (Some s) \<Rightarrow> 1 \<le> cp_length s | _ \<Rightarrow> True) \<and>
     sent_within 0 64 (tp_category p) \<and> sent_among DispatcherName (tp_dispatcher p) \<and>
     sent_among AuthMode (tp_auth_mode p)"

definition nothing_sent :: "tool_patch \<Rightarrow> bool" where
  "nothing_sent p \<longleftrightarrow>
     tp_display_name p = None \<and> tp_description p = None \<and> tp_category p = None \<and> tp_dispatcher p = None \<and>
     tp_config p = None \<and> tp_auth_mode p = None \<and> tp_secret_env_name p = None \<and> tp_auth_header p = None \<and>
     tp_auth_prefix p = None \<and> tp_input_schema p = None \<and> tp_output_schema p = None \<and> tp_enabled p = None"

text \<open>\<open>ToolOut.model_validate\<close>: refuses a row whose JSON columns hold null.\<close>

definition opt_text :: "string option \<Rightarrow> json" where
  "opt_text o' = (case o' of None \<Rightarrow> JNull | Some s \<Rightarrow> JStr s)"

definition opt_obj :: "json dict option \<Rightarrow> json" where
  "opt_obj o' = (case o' of None \<Rightarrow> JNull | Some d \<Rightarrow> JObj d)"

definition tool_out :: "tool_row \<Rightarrow> json res" where
  "tool_out t =
     (if t_dispatcher t \<notin> set DispatcherName \<or> t_auth_mode t \<notin> set AuthMode \<or>
         t_config t = None \<or> t_input_schema t = None
      then Inl (PyError ''ValidationError'' ''ToolOut'')
      else Inr (JObj
        [(''name'', JStr (t_name t)), (''display_name'', JStr (t_display_name t)),
         (''description'', JStr (t_description t)), (''category'', opt_text (t_category t)),
         (''dispatcher'', JStr (t_dispatcher t)), (''config'', opt_obj (t_config t)),
         (''auth_mode'', JStr (t_auth_mode t)), (''secret_env_name'', opt_text (t_secret_env_name t)),
         (''auth_header'', opt_text (t_auth_header t)), (''auth_prefix'', JStr (t_auth_prefix t)),
         (''input_schema'', opt_obj (t_input_schema t)), (''output_schema'', opt_obj (t_output_schema t)),
         (''enabled'', JBool (t_enabled t)), (''version'', JInt (t_version t)),
         (''created_at'', JInt (t_created_at t)), (''updated_at'', JInt (t_updated_at t))]))"

section \<open>The tools table\<close>

text \<open>What the columns and check constraints admit.\<close>

definition row_fits :: "tool_row \<Rightarrow> bool" where
  "row_fits t \<longleftrightarrow>
     cp_length (t_name t) \<le> 128 \<and> cp_length (t_display_name t) \<le> 255 \<and> fits_text 64 (t_category t) \<and>
     t_dispatcher t \<in> set DispatcherName \<and> t_auth_mode t \<in> set AuthMode \<and>
     fits_text 128 (t_secret_env_name t) \<and> fits_text 128 (t_auth_header t) \<and> cp_length (t_auth_prefix t) \<le> 32 \<and>
     fits_int32 (Some (t_version t))"

definition find_tool :: "db \<Rightarrow> string \<Rightarrow> tool_row option" where
  "find_tool d name = find (\<lambda>t. t_name t = name) (db_tools d)"

definition replace_tool :: "tool_row \<Rightarrow> db \<Rightarrow> db" where
  "replace_tool row d = d\<lparr>db_tools := map (\<lambda>t. if t_id t = t_id row then row else t) (db_tools d)\<rparr>"

definition refused_by_table :: exn where
  "refused_by_table = PyError ''DBAPIError'' ''value does not fit its column''"

definition null_in_column :: "string \<Rightarrow> exn" where
  "null_in_column c = PyError ''IntegrityError'' (''null value in column '' @ c)"

definition tool_missing :: "string \<Rightarrow> exn" where
  "tool_missing name = HTTPException 404 (''tool '' @ quoted name @ '' not found'')"

text \<open>\<open>_refresh_registry\<close>: whatever the refresh raises is dropped.\<close>

definition refresh_registry :: "world \<Rightarrow> gw \<Rightarrow> gw" where
  "refresh_registry w g = snd (force_refresh w g)"

text \<open>COMMIT, with the tables as the transaction leaves them.\<close>

definition commit :: "world \<Rightarrow> db \<Rightarrow> gw \<Rightarrow> unit res \<times> gw" where
  "commit w d g = andThen (db_call w ''COMMIT'' g) (\<lambda>_ g. (Inr (), g\<lparr>g_db := d\<rparr>))"

section \<open>GET /admin/tools\<close>

text \<open>Order: category, those without one last, then name.\<close>

definition tool_order :: "world \<Rightarrow> tool_row \<Rightarrow> bool \<times> string \<times> string" where
  "tool_order w t = (t_category t = None, w_collate w (text_or (t_category t) []), w_collate w (t_name t))"

definition list_tools :: "world \<Rightarrow> bool \<Rightarrow> gw \<Rightarrow> reply res \<times> gw" where
  "list_tools w include_disabled g =
     andThen (db_call w ''SELECT tools'' g) (\<lambda>_ g.
       (bindE (mapE tool_out (filter (\<lambda>t. include_disabled \<or> t_enabled t) (sort_key (tool_order w) (db_tools (g_db g)))))
          (\<lambda>ts. Inr (JsonReply 200 (JObj [(''tools'', JList ts)]))), g))"

section \<open>POST /admin/tools\<close>

definition inserted :: "int \<Rightarrow> int \<Rightarrow> tool_upsert \<Rightarrow> tool_row" where
  "inserted tid now p =
     \<lparr>t_id = tid, t_name = up_name p, t_display_name = up_display_name p, t_description = up_description p,
      t_category = up_category p, t_enabled = up_enabled p, t_dispatcher = up_dispatcher p,
      t_config = Some (up_config p), t_auth_mode = up_auth_mode p, t_secret_env_name = up_secret_env_name p,
      t_auth_header = up_auth_header p, t_auth_prefix = up_auth_prefix p,
      t_input_schema = Some (up_input_schema p), t_output_schema = up_output_schema p, t_created_at = now,
      t_updated_at = now, t_created_by = None, t_version = 1\<rparr>"

definition overwritten :: "int \<Rightarrow> tool_upsert \<Rightarrow> tool_row \<Rightarrow> tool_row" where
  "overwritten now p t =
     (inserted (t_id t) now p)
       \<lparr>t_name := t_name t, t_created_at := t_created_at t, t_created_by := t_created_by t,
        t_version := t_version t + 1\<rparr>"

text \<open>INSERT ON CONFLICT (name) DO UPDATE; the id sequence moves on in both cases.\<close>

definition upsert_row :: "int \<Rightarrow> tool_upsert \<Rightarrow> db \<Rightarrow> tool_row \<times> db" where
  "upsert_row now p d =
     (let d' = d\<lparr>db_tool_seq := db_tool_seq d + 1\<rparr>
      in case find_tool d (up_name p) of
           None \<Rightarrow> (let row = inserted (db_tool_seq d) now p in (row, d'\<lparr>db_tools := db_tools d @ [row]\<rparr>))
         | Some t \<Rightarrow> (let row = overwritten now p t in (row, replace_tool row d')))"

definition upsert_tool :: "world \<Rightarrow> tool_upsert \<Rightarrow> gw \<Rightarrow> reply res \<times> gw" where
  "upsert_tool w p g =
     (case read_now w g of (now, g) \<Rightarrow>
       andThen (db_call w ''INSERT tools'' g) (\<lambda>_ g.
         case upsert_row now p (g_db g) of (row, d) \<Rightarrow>
           (if \<not> row_fits row then (Inl refused_by_table, g)
            else andThen (commit w d g) (\<lambda>_ g.
              (bindE (tool_out row) (\<lambda>o'. Inr (JsonReply 200 o')), refresh_registry w g)))))"

section \<open>PATCH /admin/tools/{name}\<close>

definition set_required :: "string \<Rightarrow> 'v option option \<Rightarrow> 'v \<Rightarrow> 'v res" where
  "set_required col v old =
     (case v of None \<Rightarrow> Inr old | Some None \<Rightarrow> Inl (null_in_column col) | Some (Some x) \<Rightarrow> Inr x)"

definition set_nullable :: "'v option option \<Rightarrow> 'v option \<Rightarrow> 'v option" where
  "set_nullable v old = (case v of None \<Rightarrow> old | Some x \<Rightarrow> x)"

text \<open>\<open>(row.version or 1) + 1\<close>.\<close>

definition next_version :: "tool_row \<Rightarrow> int" where
  "next_version t = (if t_version t = 0 then 1 else t_version t) + 1"

definition patched :: "int \<Rightarrow> tool_patch \<Rightarrow> tool_row \<Rightarrow> tool_row res" where
  "patched now p t =
     bindE (set_required ''display_name'' (tp_display_name p) (t_display_name t)) (\<lambda>display.
     bindE (set_required ''description'' (tp_description p) (t_description t)) (\<lambda>description.
     bindE (set_required ''dispatcher'' (tp_dispatcher p) (t_dispatcher t)) (\<lambda>dispatcher.
     bindE (set_required ''auth_mode'' (tp_auth_mode p) (t_auth_mode t)) (\<lambda>mode.
     bindE (set_required ''auth_prefix'' (tp_auth_prefix p) (t_auth_prefix t)) (\<lambda>prefix.
     bindE (set_required ''enabled'' (tp_enabled p) (t_enabled t)) (\<lambda>enabled.
       Inr (t\<lparr>t_display_name := display, t_description := description,
              t_category := set_nullable (tp_category p) (t_category t), t_dispatcher := dispatcher,
              t_config := set_nullable (tp_config p) (t_config t), t_auth_mode := mode,
              t_secret_env_name := set_nullable (tp_secret_env_name p) (t_secret_env_name t),
              t_auth_header := set_nullable (tp_auth_header p) (t_auth_header t), t_auth_prefix := prefix,
              t_input_schema := set_nullable (tp_input_schema p) (t_input_schema t),
              t_output_schema := set_nullable (tp_output_schema p) (t_output_schema t),
              t_enabled := enabled, t_version := next_version t, t_updated_at := now\<rparr>)))))))"

definition patch_tool :: "world \<Rightarrow> string \<Rightarrow> tool_patch \<Rightarrow> gw \<Rightarrow> reply res \<times> gw" where
  "patch_tool w name p g =
     andThen (db_call w ''SELECT tools'' g) (\<lambda>_ g.
       case find_tool (g_db g) name of
         None \<Rightarrow> (Inl (tool_missing name), g)
       | Some t \<Rightarrow>
           (if nothing_sent p then (Inl (HTTPException 400 ''no fields to update''), g)
            else (case read_now w g of (now, g) \<Rightarrow>
              (case patched now p t of
                 Inl e \<Rightarrow> (Inl e, g)
               | Inr row \<Rightarrow>
                   (if \<not> row_fits row then (Inl refused_by_table, g)
                    else andThen (commit w (replace_tool row (g_db g)) g) (\<lambda>_ g.
                         andThen (db_call w ''SELECT tools'' g) (\<lambda>_ g.
                           (bindE (tool_out row) (\<lambda>o'. Inr (JsonReply 200 o')), refresh_registry w g)))))))) "

section \<open>DELETE /admin/tools/{name}\<close>

text \<open>A deleted row takes its grants with it.\<close>

definition remove_tool :: "int \<Rightarrow> db \<Rightarrow> db" where
  "remove_tool tid d =
     d\<lparr>db_tools := filter (\<lambda>t. t_id t \<noteq> tid) (db_tools d),
       db_role_grants := filter (\<lambda>r. gr_tool r \<noteq> tid) (db_role_grants d),
       db_customer_grants := filter (\<lambda>r. gr_tool r \<noteq> tid) (db_customer_grants d)\<rparr>"

definition disabled :: "int \<Rightarrow> tool_row \<Rightarrow> tool_row" where
  "disabled now t = t\<lparr>t_enabled := False, t_version := next_version t, t_updated_at := now\<rparr>"

definition delete_tool :: "world \<Rightarrow> string \<Rightarrow> bool \<Rightarrow> gw \<Rightarrow> reply res \<times> gw" where
  "delete_tool w name hard g =
     andThen (db_call w ''SELECT tools'' g) (\<lambda>_ g.
       case find_tool (g_db g) name of
         None \<Rightarrow> (Inl (tool_missing name), g)
       | Some t \<Rightarrow>
           (if hard
            then andThen (db_call w ''DELETE tools'' g) (\<lambda>_ g.
                 andThen (commit w (remove_tool (t_id t) (g_db g)) g) (\<lambda>_ g.
                   (Inr (EmptyReply 204), refresh_registry w g)))
            else (case read_now w g of (now, g) \<Rightarrow>
              (if \<not> row_fits (disabled now t) then (Inl refused_by_table, g)
               else andThen (commit w (replace_tool (disabled now t) (g_db g)) g) (\<lambda>_ g.
                 (Inr (EmptyReply 204), refresh_registry w g))))))"

end
