(* ===== verification/AdminGrants.thy ===== *)
theory AdminGrants
  imports AdminTools
begin

text \<open>
  \<open>app/admin/grants.py\<close> and \<open>app/admin/customer_grants.py\<close> with their parts of
  \<open>app/admin/schemas.py\<close>: who may use which tool. The two tables are handled alike; \<open>grant_table\<close>
  states what a grant and a revocation mean, for both.
\<close>

section \<open>Schemas\<close>

definition Role :: "string list" where
  "Role = [''cloud_admin'', ''cloud_ops'', ''cloud_finance'', ''cloud_viewer'', ''cloud_sales'']"

definition valid_role_put :: "string \<Rightarrow> string \<Rightarrow> bool" where
  "valid_role_put role tool \<longleftrightarrow> role \<in> set Role \<and> text_within 1 128 tool"

text \<open>\<open>^[A-Za-z0-9_-]{1,32}$\<close>.\<close>

definition code_char :: "char \<Rightarrow> bool" where
  "code_char c =
     (let n = of_char c :: nat
      in (65 \<le> n \<and> n \<le> 90) \<or> (97 \<le> n \<and> n \<le> 122) \<or> (48 \<le> n \<and> n \<le> 57) \<or> c = CHR ''_'' \<or> c = CHR ''-'')"

definition valid_customer_code :: "string \<Rightarrow> bool" where
  "valid_customer_code code \<longleftrightarrow> 1 \<le> length code \<and> length code \<le> 32 \<and> list_all code_char code"

definition valid_customer_put :: "string \<Rightarrow> string \<Rightarrow> bool" where
  "valid_customer_put code tool \<longleftrightarrow> valid_customer_code code \<and> text_within 1 128 tool"

section \<open>Rows\<close>

text \<open>INSERT ON CONFLICT DO NOTHING, and DELETE; \<open>granted_by\<close> is never filled in.\<close>

definition insert_grant :: "int \<Rightarrow> string \<Rightarrow> int \<Rightarrow> grant_row list \<Rightarrow> grant_row list" where
  "insert_grant tid key now rows =
     (if \<exists>r \<in> set rows. gr_tool r = tid \<and> gr_key r = key then rows
      else rows @ [\<lparr>gr_tool = tid, gr_key = key, gr_at = now, gr_by = None\<rparr>])"

definition delete_grant :: "int \<Rightarrow> string \<Rightarrow> grant_row list \<Rightarrow> grant_row list" where
  "delete_grant tid key rows = filter (\<lambda>r. \<not> (gr_tool r = tid \<and> gr_key r = key)) rows"

definition role_rows :: "(grant_row list \<Rightarrow> grant_row list) \<Rightarrow> db \<Rightarrow> db" where
  "role_rows f d = d\<lparr>db_role_grants := f (db_role_grants d)\<rparr>"

definition customer_rows :: "(grant_row list \<Rightarrow> grant_row list) \<Rightarrow> db \<Rightarrow> db" where
  "customer_rows f d = d\<lparr>db_customer_grants := f (db_customer_grants d)\<rparr>"

section \<open>Changing grants\<close>

definition resolve_tool_id :: "world \<Rightarrow> string \<Rightarrow> gw \<Rightarrow> int res \<times> gw" where
  "resolve_tool_id w name g =
     andThen (db_call w ''SELECT tools'' g) (\<lambda>_ g.
       (case find_tool (g_db g) name of None \<Rightarrow> Inl (tool_missing name) | Some t \<Rightarrow> Inr (t_id t), g))"

text \<open>The body the four changing routes share: find the tool, run the statement, commit, refresh.\<close>

definition change_grant ::
  "world \<Rightarrow> string \<Rightarrow> string \<Rightarrow> (int \<Rightarrow> int \<Rightarrow> db \<Rightarrow> db) \<Rightarrow> gw \<Rightarrow> unit res \<times> gw" where
  "change_grant w name what f g =
     andThen (resolve_tool_id w name g) (\<lambda>tid g.
       case read_now w g of (now, g) \<Rightarrow>
         andThen (db_call w what g) (\<lambda>_ g.
         andThen (commit w (f tid now (g_db g)) g) (\<lambda>_ g. (Inr (), refresh_registry w g))))"

text \<open>The answers to a change of a grant, and a pair of the listing of customer grants.\<close>

definition grant_put_out :: "string \<Rightarrow> string \<Rightarrow> bool \<Rightarrow> json" where
  [simp]: "grant_put_out role tool granted_flag =
     JObj [(''role'', JStr role), (''tool_name'', JStr tool), (''granted'', JBool granted_flag)]"

definition customer_grant_put_out :: "string \<Rightarrow> string \<Rightarrow> bool \<Rightarrow> json" where
  [simp]: "customer_grant_put_out code tool granted_flag =
     JObj [(''customer_code'', JStr code), (''tool_name'', JStr tool), (''granted'', JBool granted_flag)]"

definition customer_grant_pair :: "string \<times> string \<Rightarrow> json" where
  [simp]: "customer_grant_pair p = JObj [(''customer_code'', JStr (fst p)), (''tool_name'', JStr (snd p))]"

definition put_grant :: "world \<Rightarrow> string \<Rightarrow> string \<Rightarrow> bool \<Rightarrow> gw \<Rightarrow> reply res \<times> gw" where
  "put_grant w role tool granted_flag g =
     andThen
       (if granted_flag
        then change_grant w tool ''INSERT tool_role_grants'' (\<lambda>tid now. role_rows (insert_grant tid role now)) g
        else change_grant w tool ''DELETE tool_role_grants'' (\<lambda>tid now. role_rows (delete_grant tid role)) g) (\<lambda>_ g.
       (Inr (JsonReply 200 (grant_put_out role tool granted_flag)), g))"

definition delete_role_grant :: "world \<Rightarrow> string \<Rightarrow> string \<Rightarrow> gw \<Rightarrow> reply res \<times> gw" where
  "delete_role_grant w role tool g =
     andThen (change_grant w tool ''DELETE tool_role_grants'' (\<lambda>tid now. role_rows (delete_grant tid role)) g) (\<lambda>_ g.
       (Inr (EmptyReply 204), g))"

definition put_customer_grant :: "world \<Rightarrow> string \<Rightarrow> string \<Rightarrow> bool \<Rightarrow> gw \<Rightarrow> reply res \<times> gw" where
  "put_customer_grant w code tool granted_flag g =
     andThen
       (if granted_flag
        then change_grant w tool ''INSERT tool_customer_grants'' (\<lambda>tid now. customer_rows (insert_grant tid code now)) g
        else change_grant w tool ''DELETE tool_customer_grants'' (\<lambda>tid now. customer_rows (delete_grant tid code)) g) (\<lambda>_ g.
       (Inr (JsonReply 200 (customer_grant_put_out code tool granted_flag)), g))"

definition delete_customer_grant :: "world \<Rightarrow> string \<Rightarrow> string \<Rightarrow> gw \<Rightarrow> reply res \<times> gw" where
  "delete_customer_grant w code tool g =
     andThen (change_grant w tool ''DELETE tool_customer_grants'' (\<lambda>tid now. customer_rows (delete_grant tid code)) g) (\<lambda>_ g.
       (Inr (EmptyReply 204), g))"

section \<open>Listing grants\<close>

text \<open>The join with the tools, in the order of the key and then of the tool's name.\<close>

definition grant_pairs :: "world \<Rightarrow> tool_row list \<Rightarrow> grant_row list \<Rightarrow> (string \<times> string) list" where
  "grant_pairs w tools rows =
     sort_key (\<lambda>(k, n). (w_collate w k, w_collate w n))
       (concat (map (\<lambda>r. map (\<lambda>t. (gr_key r, t_name t)) (filter (\<lambda>t. t_id t = gr_tool r) tools)) rows))"

definition selected_pairs :: "string option \<Rightarrow> string option \<Rightarrow> (string \<times> string) list \<Rightarrow> (string \<times> string) list" where
  "selected_pairs key name =
     filter (\<lambda>(k, n). (some_text key \<longrightarrow> key = Some k) \<and> (some_text name \<longrightarrow> name = Some n))"

text \<open>\<open>GrantPair\<close> admits the five roles only; another one in the table fails the whole request.\<close>

definition grant_pair :: "string \<times> string \<Rightarrow> json res" where
  "grant_pair p =
     (if fst p \<in> set Role then Inr (JObj [(''role'', JStr (fst p)), (''tool_name'', JStr (snd p))])
      else Inl (PyError ''ValidationError'' ''GrantPair''))"

definition list_grants :: "world \<Rightarrow> string option \<Rightarrow> string option \<Rightarrow> gw \<Rightarrow> reply res \<times> gw" where
  "list_grants w role tool g =
     andThen (db_call w ''SELECT tool_role_grants'' g) (\<lambda>_ g.
       (bindE (mapE grant_pair (selected_pairs role tool (grant_pairs w (db_tools (g_db g)) (db_role_grants (g_db g)))))
          (\<lambda>ps. Inr (JsonReply 200 (JObj [(''grants'', JList ps)]))), g))"

definition list_customer_grants :: "world \<Rightarrow> string option \<Rightarrow> string option \<Rightarrow> gw \<Rightarrow> reply res \<times> gw" where
  "list_customer_grants w code tool g =
     andThen (db_call w ''SELECT tool_customer_grants'' g) (\<lambda>_ g.
       (Inr (JsonReply 200 (JObj [(''grants'', JList (map customer_grant_pair
          (selected_pairs code tool (grant_pairs w (db_tools (g_db g)) (db_customer_grants (g_db g))))))])), g))"

section \<open>What a grant table promises\<close>

text \<open>A set of grants with its key: putting adds one, deleting removes one, and nothing else changes.\<close>

locale grant_table =
  fixes put_row :: "int \<Rightarrow> string \<Rightarrow> int \<Rightarrow> 'd \<Rightarrow> 'd"
    and del_row :: "int \<Rightarrow> string \<Rightarrow> 'd \<Rightarrow> 'd"
    and held :: "'d \<Rightarrow> (int \<times> string) set"
    and rest :: "'d \<Rightarrow> 'x"
    and ok :: "'d \<Rightarrow> bool"
  assumes put_held: "held (put_row t k n d) = insert (t, k) (held d)"
    and del_held: "held (del_row t k d) = held d - {(t, k)}"
    and put_rest: "rest (put_row t k n d) = rest d"
    and del_rest: "rest (del_row t k d) = rest d"
    and put_ok: "ok d \<Longrightarrow> ok (put_row t k n d)"
    and del_ok: "ok d \<Longrightarrow> ok (del_row t k d)"
    and put_known: "(t, k) \<in> held d \<Longrightarrow> put_row t k n d = d"
begin

lemma put_twice: "put_row t k m (put_row t k n d) = put_row t k n d"
  by (rule put_known) (simp add: put_held)

lemma revoked: "(t, k) \<notin> held (del_row t k (put_row t k n d))"
  by (simp add: del_held)

lemma others_unchanged: "(t', k') \<noteq> (t, k) \<Longrightarrow>
    ((t', k') \<in> held (put_row t k n d) \<longleftrightarrow> (t', k') \<in> held d) \<and>
    ((t', k') \<in> held (del_row t k d) \<longleftrightarrow> (t', k') \<in> held d)"
  by (auto simp: put_held del_held)

text \<open>The last of a history of changes decides.\<close>

lemma last_change_decides:
  "(t, k) \<in> held (fold (\<lambda>(t, k, on). if on then put_row t k n else del_row t k) ops d) \<longleftrightarrow>
     (case map_of (rev (map (\<lambda>(t, k, on). ((t, k), on)) ops)) (t, k) of None \<Rightarrow> (t, k) \<in> held d | Some on \<Rightarrow> on)"
proof (induction ops arbitrary: d)
  case (Cons op ops)
  obtain t' k' on where op: "op = (t', k', on)" by (cases op) auto
  show ?case
    using Cons.IH [of "if on then put_row t' k' n d else del_row t' k' d"]
    by (auto simp: op map_add_def put_held del_held split: option.splits if_splits)
qed simp

end

text \<open>The rows of a table as a set, and whether their keys are distinct.\<close>

definition grants_of :: "grant_row list \<Rightarrow> (int \<times> string) set" where
  "grants_of rows = (\<lambda>r. (gr_tool r, gr_key r)) ` set rows"

definition keys_distinct :: "grant_row list \<Rightarrow> bool" where
  "keys_distinct rows \<longleftrightarrow> distinct (map (\<lambda>r. (gr_tool r, gr_key r)) rows)"

lemma insert_grant_of: "grants_of (insert_grant t k n rows) = insert (t, k) (grants_of rows)"
  by (auto simp: grants_of_def insert_grant_def image_iff)

lemma delete_grant_of: "grants_of (delete_grant t k rows) = grants_of rows - {(t, k)}"
  by (auto simp: grants_of_def delete_grant_def image_iff)

lemma insert_grant_distinct: "keys_distinct rows \<Longrightarrow> keys_distinct (insert_grant t k n rows)"
  by (auto simp: keys_distinct_def insert_grant_def)

lemma delete_grant_distinct: "keys_distinct rows \<Longrightarrow> keys_distinct (delete_grant t k rows)"
  by (simp add: keys_distinct_def delete_grant_def distinct_map_filter)

lemma insert_grant_known: "(t, k) \<in> grants_of rows \<Longrightarrow> insert_grant t k n rows = rows"
  by (auto simp: grants_of_def insert_grant_def)

interpretation role_grants: grant_table "\<lambda>t k n. role_rows (insert_grant t k n)" "\<lambda>t k. role_rows (delete_grant t k)"
    "\<lambda>d. grants_of (db_role_grants d)" "\<lambda>d. d\<lparr>db_role_grants := []\<rparr>" "\<lambda>d. keys_distinct (db_role_grants d)"
  by unfold_locales (simp_all add: role_rows_def insert_grant_of delete_grant_of insert_grant_distinct
      delete_grant_distinct insert_grant_known)

interpretation customer_grants: grant_table "\<lambda>t k n. customer_rows (insert_grant t k n)" "\<lambda>t k. customer_rows (delete_grant t k)"
    "\<lambda>d. grants_of (db_customer_grants d)" "\<lambda>d. d\<lparr>db_customer_grants := []\<rparr>" "\<lambda>d. keys_distinct (db_customer_grants d)"
  by unfold_locales (simp_all add: customer_rows_def insert_grant_of delete_grant_of insert_grant_distinct
      delete_grant_distinct insert_grant_known)

end
