(* ===== verification/Cursor.thy ===== *)
theory Cursor
  imports PyJsonRound
begin

text \<open>
  The text of an audit cursor (\<open>_encode_cursor\<close>, \<open>_decode_cursor\<close> and \<open>_as_utc\<close> of
  \<open>app/admin/audit.py\<close>): a point of time and a row id as JSON in base64, with what the code uses of
  \<open>base64\<close> and \<open>datetime\<close>. A time is the number of microseconds since 1970 in UTC. \<open>fromisoformat\<close> is
  that of dates with dashes; the compact forms and week dates that Python reads as well are taken for
  errors. Of an error only that there is one is modelled, not its text.
\<close>

section \<open>base64\<close>

definition b64_char :: "nat \<Rightarrow> char" where
  "b64_char v =
     (if v < 26 then char_of (65 + v) else if v < 52 then char_of (71 + v) else if v < 62 then char_of (v - 4)
      else if v = 62 then CHR ''-'' else CHR ''_'')"

text \<open>\<open>urlsafe_b64decode\<close> maps dash and underscore to plus and slash, which are read as well.\<close>

definition b64_val :: "char \<Rightarrow> nat option" where
  "b64_val c =
     (let n = of_char c :: nat
      in if 65 \<le> n \<and> n \<le> 90 then Some (n - 65) else if 97 \<le> n \<and> n \<le> 122 then Some (n - 71)
         else if 48 \<le> n \<and> n \<le> 57 then Some (n + 4)
         else if c = CHR ''-'' \<or> c = CHR ''+'' then Some 62 else if c = CHR ''_'' \<or> c = CHR 0x2F then Some 63 else None)"

abbreviation byte_of :: "char \<Rightarrow> nat" where "byte_of c \<equiv> of_char c"

fun b64_encode :: "string \<Rightarrow> string" where
  "b64_encode [] = []"
| "b64_encode [a] = [b64_char (byte_of a div 4), b64_char (byte_of a mod 4 * 16), CHR ''='', CHR ''='']"
| "b64_encode [a, b] =
     [b64_char (byte_of a div 4), b64_char (byte_of a mod 4 * 16 + byte_of b div 16), b64_char (byte_of b mod 16 * 4), CHR ''='']"
| "b64_encode (a # b # c # s) =
     b64_char (byte_of a div 4) # b64_char (byte_of a mod 4 * 16 + byte_of b div 16)
       # b64_char (byte_of b mod 16 * 4 + byte_of c div 64) # b64_char (byte_of c mod 64) # b64_encode s"

text \<open>
  \<open>a2b_base64\<close>: the place in a group of four, the bits left over, and the number of paddings seen.
  Other characters are passed over; enough paddings end the text, an unfinished group is an error.
\<close>

fun a2b :: "nat \<Rightarrow> nat \<Rightarrow> nat \<Rightarrow> string \<Rightarrow> string option" where
  "a2b q bits pads [] = (if q = 0 then Some [] else None)"
| "a2b q bits pads (c # s) =
     (if c = CHR ''=''
      then (if 2 \<le> q then (if 4 \<le> q + Suc pads then Some [] else a2b q bits (Suc pads) s) else a2b q bits pads s)
      else (case b64_val c of
              None \<Rightarrow> a2b q bits pads s
            | Some v \<Rightarrow>
                (if q = 0 then a2b 1 v 0 s
                 else if q = 1 then map_option ((#) (char_of (bits * 4 + v div 16))) (a2b 2 (v mod 16) 0 s)
                 else if q = 2 then map_option ((#) (char_of (bits * 16 + v div 4))) (a2b 3 (v mod 4) 0 s)
                 else map_option ((#) (char_of (bits * 64 + v))) (a2b 0 0 0 s))))"

definition b64_decode :: "string \<Rightarrow> string option" where
  "b64_decode s = a2b 0 0 0 s"

lemma byte_less: "byte_of c < 256"
  using mod_less_divisor [of 256 "byte_of c"] by simp

lemma char_less: "n < 256 \<Longrightarrow> char_of n = c \<longleftrightarrow> (n::nat) = byte_of c"
  by (metis char_of_char of_char_of mod_less)

lemma b64_table:
  assumes "v < 64"
  shows "b64_val (b64_char v) = Some v" and "b64_char v \<noteq> CHR ''=''"
proof -
  consider "v < 26" | "26 \<le> v" "v < 52" | "52 \<le> v" "v < 62" | "v = 62" | "v = 63" using assms by linarith
  then have "b64_val (b64_char v) = Some v \<and> b64_char v \<noteq> CHR ''=''"
    by cases (auto simp: b64_char_def b64_val_def Let_def char_less)
  then show "b64_val (b64_char v) = Some v" "b64_char v \<noteq> CHR ''=''" by simp_all
qed

lemma a2b_char:
  assumes "v < 64"
  shows "a2b q bits pads (b64_char v # s) =
    (if q = 0 then a2b 1 v 0 s
     else if q = 1 then map_option ((#) (char_of (bits * 4 + v div 16))) (a2b 2 (v mod 16) 0 s)
     else if q = 2 then map_option ((#) (char_of (bits * 16 + v div 4))) (a2b 3 (v mod 4) 0 s)
     else map_option ((#) (char_of (bits * 64 + v))) (a2b 0 0 0 s))"
  by (simp add: b64_table [OF assms])

lemma joined: "r < n \<Longrightarrow> (q * n + r) div n = (q::nat)" "r < n \<Longrightarrow> (q * n + r) mod n = r"
  by simp_all

lemma byte_parts:
  "byte_of c div 4 < 64" "byte_of c mod 4 < 4" "byte_of c div 16 < 16" "byte_of c mod 16 < 16" "byte_of c div 64 < 4"
  "byte_of c mod 64 < 64"
  using byte_less [of c] by (simp_all add: less_mult_imp_div_less)

lemma sextets:
  "x < 4 \<Longrightarrow> y < 16 \<Longrightarrow> x * 16 + y < (64::nat)" "x < 16 \<Longrightarrow> y < 4 \<Longrightarrow> x * 4 + y < (64::nat)"
  "x < 4 \<Longrightarrow> x * 16 < (64::nat)" "x < 16 \<Longrightarrow> x * 4 < (64::nat)"
  by simp_all

lemmas b64_simps = a2b_char byte_parts sextets joined div_mult_mod_eq mod_mult_self1_is_0 char_of_char

text \<open>Decoding inverts encoding.\<close>

lemma b64_roundtrip: "b64_decode (b64_encode s) = Some s"
  unfolding b64_decode_def
proof (induction s rule: b64_encode.induct)
  case (4 a b c s)
  then show ?case
    by (simp add: b64_simps del: a2b.simps(2))
next
  case (2 a)
  then show ?case by (simp add: b64_simps del: a2b.simps(2)) simp
next
  case (3 a b)
  then show ?case by (simp add: b64_simps del: a2b.simps(2)) simp
qed simp

section \<open>Dates\<close>

definition leap :: "int \<Rightarrow> bool" where
  "leap y \<longleftrightarrow> y mod 4 = 0 \<and> (y mod 100 \<noteq> 0 \<or> y mod 400 = 0)"

definition year_days :: "int \<Rightarrow> int" where
  "year_days y = (if leap y then 366 else 365)"

definition month_days :: "int \<Rightarrow> int list" where
  "month_days y = [31, if leap y then 29 else 28, 31, 30, 31, 30, 31, 31, 30, 31, 30, 31]"

text \<open>Days from 1970-01-01 to the first of January of a year.\<close>

definition year_start :: "int \<Rightarrow> int" where
  "year_start y = 365 * (y - 1970) + (y - 1) div 4 - (y - 1) div 100 + (y - 1) div 400 - 477"

text \<open>A day since 1970 as year and day of the year, and a day of the year as month and day.\<close>

function year_of :: "int \<Rightarrow> int \<Rightarrow> int \<times> int" where
  "year_of y d = (if d < year_days y then (y, d) else year_of (y + 1) (d - year_days y))"
  by auto

termination by (relation "measure (\<lambda>(y, d). nat d)") (auto simp: year_days_def split: if_splits)

declare year_of.simps [simp del]

fun month_of :: "int \<Rightarrow> int list \<Rightarrow> int \<Rightarrow> int \<times> int" where
  "month_of m [] d = (m, d + 1)"
| "month_of m (n # ns) d = (if d < n then (m, d + 1) else month_of (m + 1) ns (d - n))"

record datetime =
  dt_year :: int
  dt_month :: int
  dt_day :: int
  dt_hour :: int
  dt_minute :: int
  dt_second :: int
  dt_micro :: int

definition valid_datetime :: "datetime \<Rightarrow> bool" where
  "valid_datetime t \<longleftrightarrow>
     1 \<le> dt_year t \<and> dt_year t \<le> 9999 \<and> 1 \<le> dt_month t \<and> dt_month t \<le> 12 \<and>
     1 \<le> dt_day t \<and> dt_day t \<le> month_days (dt_year t) ! nat (dt_month t - 1) \<and>
     0 \<le> dt_hour t \<and> dt_hour t < 24 \<and> 0 \<le> dt_minute t \<and> dt_minute t < 60 \<and> 0 \<le> dt_second t \<and> dt_second t < 60 \<and>
     0 \<le> dt_micro t \<and> dt_micro t < 1000000"

text \<open>The point of time of a datetime in UTC, and the datetime of a point of time after 1970.\<close>

definition micros :: "datetime \<Rightarrow> int" where
  "micros t =
     ((((year_start (dt_year t) + sum_list (take (nat (dt_month t - 1)) (month_days (dt_year t))) + (dt_day t - 1)) * 24
        + dt_hour t) * 60 + dt_minute t) * 60 + dt_second t) * 1000000 + dt_micro t"

definition datetime_at :: "int \<Rightarrow> datetime" where
  "datetime_at n =
     (let seconds = n div 1000000; minutes = seconds div 60; hours = minutes div 60;
          (y, yd) = year_of 1970 (hours div 24);
          (m, d) = month_of 1 (month_days y) yd
      in \<lparr>dt_year = y, dt_month = m, dt_day = d, dt_hour = hours mod 24, dt_minute = minutes mod 60,
          dt_second = seconds mod 60, dt_micro = n mod 1000000\<rparr>)"

lemma year_start_next: "year_start (y + 1) = year_start y + year_days y"
proof -
  have step: "(y::int) div n = (y - 1) div n + (if y mod n = 0 then 1 else 0)" if "0 < n" for n
  proof (cases "y mod n = 0")
    case True
    then have "y - 1 = n * (y div n - 1) + (n - 1)" using mult_div_mod_eq [of n y] by (simp add: algebra_simps)
    then have "(y - 1) div n = y div n - 1" by (rule int_div_pos_eq) (use that in simp_all)
    with True show ?thesis by simp
  next
    case False
    have r: "0 \<le> y mod n - 1" "y mod n - 1 < n"
      using False pos_mod_sign [OF that, of y] pos_mod_bound [OF that, of y] by linarith+
    have "y - 1 = n * (y div n) + (y mod n - 1)" using mult_div_mod_eq [of n y] by linarith
    then have "(y - 1) div n = y div n" using r by (rule int_div_pos_eq)
    with False show ?thesis by simp
  qed
  have "y mod 100 = 0 \<Longrightarrow> y mod 4 = 0" "y mod 400 = 0 \<Longrightarrow> y mod 100 = 0" by presburger+
  moreover have "year_start (y + 1) = year_start y + 365 + (if y mod 4 = 0 then 1 else 0)
      - (if y mod 100 = 0 then 1 else 0) + (if y mod 400 = 0 then 1 else 0)"
  proof -
    have sums: "365 * (y + 1 - 1970) + (a + i) - (b + j) + (c + k) - 477 = 365 * (y - 1970) + a - b + c - 477 + 365 + i - j + k"
      for a b c i j k :: int by simp
    have "0 < (4::int)" "0 < (100::int)" "0 < (400::int)" by simp_all
    then show ?thesis
      unfolding year_start_def add_diff_cancel_right' by (simp only: step [of 4] step [of 100] step [of 400] sums)
  qed
  ultimately show ?thesis by (auto simp only: year_days_def leap_def simp_thms split: if_splits)
qed

lemma year_start_1970: "year_start 1970 = 0"
  by code_simp

lemma year_of_start:
  "0 \<le> d \<Longrightarrow> year_of y d = (y', d') \<Longrightarrow> year_start y + d = year_start y' + d' \<and> 0 \<le> d' \<and> d' < year_days y' \<and> y \<le> y'"
proof (induction y d rule: year_of.induct)
  case (1 y d)
  show ?case
  proof (cases "d < year_days y")
    case True
    with "1.prems" show ?thesis by (simp add: year_of.simps [of y d])
  next
    case False
    with "1.prems" have "year_of (y + 1) (d - year_days y) = (y', d')" by (simp add: year_of.simps [of y d])
    from "1.IH" [OF False _ this] False show ?thesis by (simp add: year_start_next)
  qed
qed

lemma month_of_start:
  "0 \<le> d \<Longrightarrow> d < sum_list ns \<Longrightarrow> month_of m ns d = (m', d') \<Longrightarrow>
     \<exists>k < length ns. m' = m + int k \<and> d = sum_list (take k ns) + (d' - 1) \<and> 1 \<le> d' \<and> d' \<le> ns ! k"
proof (induction ns arbitrary: m d)
  case (Cons n ns)
  show ?case
  proof (cases "d < n")
    case True
    with Cons.prems show ?thesis by (intro exI [of _ 0]) auto
  next
    case False
    with Cons.IH [of "d - n" "m + 1"] Cons.prems obtain k where
      "k < length ns" "m' = m + 1 + int k" "d - n = sum_list (take k ns) + (d' - 1)" "1 \<le> d'" "d' \<le> ns ! k" by auto
    then show ?thesis by (intro exI [of _ "Suc k"]) auto
  qed
qed simp

lemma month_days_sum: "sum_list (month_days y) = year_days y" "length (month_days y) = 12"
  by (simp_all add: month_days_def year_days_def)

text \<open>The greatest time is that of the last microsecond of the year 9999.\<close>

definition end_of_time :: int where
  "end_of_time = 253402300800000000"

lemma year_start_mono: "y \<le> z \<Longrightarrow> year_start y \<le> year_start z"
proof (induction z rule: int_ge_induct)
  case (step z)
  then show ?case by (simp add: year_start_next year_days_def)
qed simp

lemma datetime_at_ok:
  assumes "0 \<le> n" "n < end_of_time"
  shows "micros (datetime_at n) = n" and "valid_datetime (datetime_at n)"
proof -
  define seconds where "seconds = n div 1000000"
  define minutes where "minutes = seconds div 60"
  define hours where "hours = minutes div 60"
  define day where "day = hours div 24"
  have parts: "n = seconds * 1000000 + n mod 1000000" "seconds = minutes * 60 + seconds mod 60"
    "minutes = hours * 60 + minutes mod 60" "hours = day * 24 + hours mod 24"
    by (simp_all add: seconds_def minutes_def hours_def day_def)
  have rest: "0 \<le> n mod 1000000" "n mod 1000000 < 1000000" "0 \<le> seconds mod 60" "seconds mod 60 < 60"
    "0 \<le> minutes mod 60" "minutes mod 60 < 60" "0 \<le> hours mod 24" "hours mod 24 < 24"
    by simp_all
  have "0 \<le> day" unfolding day_def hours_def minutes_def seconds_def using assms(1) by (simp add: pos_imp_zdiv_nonneg_iff)
  have "day < 2932897"
  proof -
    obtain a b c d where "n = seconds * 1000000 + a" "seconds = minutes * 60 + b" "minutes = hours * 60 + c" "hours = day * 24 + d"
      "0 \<le> a" "0 \<le> b" "0 \<le> c" "0 \<le> d" using parts rest by blast
    then show ?thesis using assms(2) unfolding end_of_time_def by linarith
  qed
  obtain y yd where y: "year_of 1970 day = (y, yd)" by fastforce
  from year_of_start [OF \<open>0 \<le> day\<close> y] have ys: "day = year_start y + yd" "0 \<le> yd" "yd < year_days y" "1970 \<le> y"
    by (simp_all add: year_start_1970)
  obtain m d where m: "month_of 1 (month_days y) yd = (m, d)" by fastforce
  from month_of_start [OF ys(2) _ m] ys(3) month_days_sum [of y] obtain k where
    k: "k < 12" "m = 1 + int k" "yd = sum_list (take k (month_days y)) + (d - 1)" "1 \<le> d" "d \<le> month_days y ! k" by auto
  have at: "datetime_at n = \<lparr>dt_year = y, dt_month = m, dt_day = d, dt_hour = hours mod 24, dt_minute = minutes mod 60,
      dt_second = seconds mod 60, dt_micro = n mod 1000000\<rparr>"
    using y m by (simp add: datetime_at_def Let_def seconds_def minutes_def hours_def day_def)
  have date: "year_start y + sum_list (take (nat (m - 1)) (month_days y)) + (d - 1) = day" using ys(1) k by simp
  have "micros (datetime_at n) =
      (((day * 24 + hours mod 24) * 60 + minutes mod 60) * 60 + seconds mod 60) * 1000000 + n mod 1000000"
    unfolding at micros_def by (simp only: datetime.simps date)
  also have "\<dots> = n" by (simp only: parts(4) [symmetric] parts(3) [symmetric] parts(2) [symmetric] parts(1) [symmetric])
  finally show "micros (datetime_at n) = n" .
  have "y \<le> 9999"
  proof (rule ccontr)
    assume "\<not> y \<le> 9999"
    then have "year_start 10000 \<le> year_start y" by (intro year_start_mono) simp
    moreover have "year_start 10000 = 2932897" by code_simp
    ultimately show False using ys \<open>day < 2932897\<close> by linarith
  qed
  then show "valid_datetime (datetime_at n)"
    unfolding at valid_datetime_def using ys(4) k rest by simp
qed

section \<open>Dates as text\<close>

definition two :: "int \<Rightarrow> string" where
  "two n = [digit_char (n div 10), digit_char (n mod 10)]"

text \<open>\<open>isoformat()\<close> of a datetime in UTC; microseconds only when there are some.\<close>

definition isoformat :: "datetime \<Rightarrow> string" where
  "isoformat t =
     two (dt_year t div 100) @ two (dt_year t mod 100) @ ''-'' @ two (dt_month t) @ ''-'' @ two (dt_day t) @ ''T''
       @ two (dt_hour t) @ '':'' @ two (dt_minute t) @ '':'' @ two (dt_second t)
       @ (if dt_micro t = 0 then []
          else ''.'' @ two (dt_micro t div 10000) @ two (dt_micro t div 100 mod 100) @ two (dt_micro t mod 100))
       @ ''+00:00''"

text \<open>Two digits, and a date \<open>YYYY-MM-DD\<close>.\<close>

fun read_two :: "string \<Rightarrow> (int \<times> string) option" where
  "read_two (a # b # s) = (if is_digit a \<and> is_digit b then Some (10 * digit_val a + digit_val b, s) else None)"
| "read_two _ = None"

fun after :: "char \<Rightarrow> string \<Rightarrow> string option" where
  "after c (a # s) = (if a = c then Some s else None)"
| "after c [] = None"

definition iso_date :: "string \<Rightarrow> ((int \<times> int \<times> int) \<times> string) option" where
  "iso_date s =
     Option.bind (read_two s) (\<lambda>(c, s). Option.bind (read_two s) (\<lambda>(y, s). Option.bind (after CHR ''-'' s) (\<lambda>s.
     Option.bind (read_two s) (\<lambda>(m, s). Option.bind (after CHR ''-'' s) (\<lambda>s.
     Option.bind (read_two s) (\<lambda>(d, s). Some ((100 * c + y, m, d), s)))))))"

text \<open>The fraction of a second: six digits count, further ones are passed over.\<close>

definition fraction :: "string \<Rightarrow> int option" where
  "fraction ds =
     (if ds \<noteq> [] \<and> list_all is_digit ds then Some (digits_val (take 6 (ds @ replicate 5 CHR ''0''))) else None)"

text \<open>\<open>HH[:MM[:SS[.f]]]\<close>, the whole text.\<close>

definition iso_clock :: "string \<Rightarrow> (int \<times> int \<times> int \<times> int) option" where
  "iso_clock s =
     Option.bind (read_two s) (\<lambda>(h, s).
       if s = [] then Some (h, 0, 0, 0)
       else Option.bind (after CHR '':'' s) (\<lambda>s. Option.bind (read_two s) (\<lambda>(m, s).
         if s = [] then Some (h, m, 0, 0)
         else Option.bind (after CHR '':'' s) (\<lambda>s. Option.bind (read_two s) (\<lambda>(sec, s).
           case s of
             [] \<Rightarrow> Some (h, m, sec, 0)
           | c # ds \<Rightarrow> (if c = CHR ''.'' \<or> c = CHR '','' then map_option (\<lambda>us. (h, m, sec, us)) (fraction ds) else None))))))"

definition clock_micros :: "int \<times> int \<times> int \<times> int \<Rightarrow> int" where
  "clock_micros c = (case c of (h, m, sec, us) \<Rightarrow> ((h * 60 + m) * 60 + sec) * 1000000 + us)"

text \<open>The offset from UTC at the end: nothing, \<open>Z\<close>, or a signed clock of less than a day.\<close>

definition iso_offset :: "string \<Rightarrow> int option" where
  "iso_offset s =
     (case s of
        [] \<Rightarrow> Some 0
      | c # r \<Rightarrow>
          (if c = CHR ''Z'' then (if r = [] then Some 0 else None)
           else Option.bind (iso_clock r) (\<lambda>k.
             if clock_micros k < 86400000000
             then Some (if c = CHR ''-'' then - clock_micros k else clock_micros k) else None)))"

text \<open>The offset starts at the first sign or \<open>Z\<close> after the date.\<close>

definition no_sign :: "char \<Rightarrow> bool" where
  "no_sign c \<longleftrightarrow> c \<notin> {CHR ''+'', CHR ''-'', CHR ''Z''}"

text \<open>
  \<open>_as_utc(datetime.fromisoformat(s))\<close>: any one character stands between date and clock; without an
  offset the time is taken for UTC.
\<close>

definition utc_of_text :: "string \<Rightarrow> int option" where
  "utc_of_text s =
     Option.bind (iso_date s) (\<lambda>((y, m, d), s).
       let ts = concat (tl (chars_of s)); clock = takeWhile no_sign ts;
           zone = dropWhile no_sign ts
       in Option.bind (if ts = [] then Some (0, 0, 0, 0) else iso_clock clock) (\<lambda>(h, mi, sec, us).
          Option.bind (iso_offset zone) (\<lambda>off.
            let t = \<lparr>dt_year = y, dt_month = m, dt_day = d, dt_hour = h, dt_minute = mi, dt_second = sec, dt_micro = us\<rparr>;
                n = micros t - off
            in if valid_datetime t \<and> -62135596800000000 \<le> n \<and> n < end_of_time then Some n else None)))"

lemma tens:
  assumes "0 \<le> n" "n < 100"
  shows "0 \<le> n div 10" "n div 10 < (10::int)" "0 \<le> n mod 10" "n mod 10 < 10"
  using assms by linarith+

lemma read_two_two [simp]: "0 \<le> n \<Longrightarrow> n < 100 \<Longrightarrow> read_two (two n @ s) = Some (n, s)"
proof -
  assume "0 \<le> n" "n < 100"
  from tens [OF this] show ?thesis by (simp add: two_def is_digit_char digit_val_char)
qed

lemma two_digits: "0 \<le> n \<Longrightarrow> n < 100 \<Longrightarrow> list_all is_digit (two n) \<and> digits_val (two n @ ds) = foldl (\<lambda>n c. 10 * n + digit_val c) n ds"
proof -
  assume "0 \<le> n" "n < 100"
  from tens [OF this] show ?thesis by (simp add: two_def is_digit_char digit_val_char digits_val_def)
qed

lemma two_not_empty [simp]: "two n @ s \<noteq> []" "two n \<noteq> []"
  by (simp_all add: two_def)

lemma digit_no_sign: "is_digit c \<Longrightarrow> no_sign c"
  by (auto simp: no_sign_def is_digit_def)

lemma two_no_sign: "0 \<le> n \<Longrightarrow> n < 100 \<Longrightarrow> list_all no_sign (two n)"
  using two_digits [of n "[]"] digit_no_sign by (auto simp: list_all_iff)

text \<open>The parts of a valid datetime have two digits each.\<close>

lemma valid_parts:
  assumes "valid_datetime t"
  shows "0 \<le> dt_year t div 100" "dt_year t div 100 < 100" "0 \<le> dt_year t mod 100" "dt_year t mod 100 < 100"
    "0 \<le> dt_month t" "dt_month t < 100" "0 \<le> dt_day t" "dt_day t < 100" "0 \<le> dt_hour t" "dt_hour t < 100"
    "0 \<le> dt_minute t" "dt_minute t < 100" "0 \<le> dt_second t" "dt_second t < 100"
    "0 \<le> dt_micro t div 10000" "dt_micro t div 10000 < 100" "0 \<le> dt_micro t div 100 mod 100"
    "dt_micro t div 100 mod 100 < 100" "0 \<le> dt_micro t mod 100" "dt_micro t mod 100 < 100"
proof -
  have "month_days (dt_year t) ! nat (dt_month t - 1) \<in> set (month_days (dt_year t))"
    using assms by (intro nth_mem) (auto simp: valid_datetime_def month_days_sum nat_less_iff)
  then have "month_days (dt_year t) ! nat (dt_month t - 1) \<le> 31" by (auto simp: month_days_def split: if_splits)
  then show "dt_day t < 100" using assms by (simp add: valid_datetime_def)
  have "0 \<le> dt_micro t" "dt_micro t < 1000000" "1 \<le> dt_year t" "dt_year t \<le> 9999" using assms by (simp_all add: valid_datetime_def)
  then show "0 \<le> dt_micro t div 10000" "dt_micro t div 10000 < 100" "0 \<le> dt_year t div 100" "dt_year t div 100 < 100"
    by linarith+
qed (use assms in \<open>auto simp: valid_datetime_def\<close>)

lemma micro_sum: "100 * (100 * (n div 10000) + n div 100 mod 100) + n mod 100 = (n::int)"
proof -
  have "n div 10000 = n div 100 div 100" by (simp add: zdiv_zmult2_eq [symmetric])
  then have "100 * (n div 10000) + n div 100 mod 100 = n div 100" by (simp only: mult_div_mod_eq)
  then show ?thesis by (simp only: mult_div_mod_eq)
qed

lemma two_foldl: "0 \<le> n \<Longrightarrow> n < 100 \<Longrightarrow> foldl (\<lambda>n c. 10 * n + digit_val c) a (two n) = 100 * a + n"
proof -
  assume "0 \<le> n" "n < 100"
  from tens [OF this] show ?thesis by (simp add: two_def digit_val_char)
qed

lemma take_all_append: "length xs = n \<Longrightarrow> take n (xs @ ys) = xs"
  by simp

lemma fraction_print:
  assumes "0 \<le> a" "a < 100" "0 \<le> b" "b < 100" "0 \<le> c" "c < 100"
  shows "fraction (two a @ two b @ two c) = Some (100 * (100 * a + b) + c)"
proof -
  have "length (two a @ two b @ two c) = 6" by (simp add: two_def)
  note take = take_all_append [OF this]
  have digits: "two a @ two b @ two c \<noteq> [] \<and> list_all is_digit (two a @ two b @ two c)"
    using assms two_digits by simp
  show ?thesis
    unfolding fraction_def if_P [OF digits] take digits_val_def foldl_append
    using assms by (simp only: two_foldl mult_zero_right add_0)
qed

lemma fraction_micro:
  assumes "valid_datetime t"
  shows "fraction (two (dt_micro t div 10000) @ two (dt_micro t div 100 mod 100) @ two (dt_micro t mod 100)) = Some (dt_micro t)"
  by (simp only: fraction_print valid_parts [OF assms] micro_sum)

lemma iso_date_print:
  assumes "0 \<le> c" "c < 100" "0 \<le> y" "y < 100" "0 \<le> m" "m < 100" "0 \<le> d" "d < 100"
  shows "iso_date (two c @ two y @ CHR ''-'' # two m @ CHR ''-'' # two d @ s) = Some ((100 * c + y, m, d), s)"
  using assms by (simp add: iso_date_def)

lemma read_two_end: "0 \<le> n \<Longrightarrow> n < 100 \<Longrightarrow> read_two (two n) = Some (n, [])"
  using read_two_two [of n "[]"] by simp

lemma iso_clock_print:
  assumes "0 \<le> h" "h < 100" "0 \<le> m" "m < 100" "0 \<le> sec" "sec < 100"
  shows "iso_clock (two h @ CHR '':'' # two m @ CHR '':'' # two sec) = Some (h, m, sec, 0)"
    and "iso_clock (two h @ CHR '':'' # two m @ CHR '':'' # two sec @ CHR ''.'' # ds) = map_option (\<lambda>us. (h, m, sec, us)) (fraction ds)"
  using assms by (simp_all add: iso_clock_def read_two_end)

lemma iso_offset_utc: "iso_offset ''+00:00'' = Some 0"
  by code_simp

text \<open>The clock part of a printed datetime, and what reading it gives.\<close>

definition clock_text :: "datetime \<Rightarrow> string" where
  "clock_text t =
     two (dt_hour t) @ CHR '':'' # two (dt_minute t) @ CHR '':'' # two (dt_second t)
       @ (if dt_micro t = 0 then []
          else CHR ''.'' # two (dt_micro t div 10000) @ two (dt_micro t div 100 mod 100) @ two (dt_micro t mod 100))"

lemma isoformat_parts:
  "isoformat t = two (dt_year t div 100) @ two (dt_year t mod 100) @ CHR ''-'' # two (dt_month t) @ CHR ''-'' # two (dt_day t)
     @ CHR ''T'' # clock_text t @ ''+00:00''"
  by (simp add: isoformat_def clock_text_def)

lemma clock_text_read:
  assumes "valid_datetime t"
  shows "iso_clock (clock_text t) = Some (dt_hour t, dt_minute t, dt_second t, dt_micro t)"
  using valid_parts(9-14) [OF assms] fraction_micro [OF assms] by (simp add: clock_text_def iso_clock_print)

lemma clock_text_plain:
  assumes "valid_datetime t"
  shows "list_all no_sign (clock_text t)"
proof -
  have "no_sign CHR '':''" "no_sign CHR ''.''" by (simp_all add: no_sign_def)
  then show ?thesis
    by (simp only: clock_text_def list_all_append list.pred_inject two_no_sign valid_parts [OF assms] if_distrib [of "list_all no_sign"] if_cancel simp_thms)
qed

lemma takeWhile_until:
  "list_all P xs \<Longrightarrow> \<not> P y \<Longrightarrow> takeWhile P (xs @ y # ys) = xs"
  "list_all P xs \<Longrightarrow> \<not> P y \<Longrightarrow> dropWhile P (xs @ y # ys) = y # ys"
  by (induction xs) simp_all

lemma chars_of_plain: "(of_char c :: nat) < 128 \<Longrightarrow> chars_of (c # s) = [c] # chars_of s"
  by (simp split: list.split)

text \<open>Reading a printed time gives the time.\<close>

lemma utc_of_isoformat:
  assumes "0 \<le> n" "n < end_of_time"
  shows "utc_of_text (isoformat (datetime_at n)) = Some n"
proof -
  let ?t = "datetime_at n"
  note ok = datetime_at_ok [OF assms]
  note v = valid_parts [OF ok(2)]
  have date: "iso_date (isoformat ?t) = Some ((dt_year ?t, dt_month ?t, dt_day ?t), CHR ''T'' # clock_text ?t @ ''+00:00'')"
    unfolding isoformat_parts using iso_date_print [OF v(1-8)] by simp
  have rest: "concat (tl (chars_of (CHR ''T'' # clock_text ?t @ ''+00:00''))) = clock_text ?t @ ''+00:00''"
    by (simp add: chars_of_plain concat_chars_of del: chars_of.simps)
  have zone: "takeWhile no_sign (clock_text ?t @ ''+00:00'') = clock_text ?t"
    "dropWhile no_sign (clock_text ?t @ ''+00:00'') = ''+00:00''"
    by (rule takeWhile_until [OF clock_text_plain [OF ok(2)]], simp add: no_sign_def)+
  have same: "\<lparr>dt_year = dt_year ?t, dt_month = dt_month ?t, dt_day = dt_day ?t, dt_hour = dt_hour ?t, dt_minute = dt_minute ?t,
      dt_second = dt_second ?t, dt_micro = dt_micro ?t\<rparr> = ?t" by simp
  have some: "clock_text ?t @ ''+00:00'' \<noteq> []" by simp
  have "valid_datetime ?t \<and> -62135596800000000 \<le> micros ?t - 0 \<and> micros ?t - 0 < end_of_time"
    using ok assms by simp
  then show ?thesis
    unfolding utc_of_text_def date Option.bind.bind_lunit prod.case Let_def rest zone if_not_P [OF some]
      clock_text_read [OF ok(2)] iso_offset_utc same
    using ok(1) by simp
qed

section \<open>Cursors\<close>

text \<open>\<open>bytes.decode("utf-8")\<close>: the bytes are UTF-8, in the shortest form and without surrogates.\<close>

definition continuation :: "char \<Rightarrow> bool" where
  "continuation c \<longleftrightarrow> 128 \<le> byte_of c \<and> byte_of c < 192"

definition utf8_char :: "string \<Rightarrow> bool" where
  "utf8_char g =
     (case g of
        [a] \<Rightarrow> byte_of a < 128
      | [a, b] \<Rightarrow> 194 \<le> byte_of a \<and> byte_of a < 224 \<and> continuation b
      | [a, b, c] \<Rightarrow>
          224 \<le> byte_of a \<and> byte_of a < 240 \<and> continuation b \<and> continuation c \<and> 2048 \<le> code_point g \<and>
          \<not> (55296 \<le> code_point g \<and> code_point g < 57344)
      | [a, b, c, d] \<Rightarrow>
          240 \<le> byte_of a \<and> byte_of a < 245 \<and> continuation b \<and> continuation c \<and> continuation d \<and>
          65536 \<le> code_point g \<and> code_point g < 1114112
      | _ \<Rightarrow> False)"

definition utf8_ok :: "string \<Rightarrow> bool" where
  "utf8_ok s = list_all utf8_char (chars_of s)"

definition encode_cursor :: "int \<Rightarrow> int \<Rightarrow> string" where
  "encode_cursor started_at row_id =
     b64_encode (json_dumps True (JObj [(''at'', JStr (isoformat (datetime_at started_at))), (''id'', JInt row_id)]))"

text \<open>Every exception of the body becomes the same answer, so \<open>None\<close> is any of them.\<close>

definition decode_cursor :: "string \<Rightarrow> (int \<times> int) option" where
  "decode_cursor cursor =
     Option.bind (if list_all (\<lambda>c. byte_of c < 128) cursor then b64_decode cursor else None) (\<lambda>raw.
       case (if utf8_ok raw then json_loads raw else Inl ''not UTF-8'') of
         Inr (JObj data) \<Rightarrow>
           (case (map_of data ''at'', map_of data ''id'') of
              (Some (JStr txt), Some i) \<Rightarrow>
                Option.bind (utc_of_text txt) (\<lambda>t. case to_int i of Inl e \<Rightarrow> None | Inr row_id \<Rightarrow> Some (t, row_id))
            | _ \<Rightarrow> None)
       | _ \<Rightarrow> None)"

abbreviation ascii :: "string \<Rightarrow> bool" where "ascii s \<equiv> list_all (\<lambda>c. byte_of c < 128) s"

lemma ascii_utf8: "ascii s \<Longrightarrow> utf8_ok s"
  by (simp add: utf8_ok_def chars_of_ascii list.pred_map list.pred_mono_strong utf8_char_def comp_def)

lemma ascii_b64_char: "v < 64 \<Longrightarrow> byte_of (b64_char v) < 128"
  by (auto simp: b64_char_def)

lemma ascii_b64: "ascii (b64_encode s)"
  by (induction s rule: b64_encode.induct) (simp_all add: ascii_b64_char byte_parts sextets)

lemma ascii_digit: "is_digit c \<Longrightarrow> byte_of c < 128"
  by (simp add: is_digit_def Let_def)

lemma ascii_dec: "0 \<le> n \<Longrightarrow> ascii (dec n)"
proof (induction n rule: dec.induct)
  case (1 n)
  have "byte_of (digit_char m) < 128" if "0 \<le> m" "m < 10" for m
    using that by (intro ascii_digit) (simp add: is_digit_char)
  with 1 show ?case by (subst dec.simps) simp
qed

lemma ascii_int: "ascii (int_str i)"
  by (simp add: int_str_def ascii_dec)

lemma ascii_two: "0 \<le> n \<Longrightarrow> n < 100 \<Longrightarrow> ascii (two n)"
  using two_digits [of n "[]"] ascii_digit by (auto simp: list_all_iff)

lemma ascii_isoformat: "valid_datetime t \<Longrightarrow> ascii (isoformat t)"
  by (simp only: isoformat_def list_all_append list.pred_inject ascii_two valid_parts if_distrib [of ascii] if_cancel simp_thms) simp

lemma ascii_hex: "n < 16 \<Longrightarrow> byte_of (hex_digit_lower n) < 128"
  by (simp add: hex_digit_lower_def)

lemma ascii_dump_byte: "byte_of c < 128 \<Longrightarrow> ascii (dump_byte c)"
  by (simp add: dump_byte_def u_escape_def ascii_hex)

lemma ascii_dump_text: "ascii s \<Longrightarrow> ascii (dump_text True s)"
proof -
  assume "ascii s"
  then have "ascii (concat (map (dump_char True) (map (\<lambda>c. [c]) s)))"
    by (induction s) (simp_all add: dump_char_def ascii_dump_byte u_escape_def ascii_hex)
  with \<open>ascii s\<close> show ?thesis by (simp add: dump_text_def chars_of_ascii)
qed

text \<open>A cursor decodes to the point of time and the row id it was made of.\<close>

lemma cursor_roundtrip:
  assumes "0 \<le> started_at" and "started_at < end_of_time"
  shows "decode_cursor (encode_cursor started_at row_id) = Some (started_at, row_id)"
proof -
  let ?iso = "isoformat (datetime_at started_at)"
  let ?data = "[(''at'', JStr ?iso), (''id'', JInt row_id)]"
  have iso: "ascii ?iso" by (rule ascii_isoformat [OF datetime_at_ok(2) [OF assms]])
  then have "plain True (JObj ?data)" by (simp add: text_ok_def wf_dict_def)
  note loads = loads_dumps [OF this]
  have keys: "ascii (dump_text True ''at'')" "ascii (dump_text True ''id'')"
    by (rule ascii_dump_text, simp)+
  have "ascii (json_dumps True (JObj ?data))"
    using keys ascii_dump_text [OF iso] ascii_int [of row_id] by simp
  then have "utf8_ok (json_dumps True (JObj ?data))" by (rule ascii_utf8)
  then show ?thesis
    unfolding decode_cursor_def encode_cursor_def
    by (simp add: ascii_b64 b64_roundtrip loads utc_of_isoformat [OF assms] del: json_dumps.simps)
qed

end
