(* ===== verification/AdminAudit.thy ===== *)
theory AdminAudit
  imports AdminTools Cursor
begin

text \<open>
  \<open>app/admin/audit.py\<close>: the audit query with its filters, cursors and keyset pages. Times are
  microseconds since 1970, as in the rows; the dates of the filters are those FastAPI has read, and
  the answer holds times as numbers. \<open>page_key\<close> orders rows by time and then id, through the
  library's \<open>linorder\<close> class.
\<close>

section \<open>The order of the pages\<close>

datatype page_key = PageKey (pk_at: int) (pk_id: int)

instantiation page_key :: linorder
begin

definition less_eq_page_key :: "page_key \<Rightarrow> page_key \<Rightarrow> bool" where
  "a \<le> b \<longleftrightarrow> pk_at a < pk_at b \<or> (pk_at a = pk_at b \<and> pk_id a \<le> pk_id b)"

definition less_page_key :: "page_key \<Rightarrow> page_key \<Rightarrow> bool" where
  "a < b \<longleftrightarrow> pk_at a < pk_at b \<or> (pk_at a = pk_at b \<and> pk_id a < pk_id b)"

instance
proof
  fix a b c :: page_key
  show "a < b \<longleftrightarrow> a \<le> b \<and> \<not> b \<le> a" by (auto simp: less_eq_page_key_def less_page_key_def)
  show "a \<le> a" by (simp add: less_eq_page_key_def)
  show "a \<le> b \<Longrightarrow> b \<le> c \<Longrightarrow> a \<le> c" by (auto simp: less_eq_page_key_def)
  show "a \<le> b \<Longrightarrow> b \<le> a \<Longrightarrow> a = b" by (cases a; cases b) (auto simp: less_eq_page_key_def)
  show "a \<le> b \<or> b \<le> a" by (auto simp: less_eq_page_key_def)
qed

end

definition row_key :: "audit_row \<Rightarrow> page_key" where
  "row_key r = PageKey (a_started_at r) (a_id r)"

section \<open>The query\<close>

record audit_query =
  aq_user_id :: "string option"
  aq_tool_name :: "string option"
  aq_outcome :: "audit_status option"
  aq_from :: "int option"
  aq_to :: "int option"
  aq_trace_id :: "string option"
  aq_cursor :: "string option"
  aq_limit :: int

definition DEFAULT_LIMIT :: int where "DEFAULT_LIMIT = 50"

definition MAX_LIMIT :: int where "MAX_LIMIT = 500"

definition valid_query :: "audit_query \<Rightarrow> bool" where
  "valid_query q \<longleftrightarrow> 1 \<le> aq_limit q \<and> aq_limit q \<le> MAX_LIMIT"

text \<open>A filter that is absent or an empty text does not apply.\<close>

definition text_filter :: "string option \<Rightarrow> string \<Rightarrow> bool" where
  "text_filter f v \<longleftrightarrow> (some_text f \<longrightarrow> f = Some v)"

text \<open>
  \<open>trace_id\<close> is a column of UUIDs: texts are compared without dashes and case, and the driver refuses
  one that has not 32 digits, as it refuses an id of a cursor that has more than 64 bits.
\<close>

definition uuid_digits :: "string \<Rightarrow> string" where
  "uuid_digits s = lower (filter (\<lambda>c. c \<noteq> CHR ''-'') s)"

definition hex_digit :: "char \<Rightarrow> bool" where
  "hex_digit c \<longleftrightarrow> is_digit c \<or> c \<in> set ''abcdef''"

definition is_uuid :: "string \<Rightarrow> bool" where
  "is_uuid s \<longleftrightarrow> length s \<le> 36 \<and> length (uuid_digits s) = 32 \<and> list_all hex_digit (uuid_digits s)"

definition fits_int64 :: "int \<Rightarrow> bool" where
  "fits_int64 i \<longleftrightarrow> - (2 ^ 63) \<le> i \<and> i < 2 ^ 63"

definition selects :: "audit_query \<Rightarrow> audit_row \<Rightarrow> bool" where
  "selects q r \<longleftrightarrow>
     text_filter (aq_user_id q) (a_user_id r) \<and> text_filter (aq_tool_name q) (a_tool_name r) \<and>
     (case aq_outcome q of None \<Rightarrow> True | Some o' \<Rightarrow> a_status r = o') \<and>
     (case aq_from q of None \<Rightarrow> True | Some t \<Rightarrow> t \<le> a_started_at r) \<and>
     (case aq_to q of None \<Rightarrow> True | Some t \<Rightarrow> a_started_at r < t) \<and>
     (case aq_trace_id q of None \<Rightarrow> True | Some t \<Rightarrow> t = [] \<or> uuid_digits t = uuid_digits (a_trace_id r))"

text \<open>The cursor of a request: an absent or empty one is none, and one that cannot be read is refused.\<close>

definition cursor_key :: "string option \<Rightarrow> page_key option res" where
  "cursor_key c =
     (case c of
        None \<Rightarrow> Inr None
      | Some s \<Rightarrow>
          (if s = [] then Inr None
           else (case decode_cursor s of
                   None \<Rightarrow> Inl (HTTPException 400 ''invalid cursor'')
                 | Some (cursor_at, cursor_id) \<Rightarrow> Inr (Some (PageKey cursor_at cursor_id)))))"

text \<open>Strictly older than the cursor.\<close>

definition beyond :: "page_key option \<Rightarrow> audit_row \<Rightarrow> bool" where
  "beyond c r \<longleftrightarrow>
     (case c of
        None \<Rightarrow> True
      | Some k \<Rightarrow> a_started_at r < pk_at k \<or> (a_started_at r = pk_at k \<and> a_id r < pk_id k))"

definition query_fits :: "audit_query \<Rightarrow> page_key option \<Rightarrow> bool" where
  "query_fits q cursor \<longleftrightarrow>
     (case aq_trace_id q of None \<Rightarrow> True | Some t \<Rightarrow> t = [] \<or> is_uuid t) \<and>
     (case cursor of None \<Rightarrow> True | Some k \<Rightarrow> fits_int64 (pk_id k))"

text \<open>Newest first.\<close>

definition newest_first :: "audit_row list \<Rightarrow> audit_row list" where
  "newest_first rows = rev (sort_key row_key rows)"

text \<open>The rows of a page, and the cursor of the next: one row more than the limit is fetched.\<close>

definition audit_page :: "audit_query \<Rightarrow> page_key option \<Rightarrow> audit_row list \<Rightarrow> audit_row list \<times> page_key option" where
  "audit_page q cursor table =
     (let rows = take (nat (aq_limit q) + 1) (newest_first (filter (\<lambda>r. selects q r \<and> beyond cursor r) table));
          has_more = length rows > nat (aq_limit q);
          page = take (nat (aq_limit q)) rows
      in (page, if has_more \<and> page \<noteq> [] then Some (row_key (last page)) else None))"

definition status_text :: "audit_status \<Rightarrow> string" where
  "status_text s = (case s of Allowed \<Rightarrow> ''allowed'' | Denied \<Rightarrow> ''denied'' | Error \<Rightarrow> ''error'' | Ok \<Rightarrow> ''ok'')"

definition opt_int :: "int option \<Rightarrow> json" where
  "opt_int o' = (case o' of None \<Rightarrow> JNull | Some i \<Rightarrow> JInt i)"

definition row_to_item :: "audit_row \<Rightarrow> json" where
  "row_to_item r = JObj
     [(''trace_id'', JStr (a_trace_id r)), (''at'', JInt (a_started_at r)), (''user_id'', JStr (a_user_id r)),
      (''user_email'', a_user_email r), (''roles'', JList (map JStr (a_roles r))),
      (''tool_name'', JStr (a_tool_name r)), (''tool_id'', opt_int (a_tool_id r)),
      (''outcome'', JStr (status_text (a_status r))), (''error_code'', opt_int (a_error_code r)),
      (''error_kind'', opt_text (a_error_kind r)), (''latency_ms'', opt_int (a_latency_ms r)),
      (''deny_reason'', opt_text (a_deny_reason r)), (''error_message'', opt_text (a_error_message r)),
      (''sensitive_fields_hit'', JList (map JStr (a_sensitive_fields_hit r))),
      (''arguments'', case a_arguments r of JObj d \<Rightarrow> JObj d | _ \<Rightarrow> JNull)]"

text \<open>The cursor of the next page as text.\<close>

definition cursor_text :: "page_key \<Rightarrow> string" where
  "cursor_text k = encode_cursor (pk_at k) (pk_id k)"

definition audit_response :: "audit_row list \<Rightarrow> page_key option \<Rightarrow> json" where
  "audit_response page next_cursor =
     JObj [(''items'', JList (map row_to_item page)), (''next_cursor'', opt_text (map_option cursor_text next_cursor))]"

definition refused_parameter :: exn where
  "refused_parameter = PyError ''DBAPIError'' ''invalid input for query argument''"

definition query_audit :: "world \<Rightarrow> audit_query \<Rightarrow> gw \<Rightarrow> reply res \<times> gw" where
  "query_audit w q g =
     (case cursor_key (aq_cursor q) of
        Inl e \<Rightarrow> (Inl e, g)
      | Inr cursor \<Rightarrow>
          andThen (db_call w ''SELECT tool_audit_log'' g) (\<lambda>_ g.
            if \<not> query_fits q cursor then (Inl refused_parameter, g)
            else (case audit_page q cursor (db_audit (g_db g)) of (page, next_cursor) \<Rightarrow>
              (Inr (JsonReply 200 (audit_response page next_cursor)), g))))"

section \<open>The answer as a function of the table\<close>

definition query_page :: "audit_query \<Rightarrow> audit_row list \<Rightarrow> (audit_row list \<times> string option) res" where
  "query_page q table =
     bindE (cursor_key (aq_cursor q)) (\<lambda>k.
       if \<not> query_fits q k then Inl refused_parameter
       else (case audit_page q k table of (page, next_cursor) \<Rightarrow> Inr (page, map_option cursor_text next_cursor)))"

lemma query_audit_page:
  "query_audit w q g =
     (case cursor_key (aq_cursor q) of
        Inl e \<Rightarrow> (Inl e, g)
      | Inr k \<Rightarrow>
          andThen (db_call w ''SELECT tool_audit_log'' g) (\<lambda>_ g.
            (bindE (query_page q (db_audit (g_db g))) (\<lambda>(page, next_cursor).
               Inr (JsonReply 200 (JObj [(''items'', JList (map row_to_item page)), (''next_cursor'', opt_text next_cursor)]))), g)))"
  by (auto simp: query_audit_def query_page_def bindE_def audit_response_def andThen_def split: sum.split prod.split)

text \<open>An id beyond 64 bits passes the decoder and fails in the database.\<close>

lemma forged_cursor_refused:
  assumes "db_call w ''SELECT tool_audit_log'' g = (Inr (), g')"
    and "aq_cursor q = Some (encode_cursor 1767225600000000 (2 ^ 63))"
  shows "query_audit w q g = (Inl refused_parameter, g')"
proof -
  have "decode_cursor (encode_cursor 1767225600000000 (2 ^ 63)) = Some (1767225600000000, 2 ^ 63)"
    by (rule cursor_roundtrip) (simp_all add: end_of_time_def)
  moreover have "decode_cursor [] = None" by code_simp
  ultimately have "cursor_key (aq_cursor q) = Inr (Some (PageKey 1767225600000000 (2 ^ 63)))"
    using assms(2) by (cases "encode_cursor 1767225600000000 (2 ^ 63)") (auto simp: cursor_key_def)
  then show ?thesis by (simp add: query_audit_def assms(1) query_fits_def fits_int64_def)
qed

lemma cursor_key_error: "cursor_key c = Inl e \<Longrightarrow> e = HTTPException 400 ''invalid cursor''"
  by (auto simp: cursor_key_def split: option.splits if_splits)

end
