(* ===== verification/Admin.thy ===== *)
theory Admin
  imports AdminGrants AdminAudit
begin

text \<open>
  The admin routes together, as \<open>create_app\<close> of \<open>app/main.py\<close> mounts them: every request with its
  schema and its function, what it does to the tables as a function of the tables
  (\<open>admin_effect\<close>), and the invariant of the tables that all of them keep.
\<close>

section \<open>The routes\<close>

datatype admin_request =
    ListTools bool
  | UpsertTool tool_upsert
  | PatchTool string tool_patch
  | DeleteTool string bool
  | ListGrants "string option" "string option"
  | PutGrant string string bool
  | DeleteGrant string string
  | ListCustomerGrants "string option" "string option"
  | PutCustomerGrant string string bool
  | DeleteCustomerGrant string string
  | QueryAudit audit_query

fun admin_valid :: "admin_request \<Rightarrow> bool" where
  "admin_valid (UpsertTool p) = valid_upsert p"
| "admin_valid (PatchTool name p) = valid_patch p"
| "admin_valid (PutGrant role tool on) = valid_role_put role tool"
| "admin_valid (PutCustomerGrant code tool on) = valid_customer_put code tool"
| "admin_valid (QueryAudit q) = valid_query q"
| "admin_valid _ = True"

fun admin_body :: "world \<Rightarrow> admin_request \<Rightarrow> gw \<Rightarrow> reply res \<times> gw" where
  "admin_body w (ListTools include_disabled) g = list_tools w include_disabled g"
| "admin_body w (UpsertTool p) g = upsert_tool w p g"
| "admin_body w (PatchTool name p) g = patch_tool w name p g"
| "admin_body w (DeleteTool name hard) g = delete_tool w name hard g"
| "admin_body w (ListGrants role tool) g = list_grants w role tool g"
| "admin_body w (PutGrant role tool on) g = put_grant w role tool on g"
| "admin_body w (DeleteGrant role tool) g = delete_role_grant w role tool g"
| "admin_body w (ListCustomerGrants code tool) g = list_customer_grants w code tool g"
| "admin_body w (PutCustomerGrant code tool on) g = put_customer_grant w code tool on g"
| "admin_body w (DeleteCustomerGrant code tool) g = delete_customer_grant w code tool g"
| "admin_body w (QueryAudit q) g = query_audit w q g"

definition admin :: "world \<Rightarrow> auth_deps \<Rightarrow> string option \<Rightarrow> admin_request \<Rightarrow> gw \<Rightarrow> reply \<times> gw" where
  "admin w a header req g = admin_route w a header (admin_valid req) (admin_body w req) g"

section \<open>What a request does to the tables\<close>

text \<open>Change the grants of the tool of a name.\<close>

definition at_tool :: "string \<Rightarrow> (tool_row \<Rightarrow> db) \<Rightarrow> db \<Rightarrow> db" where
  "at_tool name f d = (case find_tool d name of None \<Rightarrow> d | Some t \<Rightarrow> f t)"

text \<open>A row the table refuses is not written.\<close>

definition if_fits :: "tool_row \<Rightarrow> db \<Rightarrow> db \<Rightarrow> db" where
  "if_fits row d' d = (if row_fits row then d' else d)"

fun admin_effect :: "int \<Rightarrow> admin_request \<Rightarrow> db \<Rightarrow> db" where
  "admin_effect now (UpsertTool p) d = if_fits (fst (upsert_row now p d)) (snd (upsert_row now p d)) d"
| "admin_effect now (PatchTool name p) d =
     at_tool name (\<lambda>t. case patched now p t of Inl e \<Rightarrow> d | Inr row \<Rightarrow> if_fits row (replace_tool row d) d) d"
| "admin_effect now (DeleteTool name hard) d =
     at_tool name (\<lambda>t. if hard then remove_tool (t_id t) d else if_fits (disabled now t) (replace_tool (disabled now t) d) d) d"
| "admin_effect now (PutGrant role tool on) d =
     at_tool tool (\<lambda>t. role_rows (if on then insert_grant (t_id t) role now else delete_grant (t_id t) role) d) d"
| "admin_effect now (DeleteGrant role tool) d =
     at_tool tool (\<lambda>t. role_rows (delete_grant (t_id t) role) d) d"
| "admin_effect now (PutCustomerGrant code tool on) d =
     at_tool tool (\<lambda>t. customer_rows (if on then insert_grant (t_id t) code now else delete_grant (t_id t) code) d) d"
| "admin_effect now (DeleteCustomerGrant code tool) d =
     at_tool tool (\<lambda>t. customer_rows (delete_grant (t_id t) code) d) d"
| "admin_effect now _ d = d"

text \<open>The steps of a transaction and the refresh after it.\<close>

lemma refresh_registry_simps [simp]: "g_db (refresh_registry w g) = g_db g"
  by (simp add: refresh_registry_def)

lemma db_call_cases:
  obtains (failed) c m where "db_call w what g = (Inl (PyError c m), emit (EvDb what) g)"
  | (went) "db_call w what g = (Inr (), emit (EvDb what) g)"
  by (cases "w_db_error w (g_trace g @ [EvDb what])") (auto simp: db_call_def Let_def)

lemma commit_cases:
  obtains (failed) c m where "commit w d g = (Inl (PyError c m), emit (EvDb ''COMMIT'') g)"
  | (went) "commit w d g = (Inr (), (emit (EvDb ''COMMIT'') g)\<lparr>g_db := d\<rparr>)"
  by (cases rule: db_call_cases [of w "''COMMIT''" g]) (auto simp: commit_def)

lemma read_now_eq: "read_now w g = (w_now w (g_trace g @ [EvNow]), emit EvNow g)"
  by (simp add: read_now_def Let_def)

text \<open>
  Every function answers with the effect done, refuses with an HTTPException of an error status and
  nothing done, or fails otherwise with one or the other.
\<close>

definition all_or_nothing :: "(int \<Rightarrow> db \<Rightarrow> db) \<Rightarrow> gw \<Rightarrow> 'a res \<Rightarrow> gw \<Rightarrow> bool" where
  "all_or_nothing f g r g' \<longleftrightarrow>
     (case r of
        Inr x \<Rightarrow> \<exists>now. g_db g' = f now (g_db g)
      | Inl e \<Rightarrow> (case e of HTTPException n m \<Rightarrow> 400 \<le> n \<and> g_db g' = g_db g
                  | PyError c m \<Rightarrow> g_db g' = g_db g \<or> (\<exists>now. g_db g' = f now (g_db g))
                  | _ \<Rightarrow> g_db g' = g_db g))"

lemma nothing_done [simp]:
  "g_db g' = g_db g \<Longrightarrow> all_or_nothing f g (Inl (PyError c m)) g'"
  "g_db g' = g_db g \<Longrightarrow> 400 \<le> n \<Longrightarrow> all_or_nothing f g (Inl (HTTPException n m)) g'"
  by (simp_all add: all_or_nothing_def)

lemma all_done: "g_db g' = f now (g_db g) \<Longrightarrow> all_or_nothing f g (Inr x) g'"
  by (auto simp: all_or_nothing_def)

lemma all_done_error: "g_db g' = f now (g_db g) \<Longrightarrow> all_or_nothing f g (Inl (PyError c m)) g'"
  by (auto simp: all_or_nothing_def)

lemmas refusals = refused_by_table_def null_in_column_def tool_missing_def

lemma patched_error: "patched now p t = Inl e \<Longrightarrow> \<exists>c. e = null_in_column c"
  by (auto simp: patched_def set_required_def split: option.splits)

lemma tool_out_error: "tool_out t = Inl e \<Longrightarrow> e = PyError ''ValidationError'' ''ToolOut''"
  by (simp add: tool_out_def split: if_splits)

lemma answer_row:
  assumes "g_db g' = f now (g_db g)"
  shows "all_or_nothing f g (bindE (tool_out row) (\<lambda>o'. Inr (h o'))) g'"
proof (cases "tool_out row")
  case (Inl e)
  with assms show ?thesis by (auto dest!: tool_out_error intro: all_done_error)
next
  case (Inr x)
  with assms show ?thesis by (auto intro: all_done)
qed

lemma mapE_error: "mapE f xs = Inl e \<Longrightarrow> \<exists>x \<in> set xs. f x = Inl e"
  by (induction xs) (auto simp: bindE_def split: sum.splits)

lemma rendered:
  assumes "\<And>x e. f x = Inl e \<Longrightarrow> \<exists>c m. e = PyError c m" and "g_db g' = g_db g"
  shows "all_or_nothing (\<lambda>now d. d) g (bindE (mapE f xs) (\<lambda>ys. Inr (h ys))) g'"
proof (cases "mapE f xs")
  case (Inl e)
  with assms(1) mapE_error [OF Inl] obtain c m where "e = PyError c m" by blast
  with Inl assms(2) show ?thesis by simp
next
  case (Inr ys)
  with assms(2) show ?thesis by (simp add: all_or_nothing_def)
qed

lemma list_tools_aon: "case list_tools w b g of (r, g') \<Rightarrow> all_or_nothing (\<lambda>now d. d) g r g'"
  by (cases rule: db_call_cases [of w "''SELECT tools''" g])
     (auto simp: list_tools_def dest!: tool_out_error intro!: rendered)

lemma list_grants_aon: "case list_grants w role tool g of (r, g') \<Rightarrow> all_or_nothing (\<lambda>now d. d) g r g'"
  by (cases rule: db_call_cases [of w "''SELECT tool_role_grants''" g])
     (auto simp: list_grants_def grant_pair_def split: if_splits intro!: rendered)

lemma upsert_tool_aon:
  "case upsert_tool w p g of (r, g') \<Rightarrow> all_or_nothing (\<lambda>now. admin_effect now (UpsertTool p)) g r g'"
proof -
  let ?now = "w_now w (g_trace g @ [EvNow])"
  obtain row d where u: "upsert_row ?now p (g_db g) = (row, d)" by fastforce
  show ?thesis
  proof (cases rule: db_call_cases [of w "''INSERT tools''" "emit EvNow g"])
    case (failed e m)
    then show ?thesis by (simp add: upsert_tool_def read_now_eq refusals)
  next
    case call: went
    show ?thesis
    proof (cases rule: commit_cases [of w d "emit (EvDb ''INSERT tools'') (emit EvNow g)"])
      case (failed e m)
      with call u show ?thesis by (simp add: upsert_tool_def read_now_eq refusals)
    next
      case committed: went
      with call u show ?thesis
        by (simp add: upsert_tool_def read_now_eq refusals del: admin_effect.simps)
           (auto intro!: answer_row [where now = ?now] simp: if_fits_def)
    qed
  qed
qed

lemma patch_tool_aon:
  "case patch_tool w name p g of (r, g') \<Rightarrow> all_or_nothing (\<lambda>now. admin_effect now (PatchTool name p)) g r g'"
proof -
  let ?g1 = "emit (EvDb ''SELECT tools'') g"
  let ?now = "w_now w (g_trace ?g1 @ [EvNow])"
  show ?thesis
  proof (cases rule: db_call_cases [of w "''SELECT tools''" g])
    case (failed e m)
    then show ?thesis by (simp add: patch_tool_def refusals)
  next
    case call: went
    show ?thesis
    proof (cases "find_tool (g_db g) name")
      case None
      with call show ?thesis by (simp add: patch_tool_def refusals)
    next
      case (Some t)
      show ?thesis
      proof (cases "nothing_sent p")
        case True
        with Some call show ?thesis by (simp add: patch_tool_def refusals)
      next
        case False
        show ?thesis
        proof (cases "patched ?now p t")
          case (Inl e)
          with False Some call patched_error [OF this] show ?thesis by (auto simp: patch_tool_def read_now_eq refusals)
        next
          case row: (Inr row)
          let ?d = "replace_tool row (g_db g)"
          have eff: "admin_effect ?now (PatchTool name p) (g_db g) = ?d" if "row_fits row"
            using Some row that by (simp add: at_tool_def if_fits_def)
          show ?thesis
          proof (cases rule: commit_cases [of w ?d "emit EvNow ?g1"])
            case (failed e m)
            with row False Some call show ?thesis by (simp add: patch_tool_def read_now_eq refusals)
          next
            case committed: went
            let ?g2 = "(emit (EvDb ''COMMIT'') (emit EvNow ?g1))\<lparr>g_db := ?d\<rparr>"
            show ?thesis
            proof (cases rule: db_call_cases [of w "''SELECT tools''" ?g2])
              case (failed e m)
              with committed row False Some call eff show ?thesis
                by (simp add: patch_tool_def read_now_eq refusals del: admin_effect.simps)
                   (auto intro!: all_done_error [where now = ?now] simp del: admin_effect.simps)
            next
              case again: went
              with committed row False Some call eff show ?thesis
                by (simp add: patch_tool_def read_now_eq refusals del: admin_effect.simps)
                   (auto intro!: answer_row [where now = ?now] simp del: admin_effect.simps)
            qed
          qed
        qed
      qed
    qed
  qed
qed

lemma delete_tool_aon:
  "case delete_tool w name hard g of (r, g') \<Rightarrow> all_or_nothing (\<lambda>now. admin_effect now (DeleteTool name hard)) g r g'"
proof -
  let ?g1 = "emit (EvDb ''SELECT tools'') g"
  let ?now = "w_now w (g_trace ?g1 @ [EvNow])"
  show ?thesis
  proof (cases rule: db_call_cases [of w "''SELECT tools''" g])
    case (failed e m)
    then show ?thesis by (simp add: delete_tool_def refusals)
  next
    case call: went
    show ?thesis
    proof (cases "find_tool (g_db g) name")
      case None
      with call show ?thesis by (simp add: delete_tool_def refusals)
    next
      case (Some t)
      show ?thesis
      proof (cases hard)
        case True
        let ?d = "remove_tool (t_id t) (g_db g)"
        show ?thesis
        proof (cases rule: db_call_cases [of w "''DELETE tools''" ?g1])
          case (failed e m)
          with True Some call show ?thesis by (simp add: delete_tool_def refusals)
        next
          case deleted: went
          with True Some call show ?thesis
            by (cases rule: commit_cases [of w ?d "emit (EvDb ''DELETE tools'') ?g1"])
               (auto simp: delete_tool_def at_tool_def all_or_nothing_def split: exn.split)
        qed
      next
        case False
        with Some call show ?thesis
          by (cases rule: commit_cases [of w "replace_tool (disabled ?now t) (g_db g)" "emit EvNow ?g1"])
             (auto simp: delete_tool_def at_tool_def if_fits_def read_now_eq refusals all_or_nothing_def split: exn.split)
      qed
    qed
  qed
qed

lemma change_grant_aon:
  fixes w :: world
  shows "case change_grant w name what f gw of (r, gw') \<Rightarrow>
    all_or_nothing (\<lambda>now d. at_tool name (\<lambda>t. f (t_id t) now d) d) gw r gw'"
proof -
  let ?g1 = "emit (EvDb ''SELECT tools'') gw"
  let ?now = "w_now w (g_trace ?g1 @ [EvNow])"
  show ?thesis
  proof (cases rule: db_call_cases [of w "''SELECT tools''" gw])
    case (failed e m)
    then show ?thesis by (simp add: change_grant_def resolve_tool_id_def refusals)
  next
    case call: went
    show ?thesis
    proof (cases "find_tool (g_db gw) name")
      case None
      with call show ?thesis by (simp add: change_grant_def resolve_tool_id_def refusals)
    next
      case (Some t)
      show ?thesis
      proof (cases rule: db_call_cases [of w what "emit EvNow ?g1"])
        case (failed e m)
        with Some call show ?thesis by (simp add: change_grant_def resolve_tool_id_def read_now_eq refusals)
      next
        case ran: went
        with Some call show ?thesis
          by (cases rule: commit_cases [of w "f (t_id t) ?now (g_db gw)" "emit (EvDb what) (emit EvNow ?g1)"])
             (auto simp: change_grant_def resolve_tool_id_def at_tool_def read_now_eq refusals all_or_nothing_def split: exn.split)
      qed
    qed
  qed
qed

lemma aon_reply: "all_or_nothing f g r g' \<Longrightarrow> all_or_nothing f g (bindE r (\<lambda>_. Inr x)) g'"
  by (cases r) (simp_all add: all_or_nothing_def)

lemma aon_andThen:
  "(case m of (r, g') \<Rightarrow> all_or_nothing f g r g') \<Longrightarrow>
     (case andThen m (\<lambda>_ g. (Inr x, g)) of (r, g') \<Rightarrow> all_or_nothing f g r g')"
  by (cases m; cases "fst m") (auto simp: all_or_nothing_def)

text \<open>The effect with its tables left out.\<close>

lemma admin_effect_functions:
  "admin_effect now (ListTools b) = (\<lambda>d. d)" "admin_effect now (ListGrants r k) = (\<lambda>d. d)"
  "admin_effect now (PutGrant role tool on) =
     (\<lambda>d. at_tool tool (\<lambda>t. role_rows (if on then insert_grant (t_id t) role now else delete_grant (t_id t) role) d) d)"
  "admin_effect now (DeleteGrant role tool) = (\<lambda>d. at_tool tool (\<lambda>t. role_rows (delete_grant (t_id t) role) d) d)"
  "admin_effect now (PutCustomerGrant code tool on) =
     (\<lambda>d. at_tool tool (\<lambda>t. customer_rows (if on then insert_grant (t_id t) code now else delete_grant (t_id t) code) d) d)"
  "admin_effect now (DeleteCustomerGrant code tool) = (\<lambda>d. at_tool tool (\<lambda>t. customer_rows (delete_grant (t_id t) code) d) d)"
  by (rule ext, simp)+

lemma admin_body_aon:
  "case admin_body w req g of (r, g') \<Rightarrow> all_or_nothing (\<lambda>now. admin_effect now req) g r g'"
proof (cases req)
  case (ListTools b)
  then show ?thesis using list_tools_aon [where w = w and b = b and g = g] by (simp add: split_def admin_effect_functions)
next
  case (UpsertTool p)
  then show ?thesis using upsert_tool_aon [where w = w and p = p and g = g] by (simp add: split_def admin_effect_functions)
next
  case (PatchTool name p)
  then show ?thesis using patch_tool_aon [where w = w and name = name and p = p and g = g] by (simp add: split_def admin_effect_functions)
next
  case (DeleteTool name hard)
  then show ?thesis using delete_tool_aon [where w = w and name = name and hard = hard and g = g] by (simp add: split_def admin_effect_functions)
next
  case (PutGrant role tool on)
  then show ?thesis
    using aon_andThen [OF change_grant_aon [where w = w and name = tool and what = "''INSERT tool_role_grants''" and f = "\<lambda>tid now. role_rows (insert_grant tid role now)" and gw = g]]
      aon_andThen [OF change_grant_aon [where w = w and name = tool and what = "''DELETE tool_role_grants''" and f = "\<lambda>tid now. role_rows (delete_grant tid role)" and gw = g]]
    by (cases on) (simp_all add: put_grant_def split_def admin_effect_functions)
next
  case (DeleteGrant role tool)
  then show ?thesis
    using aon_andThen [OF change_grant_aon [where w = w and name = tool and what = "''DELETE tool_role_grants''" and f = "\<lambda>tid now. role_rows (delete_grant tid role)" and gw = g]]
    by (simp add: delete_role_grant_def split_def admin_effect_functions)
next
  case (PutCustomerGrant code tool on)
  then show ?thesis
    using aon_andThen [OF change_grant_aon [where w = w and name = tool and what = "''INSERT tool_customer_grants''" and f = "\<lambda>tid now. customer_rows (insert_grant tid code now)" and gw = g]]
      aon_andThen [OF change_grant_aon [where w = w and name = tool and what = "''DELETE tool_customer_grants''" and f = "\<lambda>tid now. customer_rows (delete_grant tid code)" and gw = g]]
    by (cases on) (simp_all add: put_customer_grant_def split_def admin_effect_functions)
next
  case (DeleteCustomerGrant code tool)
  then show ?thesis
    using aon_andThen [OF change_grant_aon [where w = w and name = tool and what = "''DELETE tool_customer_grants''" and f = "\<lambda>tid now. customer_rows (delete_grant tid code)" and gw = g]]
    by (simp add: delete_customer_grant_def split_def admin_effect_functions)
next
  case (ListGrants role tool)
  then show ?thesis using list_grants_aon [where w = w and role = role and tool = tool and g = g] by (simp add: split_def admin_effect_functions)
next
  case (ListCustomerGrants code tool)
  then show ?thesis
    by (cases rule: db_call_cases [of w "''SELECT tool_customer_grants''" g])
       (auto simp: list_customer_grants_def all_or_nothing_def split: exn.split)
next
  case (QueryAudit q)
  then show ?thesis
    by (cases rule: db_call_cases [of w "''SELECT tool_audit_log''" g])
       (auto simp: query_audit_def refused_parameter_def all_or_nothing_def split: exn.split prod.split sum.split dest!: cursor_key_error)
qed

section \<open>The invariant of the tables\<close>

text \<open>
  The keys of \<open>wf_db\<close>, ids below their sequences, rows that fit their columns, and grants of tools
  that exist.
\<close>

definition db_ok :: "db \<Rightarrow> bool" where
  "db_ok d \<longleftrightarrow>
     wf_db d \<and> (\<forall>t \<in> set (db_tools d). t_id t < db_tool_seq d \<and> row_fits t) \<and>
     (\<forall>r \<in> set (db_role_grants d) \<union> set (db_customer_grants d). gr_tool r \<in> t_id ` set (db_tools d)) \<and>
     distinct (map a_id (db_audit d)) \<and> (\<forall>r \<in> set (db_audit d). a_id r < db_audit_seq d)"

lemma find_tool_Some: "find_tool d name = Some t \<Longrightarrow> t \<in> set (db_tools d) \<and> t_name t = name"
  by (auto simp: find_tool_def find_Some_iff)

lemma find_tool_None: "find_tool d name = None \<longleftrightarrow> name \<notin> t_name ` set (db_tools d)"
  by (auto simp: find_tool_def find_None_iff)

lemma replaced_ids:
  "t_id row \<in> t_id ` set ts \<Longrightarrow> map t_id (map (\<lambda>t. if t_id t = t_id row then row else t) ts) = map t_id ts"
  by (induction ts) auto

lemma replaced_names:
  assumes "distinct (map t_id ts)" "t \<in> set ts" "t_id t = t_id row" "t_name t = t_name row"
  shows "map t_name (map (\<lambda>t. if t_id t = t_id row then row else t) ts) = map t_name ts"
  using assms by (auto simp: distinct_map inj_on_def)

lemma replace_tool_ok:
  assumes "db_ok d" "t \<in> set (db_tools d)" "t_id row = t_id t" "t_name row = t_name t" "row_fits row"
  shows "db_ok (replace_tool row d)"
proof -
  have ids: "map t_id (db_tools (replace_tool row d)) = map t_id (db_tools d)"
    using replaced_ids [of row "db_tools d"] assms(2,3) by (simp add: replace_tool_def)
  have "map t_name (db_tools (replace_tool row d)) = map t_name (db_tools d)"
    using replaced_names [of "db_tools d" t row] assms by (simp add: replace_tool_def db_ok_def wf_db_def)
  moreover have "t_id ` set (db_tools (replace_tool row d)) = t_id ` set (db_tools d)"
    using ids by (metis list.set_map)
  moreover have "\<forall>x \<in> set (db_tools (replace_tool row d)). t_id x < db_tool_seq d \<and> row_fits x"
    using assms by (auto simp: replace_tool_def db_ok_def)
  ultimately show ?thesis
    using assms(1) ids by (simp add: db_ok_def wf_db_def) (simp add: replace_tool_def)
qed

lemma at_tool_ok:
  "db_ok d \<Longrightarrow> (\<And>t. t \<in> set (db_tools d) \<Longrightarrow> db_ok (f t)) \<Longrightarrow> db_ok (at_tool name f d)"
  using find_tool_Some [of d name] by (auto simp: at_tool_def split: option.split)

lemma grants_ok:
  assumes "db_ok d" "t \<in> set (db_tools d)"
  shows "db_ok (role_rows (insert_grant (t_id t) k now) d)" "db_ok (role_rows (delete_grant (t_id t) k) d)"
    "db_ok (customer_rows (insert_grant (t_id t) k now) d)" "db_ok (customer_rows (delete_grant (t_id t) k) d)"
  using assms role_grants.put_ok [of d "t_id t" k now] role_grants.del_ok [of d "t_id t" k]
    customer_grants.put_ok [of d "t_id t" k now] customer_grants.del_ok [of d "t_id t" k]
  by (auto simp: db_ok_def wf_db_def keys_distinct_def role_rows_def customer_rows_def)
     (auto simp: insert_grant_def delete_grant_def split: if_splits)

lemma remove_tool_ok: "db_ok d \<Longrightarrow> db_ok (remove_tool tid d)"
  by (auto simp: db_ok_def wf_db_def remove_tool_def distinct_map_filter)

lemma patched_keys: "patched now p t = Inr row \<Longrightarrow> t_id row = t_id t \<and> t_name row = t_name t"
  by (auto simp: patched_def set_required_def bindE_def split: option.splits sum.splits)

lemma more_ids_ok: "db_ok d \<Longrightarrow> db_ok (d\<lparr>db_tool_seq := db_tool_seq d + 1\<rparr>)"
  by (auto simp: db_ok_def wf_db_def)

lemma upsert_ok:
  assumes "db_ok d" and "row_fits (fst (upsert_row now p d))"
  shows "db_ok (snd (upsert_row now p d))"
proof (cases "find_tool d (up_name p)")
  case None
  then have "up_name p \<notin> t_name ` set (db_tools d)" by (simp add: find_tool_None)
  moreover have "db_tool_seq d \<notin> t_id ` set (db_tools d)" using assms(1) by (auto simp: db_ok_def)
  ultimately show ?thesis
    using assms None by (auto simp: upsert_row_def Let_def db_ok_def wf_db_def inserted_def)
next
  case (Some t)
  let ?d = "d\<lparr>db_tool_seq := db_tool_seq d + 1\<rparr>"
  have "db_ok (replace_tool (overwritten now p t) ?d)"
    by (rule replace_tool_ok [of _ t])
       (use assms Some find_tool_Some [OF Some] more_ids_ok in
         \<open>auto simp: upsert_row_def Let_def overwritten_def inserted_def\<close>)
  then show ?thesis using Some by (simp add: upsert_row_def Let_def)
qed

lemma disabled_ok:
  "db_ok d \<Longrightarrow> t \<in> set (db_tools d) \<Longrightarrow> db_ok (if_fits (disabled now t) (replace_tool (disabled now t) d) d)"
  by (auto simp: if_fits_def intro!: replace_tool_ok [of d t]) (simp_all add: disabled_def)

lemma admin_effect_ok:
  assumes "db_ok d"
  shows "db_ok (admin_effect now req d)"
proof (cases req)
  case (UpsertTool p)
  then show ?thesis using assms upsert_ok [OF assms] by (simp add: if_fits_def)
next
  case (PatchTool name p)
  then show ?thesis
    using assms
    by (auto simp: if_fits_def dest!: patched_keys intro: replace_tool_ok intro!: at_tool_ok split: sum.split)
next
  case (DeleteTool name hard)
  then show ?thesis
    using assms disabled_ok [OF assms] remove_tool_ok [OF assms] by (simp add: at_tool_ok)
qed (use assms grants_ok [OF assms] in \<open>simp_all add: at_tool_ok\<close>)

lemma admin_effect_audit: "db_audit (admin_effect now req d) = db_audit d \<and> db_audit_seq (admin_effect now req d) = db_audit_seq d"
  by (cases req)
     (simp_all add: at_tool_def if_fits_def upsert_row_def Let_def replace_tool_def remove_tool_def role_rows_def
        customer_rows_def split: option.split sum.split)

section \<open>What a request does to the registry\<close>

text \<open>The snapshot and the subscribers stay, or the registry refreshes at the end.\<close>

definition settled :: "world \<Rightarrow> gw \<Rightarrow> gw \<Rightarrow> bool" where
  "settled w g g' \<longleftrightarrow> g_cache g' = g_cache g \<or> (\<exists>g1. g_cache g1 = g_cache g \<and> g' = refresh_registry w g1)"

lemma settledI [simp]:
  "g_cache g' = g_cache g \<Longrightarrow> settled w g g'" "g_cache g1 = g_cache g \<Longrightarrow> settled w g (refresh_registry w g1)"
  by (auto simp: settled_def)

lemma commit_cache [simp]: "g_cache (snd (commit w d g)) = g_cache g"
  by (cases rule: commit_cases [of w d g]) simp_all

lemma andThen_settled:
  assumes "g_cache (snd m) = g_cache g" and "\<And>x g1. g_cache g1 = g_cache g \<Longrightarrow> settled w g (snd (f x g1))"
  shows "settled w g (snd (andThen m f))"
  using assms by (cases m; cases "fst m") auto

lemma snd_andThen_reply [simp]: "snd (andThen m (\<lambda>x g. (h x g, g))) = snd m"
  by (cases m; cases "fst m") auto

lemma change_grant_settled: "settled w g (snd (change_grant w name what f g))"
  unfolding change_grant_def resolve_tool_id_def read_now_eq
  by (auto intro!: andThen_settled)

lemma admin_body_settled: "settled w g (snd (admin_body w req g))"
proof (cases req)
  case (UpsertTool p)
  then show ?thesis
    by (auto simp: upsert_tool_def read_now_eq split: prod.split intro!: andThen_settled)
next
  case (PatchTool name p)
  then show ?thesis
    by (auto simp: patch_tool_def read_now_eq split: option.split sum.split intro!: andThen_settled)
next
  case (DeleteTool name hard)
  then show ?thesis
    by (auto simp: delete_tool_def read_now_eq split: option.split intro!: andThen_settled)
next
  case (PutGrant role tool on)
  then show ?thesis by (simp add: put_grant_def change_grant_settled)
next
  case (DeleteGrant role tool)
  then show ?thesis by (simp add: delete_role_grant_def change_grant_settled)
next
  case (PutCustomerGrant code tool on)
  then show ?thesis by (simp add: put_customer_grant_def change_grant_settled)
next
  case (DeleteCustomerGrant code tool)
  then show ?thesis by (simp add: delete_customer_grant_def change_grant_settled)
qed (auto simp: list_tools_def list_grants_def list_customer_grants_def query_audit_def split: prod.split sum.split intro!: andThen_settled)

text \<open>The invariant of the tables and of the registry.\<close>

definition gw_ok :: "gw \<Rightarrow> bool" where
  "gw_ok g \<longleftrightarrow> db_ok (g_db g) \<and> wf_cache (g_cache g) \<and> wf_subscribers (g_cache g)"

lemma force_refresh_ok: "gw_ok g \<Longrightarrow> gw_ok (snd (force_refresh w g))"
  using wf_cache_force_refresh [of g w] wf_subscribers_force_refresh [of g w]
  by (simp add: gw_ok_def db_ok_def)

lemma settled_ok:
  assumes "settled w g g'" and "gw_ok g" and "db_ok (g_db g')"
  shows "gw_ok g'"
proof (cases "g_cache g' = g_cache g")
  case True
  with assms show ?thesis by (simp add: gw_ok_def)
next
  case False
  with assms(1) obtain g1 where g1: "g_cache g1 = g_cache g" "g' = refresh_registry w g1"
    by (auto simp: settled_def)
  then have "gw_ok g1" using assms(2,3) by (simp add: gw_ok_def)
  then show ?thesis unfolding g1(2) refresh_registry_def by (rule force_refresh_ok)
qed

section \<open>A request as a whole\<close>

lemma admin_cases:
  obtains (stranger) e g1 where "authenticate w a header g = (Inl e, g1)" "admin w a header req g = (error_reply e, g1)"
  | (forbidden) ctx g1 where "authenticate w a header g = (Inr ctx, g1)" "''cloud_admin'' \<notin> set (roles ctx)"
      "admin w a header req g = (error_reply (HTTPException 403 (''role '' @ quoted ''cloud_admin'' @ '' required'')), g1)"
  | (invalid) ctx g1 where "authenticate w a header g = (Inr ctx, g1)" "''cloud_admin'' \<in> set (roles ctx)"
      "\<not> admin_valid req" "admin w a header req g = (Unprocessable, g1)"
  | (ran) ctx g1 r g2 where "authenticate w a header g = (Inr ctx, g1)" "''cloud_admin'' \<in> set (roles ctx)"
      "admin_valid req" "admin_body w req g1 = (r, g2)"
      "admin w a header req g = (case r of Inl e \<Rightarrow> error_reply e | Inr rep \<Rightarrow> rep, g2)"
proof -
  obtain ar g1 where au: "authenticate w a header g = (ar, g1)" by fastforce
  obtain r g2 where body: "admin_body w req g1 = (r, g2)" by fastforce
  show thesis
  proof (cases ar)
    case (Inl e)
    with au show thesis by (intro stranger [of e g1]) (simp_all add: admin_def admin_route_def admin_guard_def)
  next
    case (Inr ctx)
    consider "''cloud_admin'' \<notin> set (roles ctx)" | "''cloud_admin'' \<in> set (roles ctx)" "\<not> admin_valid req"
      | "''cloud_admin'' \<in> set (roles ctx)" "admin_valid req" by blast
    then show thesis
    proof cases
      case 1
      with Inr au show thesis
        by (intro forbidden [of ctx g1]) (simp_all add: admin_def admin_route_def admin_guard_def require_role_def)
    next
      case 2
      with Inr au show thesis
        by (intro invalid [of ctx g1]) (simp_all add: admin_def admin_route_def admin_guard_def require_role_def)
    next
      case 3
      with Inr au body show thesis
        by (intro ran [of ctx g1 r g2])
           (simp_all add: admin_def admin_route_def admin_guard_def require_role_def split: sum.split)
    qed
  qed
qed

lemma authenticate_tables: "authenticate w a header g = (r, g1) \<Longrightarrow> g_db g1 = g_db g \<and> g_cache g1 = g_cache g"
  using authenticate_frame [of g w a header] by (simp add: outside_only_def)

text \<open>A function answers with 200 and a body, or with 204.\<close>

definition answers :: "reply res \<times> 's \<Rightarrow> bool" where
  "answers m \<longleftrightarrow> (case fst m of Inl e \<Rightarrow> True | Inr rep \<Rightarrow> (\<exists>j. rep = JsonReply 200 j) \<or> rep = EmptyReply 204)"

lemma answers_simps [simp]:
  "answers (Inl e, g)" "answers (Inr (JsonReply 200 j), g)" "answers (Inr (EmptyReply 204), g)"
  "answers (bindE r (\<lambda>x. Inr (JsonReply 200 (h x))), g)"
  by (simp_all add: answers_def bindE_def split: sum.split)

lemma answers_andThen: "(\<And>x g. answers (f x g)) \<Longrightarrow> answers (andThen m f)"
  by (cases m; cases "fst m") auto

lemma admin_body_answers: "answers (admin_body w req g)"
  by (cases req)
     (auto simp: list_tools_def upsert_tool_def patch_tool_def delete_tool_def list_grants_def put_grant_def
        delete_role_grant_def list_customer_grants_def put_customer_grant_def delete_customer_grant_def query_audit_def
        read_now_eq split: prod.split sum.split option.split intro!: answers_andThen)

lemma admin_keeps_gw_ok:
  assumes "gw_ok g"
  shows "gw_ok (snd (admin w a header req g))"
proof (cases rule: admin_cases [of w a header g req])
  case (ran ctx g1 r g2)
  have same: "g_db g1 = g_db g" "g_cache g1 = g_cache g" using authenticate_tables [OF ran(1)] by simp_all
  have "g_db g2 = g_db g1 \<or> (\<exists>now. g_db g2 = admin_effect now req (g_db g1))"
    using admin_body_aon [where w = w and req = req and g = g1] ran(4)
    by (auto simp: all_or_nothing_def split: sum.splits exn.splits)
  then have "db_ok (g_db g2)" using admin_effect_ok assms same by (auto simp: gw_ok_def)
  moreover have "settled w g1 g2" using admin_body_settled [of w g1 req] ran(4) by simp
  ultimately have "gw_ok g2" using settled_ok assms same by (auto simp: gw_ok_def)
  then show ?thesis using ran(5) by simp
qed (use assms authenticate_tables in \<open>auto simp: gw_ok_def\<close>)

section \<open>Properties\<close>

text \<open>For examples: a world with the token of an administrator, and a request.\<close>

definition admin_claims :: "json dict" where
  "admin_claims = [(''sub'', JStr ''root''), (''roles'', JList [JStr ''cloud_admin''])]"

definition admin_world :: world where
  "admin_world = sample_world
     \<lparr>w_jwt_decode := (\<lambda>tok key _.
        if tok = ''root'' \<and> key = SecretKey ''dev-key'' then JoseOk admin_claims else JWTError ''bad signature''),
      w_jwt_unverified_claims := (\<lambda>tok. JoseOk admin_claims)\<rparr>"

definition admin_deps :: auth_deps where
  "admin_deps = projr (auth_deps_of both_settings)"

definition root_header :: "string option" where
  "root_header = Some ''Bearer root''"

definition root_grants :: admin_request where
  "root_grants = PutGrant ''cloud_ops'' ''echo'' True"

lemma root_known:
  obtains ctx g1 where "authenticate admin_world admin_deps root_header g = (Inr ctx, g1)"
    "''cloud_admin'' \<in> set (roles ctx)"
proof -
  let ?a = "projr (auth_deps_of both_settings)"
  have v: "verify admin_world (ad_settings ?a) (ad_mode ?a) ''root'' g = (Inr admin_claims, g)"
    unfolding both_deps
    by (simp add: verify_def verify_hs256_def looks_like_gongdan_customer_def admin_world_def admin_claims_def
        both_settings_def dev_settings_def default_settings_def jget_def)
  have bearer: "extract_bearer root_header = Some ''root''" unfolding root_header_def by code_simp
  have cl: "jget admin_claims ''sub'' = JStr ''root''" "''root'' \<noteq> []" "\<not> is_customer_claims admin_claims"
    "extract_customer_code admin_claims (ad_customer_claim ?a) = None"
    unfolding both_deps
    by (simp_all add: admin_claims_def jget_def is_customer_claims_def extract_customer_code_def code_claim_def)
  have rs: "normalize (jget admin_claims (rr_claim (ad_resolver ?a))) = [''cloud_admin'']"
    unfolding both_deps admin_claims_def by code_simp
  from authenticate_claim_roles [OF v bearer cl(1-3) _ cl(4)] rs show thesis
    using that unfolding admin_deps_def by auto
qed

lemma root_granted:
  obtains g' where "admin admin_world admin_deps root_header root_grants sample_gw =
      (JsonReply 200 (JObj [(''role'', JStr ''cloud_ops''), (''tool_name'', JStr ''echo''), (''granted'', JBool True)]), g')"
    "length (db_role_grants (g_db g')) = 2"
proof -
  obtain ctx g1 where known: "authenticate admin_world admin_deps root_header sample_gw = (Inr ctx, g1)"
    and role: "''cloud_admin'' \<in> set (roles ctx)"
    using root_known by blast
  have db: "g_db g1 = sample_db" using authenticate_tables [OF known] by (simp add: sample_gw_def)
  have up: "db_call admin_world what g = (Inr (), emit (EvDb what) g)" for what g
    by (simp add: db_call_def admin_world_def sample_world_def Let_def)
  have req: "admin_valid root_grants" unfolding root_grants_def by code_simp
  have find: "find_tool sample_db ''echo'' = Some sample_tool" "t_id sample_tool = 1" by code_simp+
  have rows: "db_role_grants sample_db = [\<lparr>gr_tool = 1, gr_key = ''dev'', gr_at = 0, gr_by = None\<rparr>]"
    by (simp add: sample_db_def)
  show thesis
    by (rule that [of "snd (admin admin_world admin_deps root_header root_grants sample_gw)"])
       (use req in \<open>simp_all add: admin_def admin_route_def admin_guard_def require_role_def known role root_grants_def
          put_grant_def change_grant_def resolve_tool_id_def read_now_eq up commit_def db find
          role_rows_def insert_grant_def rows prod_eq_iff\<close>)
qed

lemma sample_gw_ok: "gw_ok sample_gw"
  by code_simp

text \<open>
  The tables change, and the registry is refreshed, only for a request whose bearer token was
  accepted, whose caller has the role cloud_admin and which satisfies its schema.
\<close>

lemma admin_needs_role:
  assumes "admin w a header req g = (rep, g')" and "g_db g' \<noteq> g_db g \<or> g_cache g' \<noteq> g_cache g"
  shows "\<exists>ctx g1. authenticate w a header g = (Inr ctx, g1) \<and> ''cloud_admin'' \<in> set (roles ctx) \<and>
    extract_bearer header = Some (raw_token ctx) \<and>
    accepted w (ad_settings a) (ad_mode a) (raw_token ctx) g1 (claims ctx) \<and> admin_valid req"
proof (cases rule: admin_cases [of w a header g req])
  case (ran ctx g1 r g2)
  from authenticate_facts [OF ran(1)] ran show ?thesis by blast
qed (use assms authenticate_tables in auto)

lemma admin_needs_role_witness:
  "\<exists>ctx g1. authenticate admin_world admin_deps root_header sample_gw = (Inr ctx, g1) \<and> ''cloud_admin'' \<in> set (roles ctx)"
proof -
  show ?thesis
  proof (rule root_granted)
    fix g'
    assume run: "admin admin_world admin_deps root_header root_grants sample_gw =
      (JsonReply 200 (JObj [(''role'', JStr ''cloud_ops''), (''tool_name'', JStr ''echo''), (''granted'', JBool True)]), g')"
      and two: "length (db_role_grants (g_db g')) = 2"
    from two have "g_db g' \<noteq> g_db sample_gw" by (auto simp: sample_gw_def sample_db_def)
    with admin_needs_role [OF run] show ?thesis by blast
  qed
qed

text \<open>
  C30: for a known caller a request is all or nothing: an answer of success means that exactly the
  effect \<open>admin_effect\<close> took place at some moment, an answer of refusal that the tables are
  untouched, and a failure leaves one or the other.
\<close>

theorem admin_atomic:
  assumes "authenticate w a header g = (Inr ctx, g1)" and "admin w a header req g = (rep, g')"
  shows "case rep of
      JsonReply n j \<Rightarrow> if n = 200 then \<exists>now. g_db g' = admin_effect now req (g_db g) else 400 \<le> n \<and> g_db g' = g_db g
    | EmptyReply n \<Rightarrow> n = 204 \<and> (\<exists>now. g_db g' = admin_effect now req (g_db g))
    | ServerError e \<Rightarrow> g_db g' = g_db g \<or> (\<exists>now. g_db g' = admin_effect now req (g_db g))
    | _ \<Rightarrow> g_db g' = g_db g"
proof (cases rule: admin_cases [of w a header g req])
  case (ran ctx g1 r g2)
  have db: "g_db g1 = g_db g" using authenticate_tables [OF ran(1)] by simp
  have aon: "all_or_nothing (\<lambda>now. admin_effect now req) g1 r g2"
    using admin_body_aon [where w = w and req = req and g = g1] ran(4) by simp
  have eqs: "g' = g2" "rep = (case r of Inl e \<Rightarrow> error_reply e | Inr x \<Rightarrow> x)" using ran(5) assms(2) by simp_all
  show ?thesis
  proof (cases r)
    case (Inr x)
    then have "(\<exists>j. x = JsonReply 200 j) \<or> x = EmptyReply 204"
      using admin_body_answers [of w req g1] ran(4) by (simp add: answers_def)
    with aon Inr db show ?thesis by (auto simp: eqs all_or_nothing_def)
  next
    case (Inl e)
    show ?thesis
      using aon Inl db by (cases e) (auto simp: eqs all_or_nothing_def error_reply_def auth_error_handler_def)
  qed
qed (use assms authenticate_tables in \<open>simp_all add: error_reply_def\<close>)

lemma admin_atomic_witness:
  "\<exists>now. g_db (snd (admin admin_world admin_deps root_header root_grants sample_gw)) = admin_effect now root_grants (g_db sample_gw)"
proof -
  obtain ctx g1 where known: "authenticate admin_world admin_deps root_header sample_gw = (Inr ctx, g1)"
    using root_known by blast
  show ?thesis
    by (rule root_granted) (use admin_atomic [OF known] in fastforce)
qed

text \<open>
  C31: every request to the admin routes, whoever sends it and however it ends, leaves tables with
  unique keys, ids below their sequences, rows that fit their columns and grants of existing tools
  only, and a registry whose index agrees with its snapshot and whose queues are bounded.
\<close>

theorem admin_keeps_ok:
  assumes "gw_ok g"
  shows "gw_ok (snd (admin w a header req g))"
  using admin_keeps_gw_ok [OF assms] .

lemma admin_keeps_ok_witness: "gw_ok (snd (admin admin_world admin_deps root_header root_grants sample_gw))"
  by (rule admin_keeps_ok [OF sample_gw_ok])

end
