(* ===== verification/AdminEffects.thy ===== *)
theory AdminEffects
  imports Admin
begin

text \<open>
  What the changes of the admin routes mean for the principals: a grant or a revocation is seen by
  the next lookup, a recreated tool starts without grants, and a null configuration.
\<close>

section \<open>Changes take effect\<close>

text \<open>A database that answers.\<close>

definition db_up :: "world \<Rightarrow> bool" where
  "db_up w \<longleftrightarrow> (\<forall>t. w_db_error w t = None)"

lemma db_up_call [simp]: "db_up w \<Longrightarrow> db_call w what g = (Inr (), emit (EvDb what) g)"
  by (simp add: db_up_def db_call_def Let_def)

lemma db_up_commit [simp]: "db_up w \<Longrightarrow> commit w d g = (Inr (), (emit (EvDb ''COMMIT'') g)\<lparr>g_db := d\<rparr>)"
  by (simp add: commit_def)

lemma refresh_snapshot: "db_up w \<Longrightarrow> snapshot_of w (g_db g) (g_cache (refresh_registry w g))"
  by (cases rule: force_refresh_cases [of w g])
     (auto simp: refresh_registry_def force_refresh_def invalidate_and_reload_def cache_load_def registry_load_def
        snapshot_of_def broadcast_def Let_def split: prod.splits)

lemma refresh_up: "db_up w \<Longrightarrow> \<exists>g'. refresh_if_stale w g = (Inr (), g')"
  by (simp add: refresh_if_stale_def ensure_fresh_def cache_load_def registry_load_def Let_def split: prod.split)

lemma same_tool: "wf_db d \<Longrightarrow> t \<in> set (db_tools d) \<Longrightarrow> t' \<in> set (db_tools d) \<Longrightarrow> t_name t' = t_name t \<Longrightarrow> t' = t"
  by (simp add: wf_db_def distinct_map inj_on_def)

text \<open>Right after a refresh, a lookup answers from the present tables.\<close>

lemma find_after_refresh:
  assumes "db_up w" and "snapshot_of w (g_db g) (g_cache g)" and "wf_db (g_db g)"
    and "t \<in> set (db_tools (g_db g))" and "t_enabled t"
  shows "fst (find_authorized_for_principal w (t_name t) rs c g) =
    Inr (if granted (g_db g) rs c t then Some (from_model (g_db g) t) else None)"
proof -
  obtain g1 where "refresh_if_stale w g = (Inr (), g1)" using refresh_up [OF assms(1)] by blast
  then obtain res where res: "find_authorized_for_principal w (t_name t) rs c g = (Inr res, g1)"
    by (cases rule: list_cases [of w g rs c "t_name t"]) auto
  from find_from_tables [OF assms(2,3,3) res]
  have found: "res = Some v \<longleftrightarrow> v \<in> set (listing w (g_db g) rs c) \<and> v_name v = t_name t" for v by blast
  note only = same_tool [OF assms(3,4)]
  show ?thesis
  proof (cases "granted (g_db g) rs c t")
    case True
    then have "res = Some (from_model (g_db g) t)" using found assms(4,5) by (auto simp: in_listing)
    with True res show ?thesis by simp
  next
    case False
    have "res \<noteq> Some v" for v
    proof
      assume "res = Some v"
      then obtain t' where "t' \<in> set (db_tools (g_db g))" "granted (g_db g) rs c t'" "t_name t' = t_name t"
        using found by (auto simp: in_listing)
      with only False show False by blast
    qed
    then have "res = None" by (cases res) auto
    with False res show ?thesis by simp
  qed
qed

lemma find_tool_known:
  assumes "wf_db d" and "t \<in> set (db_tools d)"
  shows "find_tool d (t_name t) = Some t"
proof (cases "find_tool d (t_name t)")
  case None
  with assms(2) show ?thesis by (simp add: find_tool_None)
next
  case (Some t')
  with find_tool_Some [OF Some] same_tool [OF assms] show ?thesis by simp
qed

lemma change_grant_up:
  assumes "db_up w" and "wf_db (g_db gw)" and "t \<in> set (db_tools (g_db gw))"
  obtains now g1 where "change_grant w (t_name t) what f gw = (Inr (), refresh_registry w g1)"
    "g_db g1 = f (t_id t) now (g_db gw)" "g_cache g1 = g_cache gw"
proof -
  let ?g1 = "emit EvNow (emit (EvDb ''SELECT tools'') gw)"
  let ?d = "f (t_id t) (w_now w (g_trace ?g1)) (g_db gw)"
  let ?g2 = "(emit (EvDb ''COMMIT'') (emit (EvDb what) ?g1))\<lparr>g_db := ?d\<rparr>"
  have find: "find_tool (g_db gw) (t_name t) = Some t" by (rule find_tool_known [OF assms(2,3)])
  have "change_grant w (t_name t) what f gw = (Inr (), refresh_registry w ?g2)"
    by (simp add: change_grant_def resolve_tool_id_def read_now_eq db_up_call [OF assms(1)] db_up_commit [OF assms(1)] find)
  then show thesis by (rule that) simp_all
qed

text \<open>The two kinds of principals, with the request that changes a grant of theirs.\<close>

fun principal_of :: "admin_request \<Rightarrow> (string list \<times> string option) option" where
  "principal_of (PutGrant role tool on) = Some ([role], None)"
| "principal_of (DeleteGrant role tool) = Some ([role], None)"
| "principal_of (PutCustomerGrant code tool on) = Some ([], Some code)"
| "principal_of (DeleteCustomerGrant code tool) = Some ([], Some code)"
| "principal_of _ = None"

fun grants :: "admin_request \<Rightarrow> bool" where
  "grants (PutGrant role tool on) = on"
| "grants (PutCustomerGrant code tool on) = on"
| "grants _ = False"

fun tool_named :: "admin_request \<Rightarrow> string" where
  "tool_named (PutGrant role tool on) = tool"
| "tool_named (DeleteGrant role tool) = tool"
| "tool_named (PutCustomerGrant code tool on) = tool"
| "tool_named (DeleteCustomerGrant code tool) = tool"
| "tool_named _ = []"

lemma in_grants_of: "(tid, k) \<in> grants_of rows \<longleftrightarrow> (\<exists>r \<in> set rows. gr_tool r = tid \<and> gr_key r = k)"
  by (force simp: grants_of_def)

lemma granted_by_grants:
  "granted d [k] None t \<longleftrightarrow> (t_id t, k) \<in> grants_of (db_role_grants d)"
  "k \<noteq> [] \<Longrightarrow> granted d [] (Some k) t \<longleftrightarrow> (t_id t, k) \<in> grants_of (db_customer_grants d)"
  by (simp_all add: granted_def in_grants_of)

lemma granted_no_code [simp]: "\<not> granted d [] (Some []) t"
  by (simp add: granted_def)

lemma grant_request_up:
  assumes "db_up w" and "db_ok (g_db g)" and "t \<in> set (db_tools (g_db g))" and "tool_named req = t_name t"
    and "principal_of req = Some (rs, c)" and "admin_valid req"
  shows "\<exists>rep g1. admin_body w req g = (Inr rep, refresh_registry w g1) \<and> db_tools (g_db g1) = db_tools (g_db g) \<and>
    g_cache g1 = g_cache g \<and>
    (granted (g_db g1) rs c t \<longleftrightarrow> grants req)"
proof -
  have wf: "wf_db (g_db g)" using assms(2) by (simp add: db_ok_def)
  note up = change_grant_up [OF assms(1) wf assms(3)]
  have role: ?thesis if "admin_body w req g = andThen (change_grant w (t_name t) what
        (\<lambda>tid now. role_rows (if grants req then insert_grant tid k now else delete_grant tid k)) g) (\<lambda>_ g. (Inr rep, g))"
    "rs = [k]" "c = None" for what k rep
  proof -
    let ?f = "\<lambda>tid now. role_rows (if grants req then insert_grant tid k now else delete_grant tid k)"
    obtain now g1 where run: "change_grant w (t_name t) what ?f g = (Inr (), refresh_registry w g1)"
      and db: "g_db g1 = ?f (t_id t) now (g_db g)" and cache: "g_cache g1 = g_cache g"
      by (rule up)
    from run have "admin_body w req g = (Inr rep, refresh_registry w g1)" by (simp only: that(1) andThen_simps)
    moreover have "granted (g_db g1) rs c t \<longleftrightarrow> grants req"
      using role_grants.put_held [of "t_id t" k now "g_db g"] role_grants.del_held [of "t_id t" k "g_db g"]
      by (simp add: that(2,3) granted_by_grants db)
    moreover have "db_tools (g_db g1) = db_tools (g_db g)" by (simp add: db role_rows_def)
    ultimately show ?thesis using cache by blast
  qed
  have customer: ?thesis if "admin_body w req g = andThen (change_grant w (t_name t) what
        (\<lambda>tid now. customer_rows (if grants req then insert_grant tid k now else delete_grant tid k)) g) (\<lambda>_ g. (Inr rep, g))"
    "rs = []" "c = Some k" "grants req \<longrightarrow> k \<noteq> []" for what k rep
  proof -
    let ?f = "\<lambda>tid now. customer_rows (if grants req then insert_grant tid k now else delete_grant tid k)"
    obtain now g1 where run: "change_grant w (t_name t) what ?f g = (Inr (), refresh_registry w g1)"
      and db: "g_db g1 = ?f (t_id t) now (g_db g)" and cache: "g_cache g1 = g_cache g"
      by (rule up)
    from run have "admin_body w req g = (Inr rep, refresh_registry w g1)" by (simp only: that(1) andThen_simps)
    moreover have "granted (g_db g1) rs c t \<longleftrightarrow> grants req"
      using customer_grants.put_held [of "t_id t" k now "g_db g"] customer_grants.del_held [of "t_id t" k "g_db g"] that(4)
      by (cases "k = []") (auto simp: that(2,3) granted_by_grants granted_no_code db)
    moreover have "db_tools (g_db g1) = db_tools (g_db g)" by (simp add: db customer_rows_def)
    ultimately show ?thesis using cache by blast
  qed
  show ?thesis
  proof (cases req)
    case (PutGrant r tool on)
    with assms(4,5) show ?thesis by (cases on; intro role) (auto simp: put_grant_def)
  next
    case (DeleteGrant r tool)
    with assms(4,5) show ?thesis by (intro role) (auto simp: delete_role_grant_def)
  next
    case (PutCustomerGrant r tool on)
    with assms(4-6) show ?thesis
      by (cases on; intro customer) (auto simp: put_customer_grant_def valid_customer_put_def valid_customer_code_def)
  next
    case (DeleteCustomerGrant r tool)
    with assms(4,5) show ?thesis by (intro customer) (auto simp: delete_customer_grant_def)
  qed (use assms(5) in simp_all)
qed

text \<open>The whole request, by an administrator.\<close>

lemma grant_route_up:
  assumes "db_up w" and "gw_ok g" and "authenticate w a header g = (Inr ctx, g1)" and "''cloud_admin'' \<in> set (roles ctx)"
    and "admin_valid req" and "principal_of req = Some (rs, c)" and "t \<in> set (db_tools (g_db g))" and "t_enabled t"
    and "tool_named req = t_name t" and "admin w a header req g = (rep, g')"
  obtains g2 where "g' = refresh_registry w g2" "db_tools (g_db g2) = db_tools (g_db g)"
    "granted (g_db g2) rs c t \<longleftrightarrow> grants req" "g_cache g2 = g_cache g"
proof -
  have same: "g_db g1 = g_db g" "g_cache g1 = g_cache g" using authenticate_tables [OF assms(3)] by simp_all
  have ok: "db_ok (g_db g1)" and t: "t \<in> set (db_tools (g_db g1))" using assms(2,7) same by (simp_all add: gw_ok_def)
  obtain rep' g2 where body: "admin_body w req g1 = (Inr rep', refresh_registry w g2)"
    and facts: "db_tools (g_db g2) = db_tools (g_db g1)" "granted (g_db g2) rs c t \<longleftrightarrow> grants req" "g_cache g2 = g_cache g1"
    using grant_request_up [OF assms(1) ok t assms(9,6,5)] by blast
  have "g' = refresh_registry w g2"
    using assms(3-5,10) body by (simp add: admin_def admin_route_def admin_guard_def require_role_def)
  with facts same show thesis by (intro that [of g2]) simp_all
qed

lemma refresh_event:
  assumes "db_up w" and "n \<in> fst ` set (tc_subscribers (g_cache g))"
  shows "fst (take_event n (refresh_registry w g)) \<noteq> None"
proof (cases rule: force_refresh_cases [of w g])
  case (failed e g')
  then show ?thesis
    using assms(1) by (simp add: force_refresh_def invalidate_and_reload_def cache_load_def registry_load_def Let_def
        split: prod.splits)
next
  case (loaded g1)
  with assms(2) broadcast_event [of n "''tools_changed''" g1] show ?thesis by (simp add: refresh_registry_def)
qed

section \<open>Properties\<close>

text \<open>
  C28: a grant takes effect at once, and so does a revocation: when the database answers, the next
  call of the tool by that role, or by that customer, finds it after a grant and is refused after a
  revocation, whatever the snapshot was before.
\<close>

theorem grant_takes_effect:
  assumes "db_up w" and "gw_ok g" and "authenticate w a header g = (Inr ctx, g1)" and "''cloud_admin'' \<in> set (roles ctx)"
    and "admin_valid req" and "principal_of req = Some (rs, c)" and "t \<in> set (db_tools (g_db g))" and "t_enabled t"
    and "tool_named req = t_name t" and "admin w a header req g = (rep, g')"
  shows "fst (find_authorized_for_principal w (t_name t) rs c g') =
    Inr (if grants req then Some (from_model (g_db g') t) else None)"
proof -
  obtain g2 where g': "g' = refresh_registry w g2" and tools: "db_tools (g_db g2) = db_tools (g_db g)"
    and granted: "granted (g_db g2) rs c t \<longleftrightarrow> grants req"
    by (rule grant_route_up [OF assms])
  have db: "g_db g' = g_db g2" by (simp add: g')
  have "gw_ok g'" using admin_keeps_gw_ok [OF assms(2), of w a header req] assms(10) by simp
  then have "wf_db (g_db g')" by (simp add: gw_ok_def db_ok_def)
  moreover have "snapshot_of w (g_db g') (g_cache g')" unfolding db unfolding g' by (rule refresh_snapshot [OF assms(1)])
  ultimately show ?thesis
    using find_after_refresh [OF assms(1), of g' t rs c] tools assms(7,8) granted by (simp add: db)
qed

lemma sample_up: "db_up admin_world"
  by (simp add: db_up_def admin_world_def sample_world_def)

lemma grant_takes_effect_witness:
  "fst (find_authorized_for_principal admin_world ''echo'' [''cloud_ops''] None
     (snd (admin admin_world admin_deps root_header root_grants sample_gw))) \<noteq> Inr None"
proof -
  obtain ctx g1 where known: "authenticate admin_world admin_deps root_header sample_gw = (Inr ctx, g1)"
    and role: "''cloud_admin'' \<in> set (roles ctx)"
    using root_known by blast
  have req: "admin_valid root_grants" "principal_of root_grants = Some ([''cloud_ops''], None)"
    "sample_tool \<in> set (db_tools (g_db sample_gw))" "t_enabled sample_tool" "tool_named root_grants = t_name sample_tool"
    unfolding root_grants_def sample_gw_def sample_db_def by (code_simp, simp_all add: sample_tool_def)
  have names: "t_name sample_tool = ''echo''" "grants root_grants" by (simp_all add: sample_tool_def root_grants_def)
  from grant_takes_effect [OF sample_up sample_gw_ok known role req surjective_pairing] names(2)
  show ?thesis unfolding names(1) by simp
qed

lemma next_id_ungranted:
  "db_ok d \<Longrightarrow> \<forall>r \<in> set (db_role_grants d) \<union> set (db_customer_grants d). gr_tool r \<noteq> db_tool_seq d"
  unfolding db_ok_def by (metis imageE less_irrefl)

lemma upsert_new:
  "find_tool d (up_name p) = None \<Longrightarrow> row_fits (inserted (db_tool_seq d) now p) \<Longrightarrow>
    admin_effect now (UpsertTool p) d =
      d\<lparr>db_tool_seq := db_tool_seq d + 1, db_tools := db_tools d @ [inserted (db_tool_seq d) now p]\<rparr>"
  by (simp add: if_fits_def upsert_row_def Let_def)

text \<open>
  a tool that is deleted for good and created again under its name starts with no grants:
  nobody sees it, whatever the old tool was granted to.
\<close>

lemma recreated_tool_has_no_grants:
  assumes "db_ok d" and "row_fits (inserted (db_tool_seq d) now2 p)"
    and "d' = admin_effect now2 (UpsertTool p) (admin_effect now1 (DeleteTool (up_name p) True) d)"
  shows "\<exists>t \<in> set (db_tools d'). t_name t = up_name p \<and> t_enabled t = up_enabled p \<and> (\<forall>rs c. \<not> granted d' rs c t)"
proof -
  let ?d1 = "admin_effect now1 (DeleteTool (up_name p) True) d"
  let ?row = "inserted (db_tool_seq d) now2 p"
  have seq: "db_tool_seq ?d1 = db_tool_seq d" by (simp add: at_tool_def remove_tool_def split: option.split)
  have ok: "db_ok ?d1" by (rule admin_effect_ok [OF assms(1)])
  have gone: "find_tool ?d1 (up_name p) = None"
  proof (cases "find_tool d (up_name p)")
    case None
    then show ?thesis by (simp add: at_tool_def)
  next
    case (Some t)
    have "wf_db d" using assms(1) by (simp add: db_ok_def)
    then have "t' = t" if "t' \<in> set (db_tools d)" "t_name t' = up_name p" for t'
      using same_tool that find_tool_Some [OF Some] by auto
    then have "up_name p \<notin> t_name ` set (filter (\<lambda>t'. t_id t' \<noteq> t_id t) (db_tools d))" by auto
    then show ?thesis by (simp add: find_tool_None at_tool_def Some remove_tool_def)
  qed
  have d': "d' = ?d1\<lparr>db_tool_seq := db_tool_seq d + 1, db_tools := db_tools ?d1 @ [?row]\<rparr>"
    unfolding assms(3) by (rule upsert_new [OF gone, unfolded seq, OF assms(2)])
  have "\<forall>r \<in> set (db_role_grants d') \<union> set (db_customer_grants d'). gr_tool r \<noteq> db_tool_seq d"
    using next_id_ungranted [OF ok] unfolding seq by (simp add: d')
  then have "\<not> granted d' rs c ?row" for rs c
    by (auto simp: granted_def inserted_def split: option.split)
  then show ?thesis by (intro bexI [of _ ?row]) (simp_all add: d' inserted_def)
qed

definition echo_again :: tool_upsert where
  "echo_again =
     \<lparr>up_name = ''echo'', up_display_name = ''Echo'', up_description = ''New'', up_category = None,
      up_dispatcher = ''http_adapter'', up_config = [], up_auth_mode = ''service_key'', up_secret_env_name = None,
      up_auth_header = None, up_auth_prefix = [], up_input_schema = [], up_output_schema = None, up_enabled = True\<rparr>"

lemma patched_nulls: "patched now p t = Inr row \<Longrightarrow> t_config row = set_nullable (tp_config p) (t_config t)"
  unfolding patched_def by (auto simp: bindE_eq_Inr)

text \<open>
  a PATCH that sends null for the configuration is stored and answered with an error, and from
  then on the list of tools cannot be read any more.
\<close>

lemma patch_null_breaks_listing:
  assumes "db_up w" and "gw_ok g" and "authenticate w a header g = (Inr ctx, g1)" and "''cloud_admin'' \<in> set (roles ctx)"
    and "t \<in> set (db_tools (g_db g))" and "valid_patch p" and "tp_config p = Some None"
    and "patched now p t = Inr row" and "row_fits row" and "now = w_now w (g_trace g1 @ [EvDb ''SELECT tools'', EvNow])"
    and "admin w a header (PatchTool (t_name t) p) g = (rep, g')"
  shows "(\<exists>e. rep = ServerError e) \<and> row \<in> set (db_tools (g_db g')) \<and> t_config row = None \<and>
    (\<exists>e. fst (list_tools w True g') = Inl e)"
proof -
  have same: "g_db g1 = g_db g" using authenticate_tables [OF assms(3)] by simp
  have wf: "wf_db (g_db g)" using assms(2) by (simp add: gw_ok_def db_ok_def)
  have null: "t_config row = None" "t_id row = t_id t"
    using patched_nulls [OF assms(8)] patched_keys [OF assms(8)] assms(7) by (simp_all add: set_nullable_def)
  have sent: "\<not> nothing_sent p" using assms(7) by (simp add: nothing_sent_def)
  have refuse: "tool_out row = Inl (PyError ''ValidationError'' ''ToolOut'')" using null by (simp add: tool_out_def)
  have "rep = ServerError (PyError ''ValidationError'' ''ToolOut'') \<and> g_db g' = replace_tool row (g_db g)"
    using assms(1,3,4,6,8-11) same find_tool_known [OF wf assms(5)] sent refuse
    by (auto simp: admin_def admin_route_def admin_guard_def require_role_def patch_tool_def read_now_eq error_reply_def)
  then have rep: "rep = ServerError (PyError ''ValidationError'' ''ToolOut'')" and db: "g_db g' = replace_tool row (g_db g)"
    by simp_all
  have row: "row \<in> set (db_tools (g_db g'))" using assms(5) null(2) by (force simp: db replace_tool_def)
  have "\<not> (\<exists>ys. mapE tool_out xs = Inr ys)" if "row \<in> set xs" for xs
    using that refuse by (induction xs) (auto simp: bindE_def split: sum.splits)
  then have "\<exists>e. mapE tool_out (filter (\<lambda>t. True \<or> t_enabled t) (sort_key (tool_order w) (db_tools (g_db g')))) = Inl e"
    using row by (cases "mapE tool_out (sort_key (tool_order w) (db_tools (g_db g')))") auto
  then have "\<exists>e. fst (list_tools w True g') = Inl e" using assms(1) by (auto simp: list_tools_def)
  with rep row null show ?thesis by blast
qed

definition null_config :: tool_patch where
  "null_config =
     \<lparr>tp_display_name = None, tp_description = None, tp_category = None, tp_dispatcher = None, tp_config = Some None,
      tp_auth_mode = None, tp_secret_env_name = None, tp_auth_header = None, tp_auth_prefix = None,
      tp_input_schema = None, tp_output_schema = None, tp_enabled = None\<rparr>"

end
