(* ===== verification/Health.thy ===== *)
theory Health
  imports Transport
begin

text \<open>
  \<open>app/api/health.py\<close>: liveness and readiness. \<open>readyz\<close> asks the database and Redis, looks at the
  cached signing keys, repeats the production checks and scans the configuration of every tool;
  the lemmas say which state it calls ready.
\<close>

section \<open>The answer\<close>

definition healthz :: reply where
  "healthz = JsonReply 200 (JObj [(''status'', JStr ''ok'')])"

definition check_json :: "check \<Rightarrow> json" where
  "check_json c = JObj [(''ok'', JBool (c_ok c)), (''detail'', JStr (c_detail c)), (''name'', JStr (c_name c))]"

definition tool_check_json :: "tool_config_check \<Rightarrow> json" where
  "tool_check_json t =
     JObj [(''ok'', JBool (tcc_ok t)), (''issues'', JList (map JStr (tcc_issues t))), (''name'', JStr (tcc_tool_name t))]"

definition error_text :: "string \<Rightarrow> json" where
  "error_text t = JStr (''error: '' @ t)"

definition postgres_check :: "world \<Rightarrow> gw \<Rightarrow> json \<times> gw" where
  "postgres_check w g =
     (case db_call w ''SELECT 1'' g of
        (Inl e, g) \<Rightarrow> (error_text (exn_text e), g) | (Inr _, g) \<Rightarrow> (JStr ''ok'', g))"

definition redis_check :: "world \<Rightarrow> bool \<Rightarrow> gw \<Rightarrow> json \<times> gw" where
  "redis_check w has_redis g =
     (if has_redis
      then (let g = emit EvRedisPing g
            in (case w_redis_ok w (g_trace g) of None \<Rightarrow> JStr ''ok'' | Some t \<Rightarrow> error_text t, g))
      else (error_text ''not initialized'', g))"

definition jwks_check :: "settings \<Rightarrow> gw \<Rightarrow> json" where
  "jwks_check s g =
     (case g_jwks g of
        None \<Rightarrow> (if is_production s then error_text ''not configured'' else JStr ''n/a'')
      | Some c \<Rightarrow> (if jw_keys c \<noteq> [] then JStr ''ok'' else error_text ''no keys cached''))"

definition tools_check :: "world \<Rightarrow> settings \<Rightarrow> gw \<Rightarrow> json \<times> gw" where
  "tools_check w s g =
     (case andThen (refresh_if_stale w g) (\<lambda>_ g.
             (bindE (validate_tool_configs w (snapshot g) (is_production s)) (\<lambda>results. Inr (JObj
                [(''total'', JInt (int (length (snapshot g)))),
                 (''ok'', JInt (int (length (filter tcc_ok results)))),
                 (''issues'', JList (map tool_check_json (filter (\<lambda>t. \<not> tcc_ok t) results)))])), g)) of
        (Inl e, g) \<Rightarrow> (error_text (exn_text e), g) | (Inr v, g) \<Rightarrow> (v, g))"

text \<open>\<open>_all_ok\<close>: a text has to be ok or n/a, every item of a list ok, a dictionary without issues.\<close>

fun value_ok :: "json \<Rightarrow> bool" where
  "value_ok (JStr v) = (v \<in> {''ok'', ''n/a''})"
| "value_ok (JList items) = list_all (\<lambda>i. case i of JObj d \<Rightarrow> truthy (jget d ''ok'') | _ \<Rightarrow> True) items"
| "value_ok (JObj d) = (\<not> truthy (jget d ''issues''))"
| "value_ok v = True"

definition all_ok :: "json dict \<Rightarrow> bool" where
  "all_ok checks = list_all (\<lambda>kv. value_ok (snd kv)) checks"

definition readyz :: "world \<Rightarrow> settings \<Rightarrow> bool \<Rightarrow> gw \<Rightarrow> reply \<times> gw" where
  "readyz w s has_redis g =
     (case postgres_check w g of (postgres, g) \<Rightarrow>
      case redis_check w has_redis g of (redis, g) \<Rightarrow>
      case tools_check w s g of (tools, g') \<Rightarrow>
        (let checks = [(''postgres'', postgres), (''redis'', redis), (''jwks'', jwks_check s g)]
             @ (if is_production s
                then [(''production_env'', JList (map check_json (validate_production_settings s)))] else [])
             @ [(''tools'', tools)];
             ok = all_ok checks
         in (JsonReply (if ok then 200 else 503)
               (JObj [(''status'', JStr (if ok then ''ready'' else ''not_ready'')), (''checks'', JObj checks)]), g')))"

section \<open>What the checks look at\<close>

lemma error_text_not_ok [simp]: "\<not> value_ok (error_text t)"
  by (simp add: error_text_def)

lemma check_json_ok: "value_ok (JList (map check_json cs)) \<longleftrightarrow> list_all c_ok cs"
  by (simp add: list_all_iff check_json_def jget_def)

definition database_up :: "world \<Rightarrow> gw \<Rightarrow> bool" where
  "database_up w g \<longleftrightarrow> w_db_error w (g_trace g @ [EvDb ''SELECT 1'']) = None"

definition redis_up :: "world \<Rightarrow> gw \<Rightarrow> bool" where
  "redis_up w g \<longleftrightarrow> w_redis_ok w (g_trace g @ [EvDb ''SELECT 1'', EvRedisPing]) = None"

definition keys_cached :: "settings \<Rightarrow> gw \<Rightarrow> bool" where
  "keys_cached s g \<longleftrightarrow> (case g_jwks g of None \<Rightarrow> \<not> is_production s | Some c \<Rightarrow> jw_keys c \<noteq> [])"

lemma postgres_check_ok: "value_ok (fst (postgres_check w g)) \<longleftrightarrow> database_up w g"
  by (simp add: postgres_check_def database_up_def db_call_def Let_def split: option.split)

lemma postgres_check_state: "snd (postgres_check w g) = emit (EvDb ''SELECT 1'') g"
  by (simp add: postgres_check_def db_call_def Let_def split: option.split)

lemma redis_check_ok:
  "value_ok (fst (redis_check w has_redis (emit (EvDb ''SELECT 1'') g))) \<longleftrightarrow> has_redis \<and> redis_up w g"
  by (simp add: redis_check_def redis_up_def Let_def split: option.split)

lemma redis_check_state: "snd (redis_check w has_redis g) = (if has_redis then emit EvRedisPing g else g)"
  by (simp add: redis_check_def Let_def)

lemma jwks_check_ok: "value_ok (jwks_check s g) \<longleftrightarrow> keys_cached s g"
  by (simp add: jwks_check_def keys_cached_def split: option.split)

text \<open>A scan without issues finds every tool's configuration in order.\<close>

lemma scan_without_issues:
  "(\<exists>results. validate_tool_configs w vs strict = Inr results \<and> list_all tcc_ok results) \<longleftrightarrow>
     (\<forall>v \<in> set vs. tool_issues w strict v = Inr [])"
proof (induction vs)
  case (Cons v vs)
  show ?case
    using Cons.IH
    by (cases "tool_issues w strict v"; cases "validate_tool_configs w vs strict")
      (auto simp: validate_tool_configs_def)
qed (simp add: validate_tool_configs_def)

lemma tools_check_ok:
  "value_ok (fst (tools_check w s g)) \<longleftrightarrow>
     (case refresh_if_stale w g of
        (Inl e, g') \<Rightarrow> False
      | (Inr _, g') \<Rightarrow> \<forall>v \<in> set (snapshot g'). tool_issues w (is_production s) v = Inr [])"
proof (cases "refresh_if_stale w g")
  case (Pair r g')
  show ?thesis
  proof (cases r)
    case (Inr u)
    have "value_ok (fst (tools_check w s g)) \<longleftrightarrow>
        (\<exists>results. validate_tool_configs w (snapshot g') (is_production s) = Inr results \<and> list_all tcc_ok results)"
      by (cases "validate_tool_configs w (snapshot g') (is_production s)")
        (simp_all add: tools_check_def Pair Inr jget_def filter_empty_conv list_all_iff)
    then show ?thesis unfolding scan_without_issues by (simp add: Pair Inr)
  qed (simp add: tools_check_def Pair)
qed

lemma tools_check_state: "snd (tools_check w s g) = snd (refresh_if_stale w g)"
  by (cases "refresh_if_stale w g"; cases "fst (refresh_if_stale w g)")
     (simp_all add: tools_check_def split: sum.split prod.split)

text \<open>The state in which the tools are looked at.\<close>

definition asked :: "bool \<Rightarrow> gw \<Rightarrow> gw" where
  "asked has_redis g =
     (if has_redis then emit EvRedisPing (emit (EvDb ''SELECT 1'') g) else emit (EvDb ''SELECT 1'') g)"

lemma asked_simps [simp]: "g_jwks (asked r g) = g_jwks g" "g_db (asked r g) = g_db g" "registry_frame g (asked r g)"
proof -
  have "quiet g (emit EvRedisPing (emit (EvDb ''SELECT 1'') g))"
    by (rule quiet_trans [of _ "emit (EvDb ''SELECT 1'') g"]) simp_all
  then show "registry_frame g (asked r g)" by (simp add: asked_def registry_frame_def)
qed (simp_all add: asked_def)

lemma readyz_parts:
  obtains body where "readyz w s r g = (JsonReply (if
      database_up w g \<and> r \<and> redis_up w g \<and> keys_cached s g \<and>
      (is_production s \<longrightarrow> list_all c_ok (validate_production_settings s)) \<and>
      value_ok (fst (tools_check w s (asked r g))) then 200 else 503) body, snd (tools_check w s (asked r g)))"
proof -
  obtain p where p: "postgres_check w g = (p, emit (EvDb ''SELECT 1'') g)"
    using postgres_check_state [of w g] by (cases "postgres_check w g") simp
  obtain q where q: "redis_check w r (emit (EvDb ''SELECT 1'') g) = (q, asked r g)"
    using redis_check_state [of w r "emit (EvDb ''SELECT 1'') g"]
    by (cases "redis_check w r (emit (EvDb ''SELECT 1'') g)") (simp add: asked_def)
  obtain t g' where t: "tools_check w s (asked r g) = (t, g')" by fastforce
  have ok: "value_ok p \<longleftrightarrow> database_up w g" "value_ok q \<longleftrightarrow> r \<and> redis_up w g"
    "value_ok (jwks_check s (asked r g)) \<longleftrightarrow> keys_cached s g"
    using postgres_check_ok [of w g] redis_check_ok [of w r g] jwks_check_ok [of s "asked r g"] p q
    by (simp_all add: keys_cached_def)
  define checks where "checks = [(''postgres'', p), (''redis'', q), (''jwks'', jwks_check s (asked r g))]
      @ (if is_production s
         then [(''production_env'', JList (map check_json (validate_production_settings s)))] else [])
      @ [(''tools'', t)]"
  have sum: "all_ok checks \<longleftrightarrow> database_up w g \<and> r \<and> redis_up w g \<and> keys_cached s g \<and>
      (is_production s \<longrightarrow> list_all c_ok (validate_production_settings s)) \<and> value_ok t"
    unfolding checks_def all_ok_def
    by (cases "is_production s") (simp_all add: ok check_json_ok del: value_ok.simps)
  have "readyz w s r g = (JsonReply (if all_ok checks then 200 else 503)
      (JObj [(''status'', JStr (if all_ok checks then ''ready'' else ''not_ready'')), (''checks'', JObj checks)]), g')"
    unfolding readyz_def p q t prod.case Let_def checks_def ..
  then show thesis unfolding sum by (intro that) (simp only: t fst_conv snd_conv)
qed

section \<open>Properties\<close>

text \<open>
  the gateway reports ready exactly when the database answers, Redis is connected and answers,
  signing keys are cached (outside production the absence of a key server will do), the production
  checks pass if this is production, the tools can be read, and none of them has a configuration
  issue.
\<close>

lemma readyz_ready:
  "(\<exists>body. fst (readyz w s r g) = JsonReply 200 body) \<longleftrightarrow>
     database_up w g \<and> r \<and> redis_up w g \<and> keys_cached s g \<and>
     (is_production s \<longrightarrow> list_all c_ok (validate_production_settings s)) \<and>
     (case refresh_if_stale w (asked r g) of
        (Inl e, g') \<Rightarrow> False
      | (Inr _, g') \<Rightarrow> \<forall>v \<in> set (snapshot g'). tool_issues w (is_production s) v = Inr [])"
proof -
  have status: "(\<exists>b. JsonReply (if P then 200 else 503) body = JsonReply 200 b) \<longleftrightarrow> P" for P body by simp
  show ?thesis
    unfolding tools_check_ok [symmetric]
    by (rule readyz_parts [of w s r g]) (simp only: fst_conv status)
qed

text \<open>
  with a key server configured but no keys cached yet, as after every start, the gateway is not
  ready however often it is asked: \<open>readyz\<close> itself never fetches the keys, and sends no request.
\<close>

lemma readyz_cold_keys:
  assumes "g_jwks g = Some c" and "jw_keys c = []"
  shows "let after = ((\<lambda>g. snd (readyz w s r g)) ^^ n) g
    in (\<exists>body. fst (readyz w s r after) = JsonReply 503 body) \<and> g_jwks after = Some c \<and> requests g after = 0"
proof -
  let ?poll = "\<lambda>g. snd (readyz w s r g)"
  have frame: "registry_frame h (?poll h)" for h
    using refresh_frame [of "asked r h" w] registry_frame_trans [OF asked_simps(3)]
    by (rule_tac readyz_parts [of w s r h]) (simp add: tools_check_state)
  have all: "registry_frame g ((?poll ^^ n) g)"
  proof (induction n)
    case (Suc n)
    show ?case using registry_frame_trans [OF Suc frame] by simp
  qed simp
  then have "g_jwks ((?poll ^^ n) g) = Some c" "requests g ((?poll ^^ n) g) = 0"
    using assms(1) by (simp_all add: registry_frame_def quiet_requests)
  moreover have "\<exists>body. fst (readyz w s r h) = JsonReply 503 body" if "g_jwks h = Some c" for h
    using that assms(2) by (rule_tac readyz_parts [of w s r h]) (simp add: keys_cached_def)
  ultimately show ?thesis by (simp add: Let_def)
qed

end
