(* ===== verification/System.thy ===== *)
theory System
  imports AdminEffects Health
begin

text \<open>
  The application as a whole: \<open>lifespan\<close> and \<open>create_app\<close> of \<open>app/main.py\<close>. The state is that of
  the gateway and the open SSE sessions; a step is one request to a route, one turn of a stream, or
  a notification of the database. Requests follow each other; \<open>settings\<close> and what \<open>lifespan\<close>
  wired are constants. The lemmas say what a step may change.
\<close>

section \<open>Startup\<close>

record app =
  ap_sessions :: sse_sessions
  ap_gw :: gw

definition initial_gw :: "settings \<Rightarrow> db \<Rightarrow> gw" where
  "initial_gw s d =
     \<lparr>g_trace = [], g_db = d, g_cache = tool_cache_init (of_int (registry_cache_ttl_sec s)),
      g_jwks = (if some_text (jwks_url s)
                then Some (jwks_cache_init (the (jwks_url s)) (of_int (jwks_cache_ttl_sec s))
                             (of_int (jwks_refresh_cooldown_sec s)))
                else None),
      g_proxy_sessions = []\<rparr>"

text \<open>An exception of the first load is logged and dropped.\<close>

definition lifespan :: "world \<Rightarrow> settings \<Rightarrow> db \<Rightarrow> (auth_deps \<times> app) res" where
  "lifespan w s d =
     bindE (assert_production_ready s) (\<lambda>_.
     bindE (auth_deps_of s) (\<lambda>a.
       Inr (a, \<lparr>ap_sessions = [], ap_gw = snd (refresh_if_stale w (initial_gw s d))\<rparr>)))"

text \<open>\<open>_on_tools_changed\<close>: what a NOTIFY runs; an exception is logged and dropped.\<close>

definition on_tools_changed :: "world \<Rightarrow> gw \<Rightarrow> gw" where
  "on_tools_changed w g = snd (force_refresh w g)"

section \<open>Shutdown\<close>

text \<open>
  The \<open>finally\<close> block of \<open>lifespan\<close>: what is closed, in order, and whether an exception of that
  step is swallowed. The stop of the listener raises nothing. An exception that is not swallowed
  leaves the rest open.
\<close>

definition shutdown_steps :: "settings \<Rightarrow> (string \<times> bool) list" where
  "shutdown_steps s =
     [(''notify_listener'', True), (''http_adapter'', True), (''mcp_proxy'', True), (''daytona_sandbox'', True),
      (''http_client'', False), (''gongdan_client'', True)]
     @ (if some_text (jwks_url s) then [(''jwks_cache'', False)] else [])
     @ [(''casdoor'', False), (''redis'', True), (''engine'', False)]"

fun close_all :: "(string \<Rightarrow> bool) \<Rightarrow> (string \<times> bool) list \<Rightarrow> string list \<times> bool" where
  "close_all raises [] = ([], True)"
| "close_all raises ((n, swallowed) # steps) =
     (if raises n \<and> \<not> swallowed then ([n], False)
      else (case close_all raises steps of (tried, good) \<Rightarrow> (n # tried, good)))"

lemma close_all_complete:
  "snd (close_all raises steps) \<longleftrightarrow> (\<forall>st \<in> set steps. raises (fst st) \<longrightarrow> snd st)"
  "snd (close_all raises steps) \<Longrightarrow> fst (close_all raises steps) = map fst steps"
  by (induction raises steps rule: close_all.induct) (auto simp: prod.case_eq_if)

text \<open>The listener and the dispatchers are always closed; the database engine only if nothing before it raised.\<close>

lemma shutdown_reaches:
  "take 4 (fst (close_all raises (shutdown_steps s))) = [''notify_listener'', ''http_adapter'', ''mcp_proxy'', ''daytona_sandbox'']"
  "raises ''http_client'' \<Longrightarrow> ''engine'' \<notin> set (fst (close_all raises (shutdown_steps s)))"
  by (simp_all add: shutdown_steps_def split: prod.split)

section \<open>Steps\<close>

inductive step :: "world \<Rightarrow> settings \<Rightarrow> auth_deps \<Rightarrow> app \<Rightarrow> app \<Rightarrow> bool"
  for w :: world and s :: settings and a :: auth_deps where
  post: "mcp_post w s (build_dispatcher_registry w s) a header body (ap_gw x) = (rep, g') \<Longrightarrow>
    step w s a x (x\<lparr>ap_gw := g'\<rparr>)"
| stream_open: "stream_open w a header (ap_gw x) = (r, g') \<Longrightarrow> step w s a x (x\<lparr>ap_gw := g'\<rparr>)"
| stream_turn: "stream_next n (ap_gw x) = (e, g') \<Longrightarrow> step w s a x (x\<lparr>ap_gw := g'\<rparr>)"
| stream_close: "step w s a x (x\<lparr>ap_gw := stream_close n (ap_gw x)\<rparr>)"
| sse_open: "enable_mcp_sse s \<Longrightarrow> sse_open w a header (ap_sessions x) (ap_gw x) = (r, ss, g') \<Longrightarrow>
    step w s a x \<lparr>ap_sessions = ss, ap_gw = g'\<rparr>"
| sse_post: "enable_mcp_sse s \<Longrightarrow>
    sse_post w s (build_dispatcher_registry w s) sid body (ap_sessions x) (ap_gw x) = (rep, ss, g') \<Longrightarrow>
    step w s a x \<lparr>ap_sessions = ss, ap_gw = g'\<rparr>"
| sse_turn: "sse_next n (ap_sessions x) = (m, ss) \<Longrightarrow> step w s a x (x\<lparr>ap_sessions := ss\<rparr>)"
| sse_close: "step w s a x (x\<lparr>ap_sessions := sse_close n (ap_sessions x)\<rparr>)"
| administer: "admin w a header req (ap_gw x) = (rep, g') \<Longrightarrow> step w s a x (x\<lparr>ap_gw := g'\<rparr>)"
| notified: "step w s a x (x\<lparr>ap_gw := on_tools_changed w (ap_gw x)\<rparr>)"
| readiness: "readyz w s True (ap_gw x) = (rep, g') \<Longrightarrow> step w s a x (x\<lparr>ap_gw := g'\<rparr>)"

inductive_cases step_cases: "step w s a x y"

section \<open>What serving a message changes\<close>

text \<open>The audit log grows by rows of finished calls, and nothing else of the tables changes.\<close>

definition logged :: "db \<Rightarrow> db \<Rightarrow> bool" where
  "logged d d' \<longleftrightarrow>
     d'\<lparr>db_audit := [], db_audit_seq := 0\<rparr> = d\<lparr>db_audit := [], db_audit_seq := 0\<rparr> \<and>
     (\<exists>rows. db_audit d' = db_audit d @ rows \<and> (\<forall>r \<in> set rows. a_status r \<noteq> Allowed))"

definition served :: "gw \<Rightarrow> gw \<Rightarrow> bool" where
  "served g g' \<longleftrightarrow> logged (g_db g) (g_db g') \<and> (gw_ok g \<longrightarrow> gw_ok g')"

lemma logged_refl [simp]: "logged d d"
  by (simp add: logged_def)

lemma logged_trans: "logged d d' \<Longrightarrow> logged d' d'' \<Longrightarrow> logged d d''"
  unfolding logged_def by (metis (no_types, lifting) Un_iff append.assoc set_append)

lemma served_refl [simp]: "served g g"
  by (simp add: served_def)

lemma served_trans: "served g g' \<Longrightarrow> served g' g'' \<Longrightarrow> served g g''"
  using logged_trans by (auto simp: served_def)

lemma served_same: "g_db g' = g_db g \<Longrightarrow> g_cache g' = g_cache g \<Longrightarrow> served g g'"
  by (simp add: served_def gw_ok_def)

lemma served_audit:
  assumes "ae_status e \<noteq> Allowed"
  shows "served g (audit_log w e g)"
  unfolding audit_log_def
proof (cases rule: write_audit_cases [of w e g])
  case lost
  then show "served g (write_audit w e g)" by (simp add: served_same)
next
  case written
  let ?r = "audit_row_of e (w_now w (g_trace g @ [EvNow])) (db_audit_seq (g_db g))"
  have id: "a_id ?r = db_audit_seq (g_db g)" "a_status ?r \<noteq> Allowed" using assms by (simp_all add: audit_row_of_def)
  have "db_ok ((g_db g)\<lparr>db_audit := db_audit (g_db g) @ [?r], db_audit_seq := db_audit_seq (g_db g) + 1\<rparr>)"
    if "db_ok (g_db g)"
    using that id(1) by (auto simp: db_ok_def wf_db_def)
  then show "served g (write_audit w e g)"
    unfolding written(1) using id(2) by (simp add: served_def logged_def gw_ok_def append_audit_def)
qed

lemma served_refresh: "served g (snd (refresh_if_stale w g))"
proof -
  let ?g = "snd (refresh_if_stale w g)"
  have fr: "registry_frame g ?g" by (rule refresh_frame)
  then have "gw_ok g \<Longrightarrow> gw_ok ?g"
    using refresh_wf_cache [of g w] by (simp add: gw_ok_def registry_frame_def wf_subscribers_def db_ok_def)
  with fr show ?thesis by (simp add: served_def registry_frame_def)
qed

lemma served_force: "served g (snd (force_refresh w g))"
  using force_refresh_ok [of g w] by (simp add: served_def)

lemma served_andThen:
  assumes "served g (snd m)" and "\<And>x g1. m = (Inr x, g1) \<Longrightarrow> served g1 (snd (f x g1))"
  shows "served g (snd (andThen m f))"
  using assms served_trans by (cases m; cases "fst m") auto

lemma served_list: "served g (snd (list_for_principal w rs c g))"
  using served_refresh [of g w] by (cases rule: list_cases [of w g rs c "[]"]) simp_all

lemma served_find: "served g (snd (find_authorized_for_principal w n rs c g))"
  using served_refresh [of g w] by (cases rule: list_cases [of w g rs c n]) simp_all

lemma served_fail: "served g (snd (fail_call w t ctx name args started tool message code kind answer g))"
proof -
  obtain ms where "latency w started g = (ms, emit EvClock g)"
    using latency_state [of w started g] by (cases "latency w started g") simp
  then show ?thesis
    using served_audit [of "error_entry t ctx name args (v_id tool) message code kind ms" "emit EvClock g" w]
      served_trans [OF served_same [of "emit EvClock g" g]]
    by (simp add: fail_call_def error_entry_def call_entry_def)
qed

lemma served_dispatch:
  assumes "dispatcher d"
  shows "served g (snd (dispatch_call w d t ctx name args started tool i g))"
proof -
  let ?inv = "\<lparr>inv_tool = tool, inv_arguments = args, inv_auth = ctx, inv_trace_id = t\<rparr>"
  obtain out g1 where out: "d ?inv g = (out, g1)" by fastforce
  have 1: "served g g1"
    using dispatcher.invoke_db [OF assms, of ?inv g] dispatcher.invoke_cache [OF assms, of ?inv g] out
    by (simp add: served_same)
  show ?thesis
  proof (cases out)
    case (Inl e)
    with 1 served_trans [OF 1 served_fail] out show ?thesis by (cases e) (simp_all add: dispatch_call_def)
  next
    case (Inr result)
    obtain ms where ms: "latency w started g1 = (ms, emit EvClock g1)"
      using latency_state [of w started g1] by (cases "latency w started g1") simp
    have "served (emit EvClock g1) (audit_log w (ok_entry t ctx name args (v_id tool) ms) (emit EvClock g1))"
      by (rule served_audit) (simp add: ok_entry_def call_entry_def)
    moreover have "served g (emit EvClock g1)" by (rule served_trans [OF 1 served_same]) simp_all
    ultimately have "served g (audit_log w (ok_entry t ctx name args (v_id tool) ms) (emit EvClock g1))"
      by (rule served_trans [rotated])
    with Inr out ms show ?thesis by (simp add: dispatch_call_def)
  qed
qed

context backend
begin

lemma served_run: "served g (snd (run_call w ds t ctx name args started tool i g))"
  using served_dispatch [OF each]
  by (simp add: run_call_def served_fail split: schema_outcome.split option.split)

lemma served_authorized: "served g (snd (authorized_call w ds ctx name args i g))"
proof -
  obtain r g' where run: "authorized_call w ds ctx name args i g = (r, g')" by fastforce
  have find: "served g (snd (principal_tool w ctx name g))"
    by (rule served_trans [OF served_same served_find]) simp_all
  from run have "served g g'"
  proof (cases rule: authorized_call_cases)
    case (failed e)
    with find show ?thesis by simp
  next
    case (denied t g1)
    have "served g1 g'" unfolding denied(3) by (rule served_audit) (simp add: denied_entry_def call_entry_def)
    with find denied(1) show ?thesis by (auto intro: served_trans)
  next
    case (run t started tool g1)
    with find served_run [of g1 w t ctx name args started tool i] show ?thesis by (auto intro: served_trans)
  qed
  with run show ?thesis by simp
qed

lemma served_handle: "served g (snd (handle w s ds msg ctx g))"
proof (cases rule: handle_cases [of w s ds msg ctx g i name args])
  case (called d m)
  have "served g (snd (tools_call w ds ctx (request_id msg) p g))" for p
    using served_authorized by (simp add: tools_call_def Let_def split: sum.split json.split)
  then have "served g (snd (call_method w s ds ctx m (request_id msg) p g))" for p
    using served_list by (auto simp: call_method_def tools_list_def)
  then show ?thesis
    unfolding called(5) by (simp split: prod.split sum.split) (metis snd_conv)
qed simp_all

lemma served_batch: "served g (snd (handle_batch w s ds ctx msgs g))"
proof (induction msgs arbitrary: g)
  case (Cons m msgs)
  have "served g (snd (andThen (handle w s ds m ctx g) (\<lambda>r g.
      andThen (handle_batch w s ds ctx msgs g) (\<lambda>rs g. (Inr (case r of None \<Rightarrow> rs | Some a \<Rightarrow> a # rs), g)))))"
    by (rule served_andThen) (simp_all add: served_handle Cons.IH)
  then show ?case by simp
qed simp

lemma served_body: "served g (snd (post_body w s ds ctx body g))"
proof -
  have one: "served g (snd (case handle w s ds msg ctx g of (Inl e, g) \<Rightarrow> (error_reply e, g)
      | (Inr None, g) \<Rightarrow> (EmptyReply 204, g) | (Inr (Some resp), g) \<Rightarrow> (JsonReply 200 resp, g)))" for msg
    using served_handle [of g w s msg ctx] by (cases "handle w s ds msg ctx g") (simp split: sum.split option.split)
  have many: "served g (snd (case handle_batch w s ds ctx items g of (Inl e, g) \<Rightarrow> (error_reply e, g)
      | (Inr results, g) \<Rightarrow> (if results = [] then EmptyReply 204 else JsonReply 200 (JList results), g)))" for items
    using served_batch [of g w s ctx items] by (cases "handle_batch w s ds ctx items g") (simp split: sum.split)
  show ?thesis
    using one many by (simp add: post_body_def split: sum.split json.split)
qed

lemma served_post: "served g (snd (mcp_post w s ds a header body g))"
proof (cases "authenticate w a header g")
  case (Pair r g1)
  have "served g g1" using authenticate_tables [OF Pair] by (simp add: served_same)
  with Pair served_trans [OF this served_body] show ?thesis by (simp add: mcp_post_def split: sum.split)
qed

lemma served_sse_post: "served g (snd (snd (sse_post w s ds sid body ss g)))"
proof -
  have "served g (snd (snd (case handle w s ds msg ctx g of (Inl e, g) \<Rightarrow> (error_reply e, ss, g)
      | (Inr None, g) \<Rightarrow> (EmptyReply 202, ss, g) | (Inr (Some resp), g) \<Rightarrow> (EmptyReply 202, f resp, g))))" for msg ctx f
    using served_handle [of g w s msg ctx] by (cases "handle w s ds msg ctx g") (simp split: sum.split option.split)
  then show ?thesis by (simp add: sse_post_def Let_def split: option.split sum.split)
qed

end

lemma served_readyz: "served g (snd (readyz w s r g))"
proof -
  have "snd (readyz w s r g) = snd (refresh_if_stale w (asked r g))"
    using tools_check_state [of w s "asked r g"] postgres_check_state [of w g]
      redis_check_state [of w r "emit (EvDb ''SELECT 1'') g"]
    by (cases "postgres_check w g"; cases "redis_check w r (snd (postgres_check w g))"; cases "tools_check w s (asked r g)")
       (cases r; simp add: readyz_def asked_def Let_def)
  then show ?thesis
    using served_trans [OF served_same served_refresh, of "asked r g" g] by (simp add: asked_def)
qed

section \<open>Streams and sessions\<close>

lemma wf_cache_subscribers: "wf_cache (c\<lparr>tc_subscribers := q, tc_next_queue := n\<rparr>) = wf_cache c"
  "wf_cache (c\<lparr>tc_subscribers := q\<rparr>) = wf_cache c"
  by (simp_all add: wf_cache_def)

lemma served_subscribe: "served g (snd (subscribe g))"
  using wf_subscribers_subscribe [of g] by (simp add: served_def gw_ok_def subscribe_def Let_def wf_cache_subscribers)

lemma served_unsubscribe: "served g (unsubscribe n g)"
  using wf_subscribers_unsubscribe [of g n] by (simp add: served_def gw_ok_def unsubscribe_def wf_cache_subscribers)

lemma served_take_event: "served g (snd (take_event n g))"
  using wf_subscribers_take_event [of g n]
  by (auto simp: served_def gw_ok_def take_event_def wf_cache_subscribers split: option.split list.split)

lemma served_stream_next: "served g (snd (stream_next n g))"
  using served_take_event [of g n] served_trans [OF _ served_unsubscribe]
  by (cases "take_event n g") (simp add: stream_next_def split: option.split)

lemma served_stream_open: "served g (snd (stream_open w a header g))"
proof -
  have "served g (snd (authenticate w a header g))"
    using authenticate_tables [of w a header g] by (cases "authenticate w a header g") (simp add: served_same)
  then show ?thesis
    using served_subscribe unfolding stream_open_def by (auto intro!: served_andThen split: prod.split) (metis snd_conv)
qed

text \<open>A session belongs to someone who was authenticated, and its queue is bounded.\<close>

definition session_ok :: "world \<Rightarrow> auth_deps \<Rightarrow> sse_session \<Rightarrow> bool" where
  "session_ok w a x \<longleftrightarrow> wf_session x \<and> (\<exists>header g g'. authenticate w a header g = (Inr (ss_ctx x), g'))"

definition sessions_ok :: "world \<Rightarrow> auth_deps \<Rightarrow> sse_sessions \<Rightarrow> bool" where
  "sessions_ok w a ss \<longleftrightarrow> distinct (map fst ss) \<and> (\<forall>x \<in> snd ` set ss. session_ok w a x)"

lemma sessions_ok_update:
  assumes "sessions_ok w a ss" and "session_ok w a x"
  shows "sessions_ok w a (AList.update sid x ss)"
proof -
  have "snd ` set (AList.update sid x ss) \<subseteq> insert x (snd ` set ss)"
    by (induction ss) auto
  then show ?thesis using assms distinct_update [of ss sid x] unfolding sessions_ok_def by blast
qed

lemma sessions_ok_delete: "sessions_ok w a ss \<Longrightarrow> sessions_ok w a (AList.delete sid ss)"
  using distinct_delete [of ss sid] by (auto simp: sessions_ok_def AList.delete_eq)

lemma sessions_ok_find: "sessions_ok w a ss \<Longrightarrow> map_of ss sid = Some x \<Longrightarrow> session_ok w a x"
  by (auto simp: sessions_ok_def dest!: map_of_SomeD)

lemma sse_open_cases:
  obtains (refused) e g1 where "authenticate w a header g = (Inl e, g1)" "sse_open w a header ss g = (Inl e, ss, g1)"
  | (opened) ctx g1 sid ep where "authenticate w a header g = (Inr ctx, g1)"
      "sse_open w a header ss g = (Inr (sid, ep),
         AList.update sid \<lparr>ss_ctx = ctx, ss_queue = [], ss_waiting = []\<rparr> ss, emit EvUuid g1)"
proof (cases "authenticate w a header g")
  case (Pair out g1)
  obtain u where "new_uuid w g1 = (u, emit EvUuid g1)"
    using new_uuid_frame [of w g1] by (cases "new_uuid w g1") simp
  with Pair show thesis
    by (cases out) (simp_all add: sse_open_def Let_def refused opened)
qed

lemma served_sse_open: "served g (snd (snd (sse_open w a header ss g)))"
proof (cases rule: sse_open_cases [of w a header g ss])
  case (refused e g1)
  then show ?thesis using authenticate_tables [OF refused(1)] by (simp add: served_same)
next
  case (opened ctx g1 sid ep)
  then show ?thesis using authenticate_tables [OF opened(1)] by (simp add: served_same)
qed

lemma sse_open_sessions:
  assumes "sessions_ok w a ss"
  shows "sessions_ok w a (fst (snd (sse_open w a header ss g)))"
proof (cases rule: sse_open_cases [of w a header g ss])
  case (opened ctx g1 sid ep)
  then have "session_ok w a \<lparr>ss_ctx = ctx, ss_queue = [], ss_waiting = []\<rparr>"
    by (auto simp: session_ok_def wf_session_def)
  then show ?thesis using opened sessions_ok_update [OF assms] by simp
qed (use assms in simp)

lemma sse_post_sessions:
  assumes "sessions_ok w a ss"
  shows "sessions_ok w a (fst (snd (sse_post w s ds sid body ss g)))"
proof -
  have "session_ok w a (push m x)" if "session_ok w a x" for m x
    using that session.put_ok [of x m] by (auto simp: session_ok_def push_def)
  then show ?thesis
    using assms sessions_ok_find [OF assms] sessions_ok_update [OF assms]
    by (simp add: sse_post_def Let_def split: option.split sum.split prod.split)
qed

lemma sse_next_sessions:
  assumes "sessions_ok w a ss"
  shows "sessions_ok w a (snd (sse_next sid ss))"
proof -
  have "session_ok w a x'" if "session_ok w a x" "pull x = Some (m, x')" for x m x'
    using that pull_Some [of x m x'] by (auto simp: session_ok_def)
  then show ?thesis
    using assms sessions_ok_find [OF assms] sessions_ok_update [OF assms]
    by (fastforce simp: sse_next_def split: option.split)
qed

section \<open>What a step changes\<close>

text \<open>A step is an admin request, or it serves.\<close>

lemma step_served:
  assumes "step w s a x y"
  obtains (administered) header req where "ap_gw y = snd (admin w a header req (ap_gw x))" "ap_sessions y = ap_sessions x"
  | (other) "served (ap_gw x) (ap_gw y)"
  using assms
proof cases
  case (post header body rep g')
  then show thesis using other gateway.served_post [of "ap_gw x" w s w s a header body] by simp
next
  case (stream_open header r g')
  then show thesis using other served_stream_open [of "ap_gw x" w a header] by simp
next
  case (stream_turn n e g')
  then show thesis using other served_stream_next [of "ap_gw x" n] by simp
next
  case (stream_close n)
  then show thesis using other served_unsubscribe [of "ap_gw x" n] by (simp add: stream_close_def)
next
  case (sse_open header r ss g')
  then show thesis using other served_sse_open [of "ap_gw x" w a header "ap_sessions x"] by simp
next
  case (sse_post sid body rep ss g')
  then show thesis using other gateway.served_sse_post [of "ap_gw x" w s w s sid body "ap_sessions x"] by simp
next
  case (administer header req rep g')
  then show thesis using administered [of header req] by simp
next
  case notified
  then show thesis using other served_force [of "ap_gw x" w] by (simp add: on_tools_changed_def)
next
  case (readiness rep g')
  then show thesis using other served_readyz [of "ap_gw x" w s True] by simp
qed (use other in simp_all)

lemma admin_audit:
  "db_audit (g_db (snd (admin w a header req g))) = db_audit (g_db g)"
proof (cases rule: admin_cases [of w a header g req])
  case (ran ctx g1 r g2)
  have "g_db g2 = g_db g1 \<or> (\<exists>now. g_db g2 = admin_effect now req (g_db g1))"
    using admin_body_aon [where w = w and req = req and g = g1] ran(4)
    by (auto simp: all_or_nothing_def split: sum.splits exn.splits)
  then have "db_audit (g_db g2) = db_audit (g_db g1)" using admin_effect_audit by auto
  then show ?thesis using ran authenticate_tables [OF ran(1)] by simp
qed (use authenticate_tables in auto)

lemma step_sessions:
  assumes "step w s a x y" and "sessions_ok w a (ap_sessions x)"
  shows "sessions_ok w a (ap_sessions y)"
  using assms(1)
proof cases
  case (sse_open header r ss g')
  then show ?thesis using sse_open_sessions [OF assms(2), of header "ap_gw x"] by simp
next
  case (sse_post sid body rep ss g')
  then show ?thesis using sse_post_sessions [OF assms(2), of s "build_dispatcher_registry w s" sid body "ap_gw x"] by simp
next
  case (sse_turn n m ss)
  then show ?thesis using sse_next_sessions [OF assms(2), of n] by simp
next
  case (sse_close n)
  then show ?thesis using sessions_ok_delete [OF assms(2)] by (simp add: sse_close_def)
qed (use assms(2) in simp_all)

text \<open>The invariant of the application.\<close>

definition app_ok :: "world \<Rightarrow> auth_deps \<Rightarrow> app \<Rightarrow> bool" where
  "app_ok w a x \<longleftrightarrow> gw_ok (ap_gw x) \<and> sessions_ok w a (ap_sessions x)"

lemma step_ok:
  assumes "step w s a x y" and "app_ok w a x"
  shows "app_ok w a y"
proof -
  have ok: "gw_ok (ap_gw x)" using assms(2) by (simp add: app_ok_def)
  have "gw_ok (ap_gw y)"
    using assms(1) by (cases rule: step_served) (use ok admin_keeps_gw_ok in \<open>simp_all add: served_def\<close>)
  then show ?thesis using step_sessions [OF assms(1)] assms(2) by (simp add: app_ok_def)
qed

lemma lifespan_ok:
  assumes "lifespan w s d = Inr (a, x)" and "db_ok d"
  shows "app_ok w a x \<and> g_db (ap_gw x) = d"
proof -
  have "gw_ok (initial_gw s d)"
    using assms(2) by (simp add: gw_ok_def initial_gw_def tool_cache_init_def wf_cache_def wf_subscribers_def)
  moreover have "x = \<lparr>ap_sessions = [], ap_gw = snd (refresh_if_stale w (initial_gw s d))\<rparr>"
    using assms(1) by (auto simp: lifespan_def bindE_eq_Inr)
  moreover have "g_db (snd (refresh_if_stale w (initial_gw s d))) = d"
    using refresh_frame [of "initial_gw s d" w] by (simp add: registry_frame_def initial_gw_def)
  ultimately show ?thesis
    using served_refresh [of "initial_gw s d" w] by (simp add: app_ok_def served_def sessions_ok_def)
qed

end
