(* ===== verification/AuditPages.thy ===== *)
theory AuditPages
  imports AdminAudit
begin

text \<open>
  What a client reads that follows the cursors of \<open>app/admin/audit.py\<close> while calls go on and the audit
  log grows: one request per table of a list, each with the cursor text of the answer before it.
\<close>

section \<open>Following the cursors\<close>

fun follow_cursors :: "audit_query \<Rightarrow> audit_row list list \<Rightarrow> (audit_row list list \<times> string option) res" where
  "follow_cursors q [] = Inr ([], aq_cursor q)"
| "follow_cursors q (table # tables) =
     bindE (query_page q table) (\<lambda>(page, next_cursor).
       case next_cursor of
         None \<Rightarrow> Inr ([page], None)
       | Some c \<Rightarrow> bindE (follow_cursors (q\<lparr>aq_cursor := Some c\<rparr>) tables) (\<lambda>(ps, c). Inr (page # ps, c)))"

text \<open>The same over keys.\<close>

fun read_pages :: "audit_query \<Rightarrow> page_key option \<Rightarrow> audit_row list list \<Rightarrow> audit_row list list \<times> page_key option" where
  "read_pages q k [] = ([], k)"
| "read_pages q k (table # tables) =
     (case audit_page q k table of
        (page, None) \<Rightarrow> ([page], None)
      | (page, Some k) \<Rightarrow> (case read_pages q (Some k) tables of (ps, k) \<Rightarrow> (page # ps, k)))"

section \<open>One page\<close>

lemma beyond_less: "beyond (Some k) r \<longleftrightarrow> row_key r < k"
  by (simp add: beyond_def row_key_def less_page_key_def)

text \<open>Rows with distinct ids have distinct keys, so the order is strict.\<close>

definition strictly_newest :: "audit_row list \<Rightarrow> bool" where
  "strictly_newest xs \<longleftrightarrow> sorted_wrt (\<lambda>a b. row_key b < row_key a) xs"

lemma newest_first_strict:
  assumes "distinct (map a_id rows)"
  shows "strictly_newest (newest_first rows)"
proof -
  have "inj_on row_key (set rows)"
    using assms by (auto simp: row_key_def inj_on_def distinct_map)
  moreover have "distinct rows" using assms by (simp add: distinct_map)
  ultimately have "distinct (map row_key (sort_key row_key rows))"
    by (simp add: distinct_map)
  then have "sorted_wrt (<) (map row_key (sort_key row_key rows))"
    by (simp add: strict_sorted_iff)
  then show ?thesis
    by (simp add: strictly_newest_def newest_first_def sorted_wrt_rev sorted_wrt_map)
qed

lemma strictly_newest_distinct: "strictly_newest xs \<Longrightarrow> distinct xs"
  by (induction xs) (auto simp: strictly_newest_def)

lemma strictly_newest_filter: "strictly_newest xs \<Longrightarrow> strictly_newest (filter P xs)"
  by (simp add: strictly_newest_def sorted_wrt_filter)

lemma strictly_newest_append:
  "strictly_newest (xs @ ys) \<longleftrightarrow> strictly_newest xs \<and> strictly_newest ys \<and> (\<forall>a \<in> set xs. \<forall>b \<in> set ys. row_key b < row_key a)"
  by (simp add: strictly_newest_def sorted_wrt_append)

text \<open>Such a list is determined by its rows.\<close>

lemma strictly_newest_unique:
  "strictly_newest xs \<Longrightarrow> strictly_newest ys \<Longrightarrow> set xs = set ys \<Longrightarrow> xs = ys"
proof (induction xs arbitrary: ys)
  case (Cons x xs)
  then obtain y ys' where ys: "ys = y # ys'" by (cases ys) auto
  have "x = y"
  proof (rule ccontr)
    assume "x \<noteq> y"
    then have "x \<in> set ys'" "y \<in> set xs" using Cons.prems(3) ys by auto
    then have "row_key x < row_key y" "row_key y < row_key x"
      using Cons.prems(1,2) ys by (auto simp: strictly_newest_def)
    then show False by simp
  qed
  have "x \<notin> set xs" "y \<notin> set ys'"
    using Cons.prems(1,2) ys by (auto simp: strictly_newest_def)
  then have "set xs = set ys'" using Cons.prems(3) ys \<open>x = y\<close> by auto
  then show ?case
    using Cons.IH [of ys'] Cons.prems(1,2) ys \<open>x = y\<close> by (simp add: strictly_newest_def)
qed simp

text \<open>A page is the front of the rows that remain; with a cursor to go on when there are more.\<close>

definition remaining :: "audit_query \<Rightarrow> page_key option \<Rightarrow> audit_row list \<Rightarrow> audit_row list" where
  "remaining q k table = newest_first (filter (\<lambda>r. selects q r \<and> beyond k r) table)"

lemma set_newest_first [simp]: "set (newest_first rows) = set rows"
  by (simp add: newest_first_def)

lemma set_remaining: "set (remaining q k table) = {r \<in> set table. selects q r \<and> beyond k r}"
  by (auto simp: remaining_def)

lemma remaining_strict: "distinct (map a_id table) \<Longrightarrow> strictly_newest (remaining q k table)"
  unfolding remaining_def by (intro newest_first_strict) (simp add: distinct_map_filter)

lemma audit_page_eq:
  assumes "1 \<le> aq_limit q"
  shows "audit_page q k table = (take (nat (aq_limit q)) (remaining q k table),
    if length (remaining q k table) > nat (aq_limit q)
    then Some (row_key (last (take (nat (aq_limit q)) (remaining q k table)))) else None)"
proof -
  have "0 < nat (aq_limit q)" using assms by simp
  then show ?thesis
    unfolding audit_page_def remaining_def [symmetric] Let_def
    by (auto simp: min_def)
qed

text \<open>Where a page is cut: its last row is in it, and it holds exactly the rows that are not older.\<close>

lemma page_cut:
  assumes "strictly_newest xs" and "0 < n" and "n \<le> length xs"
  shows "last (take n xs) \<in> set xs"
    and "set (take n xs) = {r \<in> set xs. row_key (last (take n xs)) \<le> row_key r}"
proof -
  obtain ys z where t: "take n xs = ys @ [z]"
    using assms(2,3) by (cases "take n xs" rule: rev_cases) auto
  have parts: "xs = (ys @ [z]) @ drop n xs" using append_take_drop_id [of n xs] t by simp
  then have sets: "set xs = set (take n xs) \<union> set (drop n xs)" using t by (metis set_append)
  then show "last (take n xs) \<in> set xs" using t by simp
  have "strictly_newest ((ys @ [z]) @ drop n xs)" using assms(1) parts by simp
  then have older: "\<forall>b \<in> set (drop n xs). row_key b < row_key z" and newer: "\<forall>a \<in> set (take n xs). row_key z \<le> row_key a"
    using t by (auto simp: strictly_newest_append strictly_newest_def sorted_wrt_append)
  then show "set (take n xs) = {r \<in> set xs. row_key (last (take n xs)) \<le> row_key r}"
    using sets t by (auto simp: not_less [symmetric])
qed

section \<open>All pages\<close>

definition growing :: "audit_row list list \<Rightarrow> bool" where
  "growing tables \<longleftrightarrow> sorted_wrt (\<lambda>s t. set s \<subseteq> set t) tables"

lemma growing_hd: "growing tables \<Longrightarrow> t \<in> set tables \<Longrightarrow> set (hd tables) \<subseteq> set t"
  by (cases tables) (auto simp: growing_def)

lemma growing_last: "growing tables \<Longrightarrow> t \<in> set tables \<Longrightarrow> set t \<subseteq> set (last tables)"
  by (cases tables rule: rev_cases) (auto simp: growing_def sorted_wrt_append)

definition distinct_ids :: "audit_row list \<Rightarrow> bool" where
  "distinct_ids table \<longleftrightarrow> distinct (map a_id table)"

lemma fewer_remain:
  assumes "distinct_ids final" and "r \<in> set (remaining q k final)" and "\<And>x. row_key x < row_key r \<Longrightarrow> beyond k x"
  shows "length (remaining q (Some (row_key r)) final) < length (remaining q k final)"
proof -
  have "set (remaining q (Some (row_key r)) final) \<subset> set (remaining q k final)"
    using assms(2,3) by (auto simp: set_remaining beyond_less)
  then have "card (set (remaining q (Some (row_key r)) final)) < card (set (remaining q k final))"
    by (intro psubset_card_mono) simp_all
  then show ?thesis
    using remaining_strict assms(1) strictly_newest_distinct by (simp add: distinct_card distinct_ids_def)
qed

text \<open>The pages from a key on, for the rows of a table that was there from the start.\<close>

lemma read_pages_all:
  assumes "1 \<le> aq_limit q" and "distinct_ids final"
  shows "\<forall>t \<in> set tables. distinct_ids t \<and> set start \<subseteq> set t \<and> set t \<subseteq> set final \<Longrightarrow>
    length (remaining q k final) < length tables \<Longrightarrow>
    \<exists>pages. read_pages q k tables = (pages, None) \<and> strictly_newest (concat pages) \<and>
      set (concat pages) \<subseteq> set (remaining q k final) \<and>
      {r \<in> set (concat pages). r \<in> set start} = set (remaining q k start) \<and>
      (\<forall>p \<in> set pages. length p \<le> nat (aq_limit q))"
proof (induction tables arbitrary: k)
  case (Cons t ts)
  let ?l = "nat (aq_limit q)" and ?R = "remaining q k t"
  have t: "distinct_ids t" "set start \<subseteq> set t" "set t \<subseteq> set final" using Cons.prems(1) by simp_all
  have strict: "strictly_newest ?R" using t(1) by (simp add: remaining_strict distinct_ids_def)
  show ?case
  proof (cases "?l < length ?R")
    case False
    have "{r \<in> set ?R. r \<in> set start} = set (remaining q k start)" using t(2) by (auto simp: set_remaining)
    moreover have "set ?R \<subseteq> set (remaining q k final)" using t(3) by (auto simp: set_remaining)
    ultimately show ?thesis
      using False strict by (simp add: audit_page_eq [OF assms(1)])
  next
    case True
    define z where "z = last (take ?l ?R)"
    have cut: "z \<in> set ?R" "set (take ?l ?R) = {r \<in> set ?R. row_key z \<le> row_key r}"
      unfolding z_def using page_cut [OF strict, of ?l] assms(1) True by simp_all
    have z: "beyond k x" if "row_key x < row_key z" for x
      using that cut(1) by (cases k) (auto simp: set_remaining beyond_less intro: less_trans, simp add: beyond_def)
    have "z \<in> set (remaining q k final)" using cut(1) t(3) by (auto simp: set_remaining)
    from fewer_remain [OF assms(2) this z] have "length (remaining q (Some (row_key z)) final) < length ts"
      using Cons.prems(2) by simp
    then obtain ps where ps: "read_pages q (Some (row_key z)) ts = (ps, None)" "strictly_newest (concat ps)"
      "set (concat ps) \<subseteq> set (remaining q (Some (row_key z)) final)"
      "{r \<in> set (concat ps). r \<in> set start} = set (remaining q (Some (row_key z)) start)"
      "\<forall>p \<in> set ps. length p \<le> ?l"
      using Cons.IH [of "Some (row_key z)"] Cons.prems(1) by auto
    have older: "row_key b < row_key z" if "b \<in> set (concat ps)" for b
      using that ps(3) by (auto simp: set_remaining beyond_less)
    have "strictly_newest (take ?l ?R @ concat ps)"
      unfolding strictly_newest_append
    proof (intro conjI ballI)
      show "strictly_newest (take ?l ?R)" using strict by (simp add: strictly_newest_def sorted_wrt_take)
      fix a b assume "a \<in> set (take ?l ?R)" "b \<in> set (concat ps)"
      with cut(2) older [of b] show "row_key b < row_key a" by (auto intro: less_le_trans)
    qed (rule ps(2))
    moreover have "set (take ?l ?R @ concat ps) \<subseteq> set (remaining q k final)"
      using cut(2) t(3) z ps(3) by (auto simp: set_remaining beyond_less)
    moreover have "{r \<in> set (take ?l ?R @ concat ps). r \<in> set start} = set (remaining q k start)"
    proof -
      have "{r \<in> set (take ?l ?R @ concat ps). r \<in> set start} =
          {r \<in> set (take ?l ?R). r \<in> set start} \<union> {r \<in> set (concat ps). r \<in> set start}" by auto
      also have "\<dots> = {r \<in> set start. selects q r \<and> beyond k r \<and> row_key z \<le> row_key r} \<union>
          {r \<in> set start. selects q r \<and> row_key r < row_key z}"
        unfolding ps(4) cut(2) using t(2) by (auto simp: set_remaining beyond_less)
      also have "\<dots> = set (remaining q k start)" using z by (auto simp: set_remaining not_less)
      finally show ?thesis .
    qed
    moreover have "read_pages q k (t # ts) = (take ?l ?R # ps, None)"
      using True ps(1) by (simp add: audit_page_eq [OF assms(1)] z_def)
    ultimately show ?thesis using ps(5) by (intro exI [of _ "take ?l ?R # ps"]) simp
  qed
qed simp

section \<open>Cursors as text\<close>

text \<open>A row since 1970 with an id of 64 bits: the text of its key is read back as the key.\<close>

definition storable :: "audit_row \<Rightarrow> bool" where
  "storable r \<longleftrightarrow> 0 \<le> a_started_at r \<and> a_started_at r < end_of_time \<and> fits_int64 (a_id r)"

lemma cursor_key_text: "storable r \<Longrightarrow> cursor_key (Some (cursor_text (row_key r))) = Inr (Some (row_key r))"
proof -
  assume "storable r"
  then have reads: "decode_cursor (cursor_text (row_key r)) = Some (a_started_at r, a_id r)"
    by (simp add: cursor_text_def row_key_def storable_def cursor_roundtrip)
  have "decode_cursor [] = None" by code_simp
  with reads have "cursor_text (row_key r) \<noteq> []" by force
  with reads show ?thesis by (simp add: cursor_key_def row_key_def)
qed

lemma audit_page_key:
  assumes "audit_page q k table = (page, Some k')"
  shows "\<exists>r \<in> set table. k' = row_key r"
proof -
  have "page \<noteq> []" and "k' = row_key (last page)" and "set page \<subseteq> set table"
    using assms by (auto simp: audit_page_def newest_first_def Let_def split: if_splits dest!: in_set_takeD)
  then show ?thesis using last_in_set by blast
qed

lemma selects_cursor [simp]: "selects (q\<lparr>aq_cursor := c\<rparr>) = selects q"
  by (simp add: selects_def [abs_def])

lemma audit_page_cursor: "audit_page (q\<lparr>aq_cursor := c\<rparr>) k table = audit_page q k table"
  by (simp add: audit_page_def)

lemma read_pages_cursor: "read_pages (q\<lparr>aq_cursor := c\<rparr>) k tables = read_pages q k tables"
  by (induction tables arbitrary: k) (simp_all add: audit_page_cursor)

text \<open>The texts lead through the same pages as the keys.\<close>

lemma follow_cursors_read:
  "\<forall>t \<in> set tables. \<forall>r \<in> set t. storable r \<Longrightarrow> tables \<noteq> [] \<Longrightarrow>
    cursor_key (aq_cursor q) = Inr k \<Longrightarrow> query_fits q k \<Longrightarrow> read_pages q k tables = (pages, None) \<Longrightarrow>
    follow_cursors q tables = Inr (pages, None)"
proof (induction tables arbitrary: q k pages)
  case (Cons t ts)
  obtain page next' where page: "audit_page q k t = (page, next')" by fastforce
  show ?case
  proof (cases next')
    case None
    with Cons.prems page show ?thesis by (simp add: query_page_def)
  next
    case (Some k')
    then obtain r where r: "r \<in> set t" "k' = row_key r" using audit_page_key page by blast
    then have key: "cursor_key (Some (cursor_text k')) = Inr (Some k')" using Cons.prems(1) by (simp add: cursor_key_text)
    have fits: "query_fits (q\<lparr>aq_cursor := Some (cursor_text k')\<rparr>) (Some k')"
      using Cons.prems(1,4) r by (simp add: query_fits_def storable_def row_key_def)
    obtain ps where ps: "read_pages q (Some k') ts = (ps, None)" "pages = page # ps"
      using Cons.prems(5) page Some by (auto split: prod.splits)
    then have "ts \<noteq> []" by auto
    then have "follow_cursors (q\<lparr>aq_cursor := Some (cursor_text k')\<rparr>) ts = Inr (ps, None)"
      using Cons.prems(1) by (intro Cons.IH [where k = "Some k'"]) (simp_all add: key fits read_pages_cursor ps(1))
    then show ?thesis
      using Cons.prems(3,4) page Some ps(2) by (simp add: query_page_def)
  qed
qed simp

section \<open>Properties\<close>

text \<open>
  C32: a client that follows the cursor texts of the audit query comes to an end, also while the log
  grows, once it has made more requests than there are rows. Its pages are newest first, hold no row
  twice and only rows that match the filters, none is longer than the limit, and of the rows that
  were there at the first request they hold exactly those that match.
\<close>

theorem audit_pages_complete:
  assumes "valid_query q" and "aq_cursor q = None" and "query_fits q None"
    and "tables \<noteq> []" and "growing tables" and "length (last tables) < length tables"
    and "\<forall>t \<in> set tables. distinct_ids t" and "\<forall>t \<in> set tables. \<forall>r \<in> set t. storable r"
  shows "\<exists>pages. follow_cursors q tables = Inr (pages, None) \<and>
    strictly_newest (concat pages) \<and> distinct (concat pages) \<and>
    set (concat pages) \<subseteq> set (filter (selects q) (last tables)) \<and>
    filter (\<lambda>r. r \<in> set (hd tables)) (concat pages) = newest_first (filter (selects q) (hd tables)) \<and>
    (\<forall>p \<in> set pages. int (length p) \<le> aq_limit q)"
proof -
  have limit: "1 \<le> aq_limit q" using assms(1) by (simp add: valid_query_def)
  have ids: "distinct_ids (hd tables)" "distinct_ids (last tables)" using assms(4,7) by simp_all
  have between: "set (hd tables) \<subseteq> set t \<and> set t \<subseteq> set (last tables)" if "t \<in> set tables" for t
    using that assms(5) growing_hd growing_last by blast
  have from_start: "remaining q None t = newest_first (filter (selects q) t)" for t
    by (simp add: remaining_def beyond_def)
  have "length (remaining q None (last tables)) < length tables"
    using assms(6) by (simp add: from_start newest_first_def less_le_trans [OF le_less_trans [OF length_filter_le]])
  with read_pages_all [OF limit ids(2), of tables "hd tables" None] assms(7) between obtain pages where
    pages: "read_pages q None tables = (pages, None)" "strictly_newest (concat pages)"
      "set (concat pages) \<subseteq> set (remaining q None (last tables))"
      "{r \<in> set (concat pages). r \<in> set (hd tables)} = set (remaining q None (hd tables))"
      "\<forall>p \<in> set pages. length p \<le> nat (aq_limit q)" by blast
  have "follow_cursors q tables = Inr (pages, None)"
    by (rule follow_cursors_read [OF assms(8,4) _ assms(3) pages(1)]) (simp add: cursor_key_def assms(2))
  moreover have "filter (\<lambda>r. r \<in> set (hd tables)) (concat pages) = newest_first (filter (selects q) (hd tables))"
  proof (rule strictly_newest_unique)
    show "strictly_newest (newest_first (filter (selects q) (hd tables)))"
      using ids(1) by (intro newest_first_strict) (simp add: distinct_ids_def distinct_map_filter)
    show "set (filter (\<lambda>r. r \<in> set (hd tables)) (concat pages)) = set (newest_first (filter (selects q) (hd tables)))"
      using pages(4) by (simp only: set_filter from_start)
  qed (rule strictly_newest_filter [OF pages(2)])
  moreover have "\<forall>p \<in> set pages. int (length p) \<le> aq_limit q" using pages(5) limit by (simp add: le_nat_iff)
  ultimately show ?thesis
    using pages(2,3) strictly_newest_distinct [OF pages(2)] by (auto simp: from_start)
qed

definition sample_audit :: "int \<Rightarrow> int \<Rightarrow> audit_row" where
  "sample_audit i t =
     \<lparr>a_id = i, a_trace_id = ''t'', a_user_id = ''u1'', a_user_email = JNull, a_roles = [], a_tool_name = ''echo'',
      a_tool_id = None, a_arguments = JNull, a_sensitive_fields_hit = [], a_status = Ok, a_deny_reason = None,
      a_error_message = None, a_error_code = None, a_error_kind = None, a_latency_ms = None, a_started_at = t,
      a_finished_at = t\<rparr>"

definition all_audit :: audit_query where
  "all_audit =
     \<lparr>aq_user_id = None, aq_tool_name = None, aq_outcome = None, aq_from = None, aq_to = None,
      aq_trace_id = None, aq_cursor = None, aq_limit = 1\<rparr>"

lemma audit_pages_complete_witness:
  "\<exists>pages. follow_cursors all_audit
       ([sample_audit 1 5, sample_audit 2 9, sample_audit 3 5] #
        replicate 4 [sample_audit 1 5, sample_audit 2 9, sample_audit 3 5, sample_audit 4 7]) = Inr (pages, None) \<and>
     filter (\<lambda>r. a_id r < 4) (concat pages) = [sample_audit 2 9, sample_audit 3 5, sample_audit 1 5]"
proof -
  let ?s = "[sample_audit 1 5, sample_audit 2 9, sample_audit 3 5]" and ?t = "[sample_audit 1 5, sample_audit 2 9, sample_audit 3 5, sample_audit 4 7]"
  let ?ts = "?s # replicate 4 ?t"
  have q: "valid_query all_audit" "aq_cursor all_audit = None" "query_fits all_audit None"
    by (simp_all add: valid_query_def all_audit_def MAX_LIMIT_def query_fits_def)
  have last: "last ?ts = ?t" by (simp add: numeral_eq_Suc)
  have ts: "?ts \<noteq> []" "growing ?ts" "length (last ?ts) < length ?ts" "\<forall>t \<in> set ?ts. distinct_ids t"
    "\<forall>t \<in> set ?ts. \<forall>r \<in> set t. storable r"
    unfolding last
    by (auto simp: growing_def distinct_ids_def storable_def sample_audit_def end_of_time_def fits_int64_def numeral_eq_Suc)
  have first: "newest_first (filter (selects all_audit) ?s) = [sample_audit 2 9, sample_audit 3 5, sample_audit 1 5]"
    by code_simp
  from audit_pages_complete [OF q ts] obtain pages where
    pages: "follow_cursors all_audit ?ts = Inr (pages, None)" "set (concat pages) \<subseteq> set (filter (selects all_audit) ?t)"
      "filter (\<lambda>r. r \<in> set ?s) (concat pages) = [sample_audit 2 9, sample_audit 3 5, sample_audit 1 5]"
    unfolding last list.sel first by blast
  have rows: "x \<in> set ?t" if "x \<in> set (concat pages)" for x
    using subset_trans [OF pages(2) filter_is_subset] that by (rule subsetD)
  have "filter (\<lambda>r. a_id r < 4) (concat pages) = filter (\<lambda>r. r \<in> set ?s) (concat pages)"
  proof (rule filter_cong [OF refl])
    fix x assume "x \<in> set (concat pages)"
    then have "x \<in> set ?t" by (rule rows)
    then show "a_id x < 4 \<longleftrightarrow> x \<in> set ?s" by (auto simp: sample_audit_def)
  qed
  then have "filter (\<lambda>r. a_id r < 4) (concat pages) = [sample_audit 2 9, sample_audit 3 5, sample_audit 1 5]"
    unfolding pages(3) .
  with pages(1) show ?thesis by blast
qed

end
