(* ===== verification/Importer.thy ===== *)
theory Importer
  imports PyJsonRound
begin

text \<open>
  \<open>scripts/import_cloudcost_tools.py\<close>: a JSON description of tools is validated and turned into the
  SQL that registers them. The SQL is a text; the lemmas say which descriptions are let through, what
  the statements contain, and how the quoted values in them read. Case folding is that of ASCII.
\<close>

section \<open>Constants\<close>

definition NAME_PREFIX :: string where "NAME_PREFIX = ''cloud_cost.''"

definition ALLOWED_METHOD :: string where "ALLOWED_METHOD = ''GET''"

definition REQUIRED_FIELDS :: "string list" where "REQUIRED_FIELDS = [''method'', ''name'', ''path'']"

definition PATH_BLOCKLIST :: "string list" where
  "PATH_BLOCKLIST =
     [''/credentials'', ''/azure-deploy/'', ''/azure-consent/'', ''/taiji/ingest'', ''/admin/users'', ''/api-keys'',
      ''/api-permissions'', ''/customer-assignments'', ''/export'', ''/sync/all'', ''/sync/refresh-summary'',
      ''/sync/status/'', ''/sync/logs'', ''/discover-gcp-projects'', ''/hard/'', ''/suspend'', ''/activate'',
      ''/mark-paid'', ''/confirm'', ''/adjust'', ''/generate'', ''/regenerate'', ''/read-all'', ''/unread-count'']"

definition SYNC_ALLOWED_PATHS :: "string list" where "SYNC_ALLOWED_PATHS = [''/api/sync/last'']"

definition allowed_roles :: "string list" where
  "allowed_roles = [''cloud_admin'', ''cloud_ops'', ''cloud_finance'', ''cloud_viewer'']"

definition SpecError :: "string \<Rightarrow> exn" where
  "SpecError m = PyError ''SpecError'' m"

section \<open>SQL literals\<close>

text \<open>\<open>s.replace("'", "''")\<close>.\<close>

definition double_quotes :: "string \<Rightarrow> string" where
  "double_quotes s = concat (map (\<lambda>c. if c = CHR 0x27 then [c, c] else [c]) s)"

fun psql_literal :: "json \<Rightarrow> string" where
  "psql_literal JNull = ''NULL''"
| "psql_literal (JBool b) = (if b then ''TRUE'' else ''FALSE'')"
| "psql_literal (JInt i) = int_str i"
| "psql_literal (JFloat f) = repr_float f"
| "psql_literal (JStr s) = quoted (double_quotes s)"
| "psql_literal v = quoted (double_quotes (json_dumps False (sort_json v))) @ ''::jsonb''"

text \<open>
  \<open>_dollar_quote\<close>: the tag grows from empty over xx until the delimiter is not \<open>in\<close> the value, which
  for a list or a dictionary means not among its elements or keys.
\<close>

definition delimiter :: "string \<Rightarrow> string" where
  "delimiter tag = ''$'' @ tag @ ''$''"

definition next_tag :: "string \<Rightarrow> string" where
  "next_tag tag = (if tag \<noteq> [] then tag else ''x'') @ ''x''"

fun occurs_in :: "string \<Rightarrow> json \<Rightarrow> bool" where
  "occurs_in d (JStr s) = contains d s"
| "occurs_in d (JList xs) = (JStr d \<in> set xs)"
| "occurs_in d (JObj kvs) = (d \<in> fst ` set kvs)"
| "occurs_in d v = False"

text \<open>No text that occurs in a value is longer than this.\<close>

fun text_size :: "json \<Rightarrow> nat" where
  "text_size (JStr s) = length s"
| "text_size v = 0"

fun bulk :: "json \<Rightarrow> nat" where
  "bulk (JStr s) = length s"
| "bulk (JList xs) = sum_list (map text_size xs)"
| "bulk (JObj kvs) = sum_list (map (\<lambda>kv. length (fst kv)) kvs)"
| "bulk v = 0"

lemma contains_length: "contains d s \<Longrightarrow> length d \<le> length s"
  by (auto simp: contains_iff)

lemma occurs_bulk: "occurs_in d v \<Longrightarrow> length d \<le> bulk v"
proof (cases v)
  case (JList xs)
  assume "occurs_in d v"
  with JList have "text_size (JStr d) \<in> set (map text_size xs)" by (force simp del: text_size.simps)
  then have "text_size (JStr d) \<le> sum_list (map text_size xs)" by (rule member_le_sum_list) simp
  with JList show ?thesis by simp
next
  case (JObj kvs)
  assume "occurs_in d v"
  with JObj have "length d \<in> set (map (\<lambda>kv. length (fst kv)) kvs)" by force
  then have "length d \<le> sum_list (map (\<lambda>kv. length (fst kv)) kvs)" by (rule member_le_sum_list) simp
  with JObj show ?thesis by simp
qed (auto dest: contains_length)

function dollar_tag :: "json \<Rightarrow> string \<Rightarrow> string" where
  "dollar_tag v tag = (if occurs_in (delimiter tag) v then dollar_tag v (next_tag tag) else tag)"
  by auto

termination
  by (relation "measure (\<lambda>(v, tag). Suc (bulk v) - length tag)")
     (auto simp: delimiter_def next_tag_def dest!: occurs_bulk)

declare dollar_tag.simps [simp del]

definition dollar_quote :: "json \<Rightarrow> string res" where
  "dollar_quote v =
     (if is_str v \<or> is_list v \<or> is_obj v
      then (let d = delimiter (dollar_tag v []) in Inr (d @ py_str v @ d))
      else Inl (TypeError (''argument of type '' @ quoted (type_name v) @ '' is not iterable'')))"

section \<open>Validation\<close>

definition tool_at :: "string \<Rightarrow> string" where
  "tool_at name = ''tool '' @ repr_text name @ '': ''"

definition assert_not_blocked :: "string \<Rightarrow> string \<Rightarrow> unit res" where
  "assert_not_blocked name path =
     (case find (\<lambda>b. contains b (lower path)) PATH_BLOCKLIST of
        Some b \<Rightarrow> Inl (SpecError (tool_at name @ ''path '' @ repr_text path @ '' matches forbidden substring '' @ repr_text b))
      | None \<Rightarrow>
          (if startswith ''/api/sync/'' (lower path) \<and> path \<notin> set SYNC_ALLOWED_PATHS
           then Inl (SpecError (tool_at name @ ''only GET /api/sync/last is allowed in the sync module''))
           else Inr ()))"

definition assert_method :: "string \<Rightarrow> string \<Rightarrow> unit res" where
  "assert_method name verb =
     (if upper verb \<noteq> ALLOWED_METHOD
      then Inl (SpecError (tool_at name @ ''method '' @ repr_text verb @ '' not allowed (GET only for AI-safe surface)''))
      else Inr ())"

text \<open>Order kept, duplicates dropped.\<close>

fun dedup :: "string list \<Rightarrow> string list \<Rightarrow> string list" where
  "dedup seen [] = []"
| "dedup seen (r # rs) = (if r \<in> set seen then dedup seen rs else r # dedup (r # seen) rs)"

definition known_role :: "json \<Rightarrow> bool" where
  "known_role r = (case r of JStr s \<Rightarrow> s \<in> set allowed_roles | _ \<Rightarrow> False)"

definition validate_roles :: "json \<Rightarrow> string \<Rightarrow> string list res" where
  "validate_roles names what =
     (case names of
        JList (r # rs) \<Rightarrow>
          (let bad = filter (\<lambda>r. \<not> known_role r) (r # rs)
           in if bad \<noteq> [] then Inl (SpecError (what @ '' contains unknown roles: '' @ py_repr (JList bad)))
              else Inr (dedup [] (map py_str (r # rs))))
      | _ \<Rightarrow> Inl (SpecError (what @ '' must be a non-empty list of role names'')))"

definition param_targets :: "string list" where
  "param_targets = [''path'', ''query'', ''body'']"

definition tools_item :: "nat \<Rightarrow> string" where
  "tools_item i = ''tools['' @ nat_str i @ '']''"

definition good_target :: "json \<Rightarrow> bool" where
  "good_target v = (case v of JStr t \<Rightarrow> t \<in> set param_targets | _ \<Rightarrow> False)"

definition validate_target :: "nat \<Rightarrow> string \<times> json \<Rightarrow> unit res" where
  "validate_target i kv =
     (if good_target (snd kv) then Inr ()
      else Inl (SpecError (tools_item i @ ''.param_map['' @ repr_text (fst kv) @ ''] must be one of '' @
             join ''|'' (map quoted param_targets) @ '' (got '' @ py_repr (snd kv) @
             ''); AI-safe tools cannot set arbitrary headers'')))"

definition validate_param_map :: "nat \<Rightarrow> json \<Rightarrow> unit res" where
  "validate_param_map i v =
     (case v of
        JObj kvs \<Rightarrow> bindE (mapE (validate_target i) kvs) (\<lambda>_. Inr ())
      | _ \<Rightarrow> Inl (SpecError (tools_item i @ ''.param_map must be a mapping'')))"

text \<open>The body of the loop over the tools; it gives the name.\<close>

definition validate_tool :: "nat \<Rightarrow> string list \<Rightarrow> json \<Rightarrow> string res" where
  "validate_tool i seen_names v =
     (case v of
        JObj t \<Rightarrow>
          (let missing = filter (\<lambda>k. k \<notin> fst ` set t) REQUIRED_FIELDS;
               name = py_str (jget t ''name'')
           in if missing \<noteq> []
              then Inl (SpecError (tools_item i @ '' missing keys: '' @ py_repr (JList (map JStr missing))))
              else if \<not> startswith NAME_PREFIX name
              then Inl (SpecError (tools_item i @ ''.name must start with '' @ repr_text NAME_PREFIX @ '' (got '' @
                     repr_text name @ '')''))
              else if name \<in> set seen_names then Inl (SpecError (''duplicate tool name: '' @ name))
              else bindE (assert_method name (py_str (jget t ''method''))) (\<lambda>_.
                   bindE (assert_not_blocked name (py_str (jget t ''path''))) (\<lambda>_.
                   bindE (case map_of t ''roles'' of
                            None \<Rightarrow> Inr []
                          | Some rs \<Rightarrow> validate_roles rs (tools_item i @ ''.roles ('' @ name @ '')'')) (\<lambda>_.
                   bindE (validate_param_map i (py_or (jget t ''param_map'') (JObj []))) (\<lambda>_. Inr name)))))
      | _ \<Rightarrow> Inl (SpecError (tools_item i @ '' must be a mapping'')))"

fun validate_tools :: "nat \<Rightarrow> string list \<Rightarrow> json list \<Rightarrow> unit res" where
  "validate_tools i seen_names [] = Inr ()"
| "validate_tools i seen_names (t # ts) =
     bindE (validate_tool i seen_names t) (\<lambda>name. validate_tools (Suc i) (name # seen_names) ts)"

definition validate_spec :: "json dict \<Rightarrow> unit res" where
  "validate_spec spec =
     (let env = jget spec ''base_url_env''
      in if \<not> truthy env then Inl (SpecError ''spec.base_url_env is required'')
         else if env \<noteq> JStr ''CLOUDCOST_API_BASE''
         then Inl (SpecError (''spec.base_url_env must be '' @ quoted ''CLOUDCOST_API_BASE'' @ '' (got '' @ py_repr env @ '')''))
         else (case jget spec ''tools'' of
                 JList (t # ts) \<Rightarrow>
                   bindE (validate_roles (py_or (jget spec ''roles'') (JList [])) ''spec.roles'') (\<lambda>_.
                     validate_tools 0 [] (t # ts))
               | _ \<Rightarrow> Inl (SpecError ''spec.tools must be a non-empty list'')))"

section \<open>Rendering\<close>

definition tool_config :: "json dict \<Rightarrow> json \<Rightarrow> int \<Rightarrow> json dict res" where
  "tool_config tool env timeout =
     bindE (case jget tool ''method'' of JStr m \<Rightarrow> Inr (upper m) | v \<Rightarrow> Inl (no_attr v ''upper'')) (\<lambda>verb.
     bindE (to_int (py_or (jget tool ''timeout_sec'') (JInt timeout))) (\<lambda>secs.
       Inr ([(''base_url_env'', env), (''method'', JStr verb), (''path'', jget tool ''path''),
             (''timeout_sec'', JInt secs), (''retries'', JInt 0)]
            @ (if truthy (jget tool ''param_map'') then [(''param_map'', jget tool ''param_map'')] else [])
            @ (if truthy (jget tool ''body_wrap'') then [(''body_wrap'', jget tool ''body_wrap'')] else []))))"

text \<open>Lines that end a text: \<open>"...\n"\<close>.\<close>

definition eol :: string where "eol = [CHR 0x0A]"

definition lines_text :: "string list \<Rightarrow> string" where
  "lines_text ls = join eol ls"

definition render_insert :: "json dict \<Rightarrow> json \<Rightarrow> int \<Rightarrow> string res" where
  "render_insert tool env timeout =
     bindE (tool_config tool env timeout) (\<lambda>config.
     bindE (dollar_quote (py_or (jget tool ''description'') (JStr (''CloudCost route '' @ py_str (jget tool ''path''))))) (\<lambda>description.
       Inr (lines_text
         [''INSERT INTO chat_gw.tools'',
          ''    (name, display_name, description, category, dispatcher, config,'',
          ''     auth_mode, secret_env_name, auth_header, auth_prefix, input_schema, output_schema)'',
          ''VALUES ('',
          ''    '' @ psql_literal (jget tool ''name'') @ '','',
          ''    '' @ psql_literal (py_or (jget tool ''display_name'') (jget tool ''name'')) @ '','',
          ''    '' @ description @ '','',
          ''    '' @ psql_literal (JStr ''cloud_cost'') @ '','',
          ''    '' @ psql_literal (JStr ''http_adapter'') @ '','',
          ''    '' @ psql_literal (JObj config) @ '','',
          ''    '' @ psql_literal (JStr ''user_passthrough'') @ '','',
          ''    NULL,'',
          ''    '' @ psql_literal (JStr ''Authorization'') @ '','',
          ''    '' @ psql_literal (JStr ''Bearer '') @ '','',
          ''    '' @ psql_literal (py_or (jget tool ''input_schema'') (JObj [(''type'', JStr ''object'')])) @ '','',
          ''    '' @ psql_literal (jget tool ''output_schema''),
          '')'',
          ''ON CONFLICT (name) DO UPDATE SET'',
          ''    display_name = EXCLUDED.display_name,'',
          ''    description = EXCLUDED.description,'',
          ''    category = EXCLUDED.category,'',
          ''    dispatcher = EXCLUDED.dispatcher,'',
          ''    config = EXCLUDED.config,'',
          ''    auth_mode = EXCLUDED.auth_mode,'',
          ''    secret_env_name = EXCLUDED.secret_env_name,'',
          ''    auth_header = EXCLUDED.auth_header,'',
          ''    auth_prefix = EXCLUDED.auth_prefix,'',
          ''    input_schema = EXCLUDED.input_schema,'',
          ''    output_schema = EXCLUDED.output_schema;''])))"

definition render_grants :: "json \<Rightarrow> string list \<Rightarrow> string" where
  "render_grants tool_name roles =
     lines_text
       [''INSERT INTO chat_gw.tool_role_grants (tool_id, role)'',
        ''SELECT id, r FROM chat_gw.tools, unnest(ARRAY['' @ join '', '' (map (\<lambda>r. psql_literal (JStr r)) roles) @ '']) AS r'',
        ''WHERE chat_gw.tools.name = '' @ psql_literal tool_name,
        ''ON CONFLICT DO NOTHING;'']"

definition render_clear_grants :: "json list \<Rightarrow> string" where
  "render_clear_grants tool_names =
     lines_text
       [''DELETE FROM chat_gw.tool_role_grants'',
        ''WHERE tool_id IN (SELECT id FROM chat_gw.tools WHERE name IN ('' @
          join '', '' (map psql_literal tool_names) @ ''));'']"

definition grants_of_tool :: "string list \<Rightarrow> json dict \<Rightarrow> string res" where
  "grants_of_tool default_roles tool =
     bindE (validate_roles (py_or (jget tool ''roles'') (JList (map JStr default_roles)))
              (''tools['' @ py_str (jget tool ''name'') @ ''].roles'')) (\<lambda>roles.
       Inr (render_grants (jget tool ''name'') roles))"

definition file_header :: "string list" where
  "file_header =
     [''-- Generated by scripts/import_cloudcost_tools.py '' @ utf8 0x2014 @ '' DO NOT HAND-EDIT.'',
      ''-- Source spec: migrations/seeds/cloud_cost_spec.json'',
      ''-- AI-safe: GET-only + path blocklist; auth=user_passthrough; retries=0.'',
      ''BEGIN;'']"

text \<open>The items of a list of tools; validation has made sure that they are dictionaries.\<close>

fun members :: "json \<Rightarrow> json dict" where
  "members (JObj kvs) = kvs"
| "members v = []"

definition render_tools :: "json dict list \<Rightarrow> json \<Rightarrow> int \<Rightarrow> string list \<Rightarrow> string res" where
  "render_tools tools env timeout default_roles =
     bindE (mapE (\<lambda>t. render_insert t env timeout) tools) (\<lambda>inserts.
     bindE (mapE (grants_of_tool default_roles) tools) (\<lambda>grants.
       Inr (join (eol @ eol)
         (file_header @ inserts @ [render_clear_grants (map (\<lambda>t. jget t ''name'') tools)] @ grants @ [''COMMIT;'']) @ eol)))"

definition spec_tools :: "json dict \<Rightarrow> json dict list" where
  "spec_tools spec = (case jget spec ''tools'' of JList ts \<Rightarrow> map members ts | _ \<Rightarrow> [])"

definition render_sql :: "json \<Rightarrow> string res" where
  "render_sql v =
     bindE (as_dict v) (\<lambda>spec.
     bindE (validate_spec spec) (\<lambda>_.
     bindE (to_int (py_or (jget spec ''timeout_sec'') (JInt 45))) (\<lambda>timeout.
     bindE (validate_roles (jget spec ''roles'') ''spec.roles'') (\<lambda>default_roles.
       render_tools (spec_tools spec) (jget spec ''base_url_env'') timeout default_roles))))"

text \<open>
  \<open>main\<close> with the text of the file, if there is one: the exit code and what goes to the standard
  output. Any exception but SpecError ends the script with its traceback, code 1.
\<close>

definition import_main :: "string option \<Rightarrow> int \<times> string" where
  "import_main file =
     (case file of
        None \<Rightarrow> (2, [])
      | Some txt \<Rightarrow>
          (case json_loads txt of
             Inl e \<Rightarrow> (2, [])
           | Inr spec \<Rightarrow>
               (case render_sql spec of
                  Inr sql \<Rightarrow> (0, sql)
                | Inl e \<Rightarrow> (if exn_class e = ''SpecError'' then 2 else 1, []))))"

section \<open>Reading quoted texts\<close>

text \<open>A dollar-quoted text up to its delimiter, and what follows.\<close>

fun dollar_read :: "string \<Rightarrow> string \<Rightarrow> (string \<times> string) option" where
  "dollar_read d s =
     (if startswith d s then Some ([], drop (length d) s)
      else (case s of [] \<Rightarrow> None | c # cs \<Rightarrow> map_option (\<lambda>(t, r). (c # t, r)) (dollar_read d cs)))"

declare dollar_read.simps [simp del]

text \<open>A literal after its opening quote, in which a quote is doubled.\<close>

fun sql_read :: "string \<Rightarrow> (string \<times> string) option" where
  "sql_read [] = None"
| "sql_read [c] = (if c = CHR 0x27 then Some ([], []) else None)"
| "sql_read (c # d # s) =
     (if c \<noteq> CHR 0x27 then map_option (\<lambda>(t, r). (c # t, r)) (sql_read (d # s))
      else if d = CHR 0x27 then map_option (\<lambda>(t, r). (c # t, r)) (sql_read s)
      else Some ([], d # s))"

definition ends_with :: "string \<Rightarrow> string \<Rightarrow> bool" where
  "ends_with p s \<longleftrightarrow> (\<exists>a. s = a @ p)"

lemma ends_with_simps [simp]: "p \<noteq> [] \<Longrightarrow> \<not> ends_with p []" "ends_with p (c # s) \<longleftrightarrow> c # s = p \<or> ends_with p s"
  by (auto simp: ends_with_def Cons_eq_append_conv)

lemma dollar_tag_grow: "occurs_in (delimiter tag) v \<Longrightarrow> dollar_tag v tag = dollar_tag v (next_tag tag)"
  by (subst dollar_tag.simps) (rule if_P)

lemma dollar_tag_stop: "\<not> occurs_in (delimiter tag) v \<Longrightarrow> dollar_tag v tag = tag"
  by (subst dollar_tag.simps) (rule if_not_P)

lemma dollar_tag_result:
  "\<not> occurs_in (delimiter (dollar_tag v tag)) v \<and> set (dollar_tag v tag) \<subseteq> insert (CHR ''x'') (set tag)"
proof (induction v tag rule: dollar_tag.induct)
  case (1 v tag)
  show ?case
  proof (cases "occurs_in (delimiter tag) v")
    case True
    have "set (next_tag tag) \<subseteq> insert (CHR ''x'') (set tag)" by (auto simp: next_tag_def split: if_splits)
    with 1 [OF True] show ?thesis unfolding dollar_tag_grow [OF True] by blast
  next
    case False
    then show ?thesis unfolding dollar_tag_stop [OF False] by blast
  qed
qed

text \<open>A delimiter overlaps the end of a text and itself in one way only.\<close>

lemma delimiter_overlap:
  assumes "CHR ''$'' \<notin> set tag" and "s \<noteq> []" and "startswith (delimiter tag) (s @ delimiter tag @ rest)"
    and "\<not> startswith (delimiter tag) s"
  shows "s = CHR ''$'' # tag"
proof -
  obtain r where r: "s @ delimiter tag @ rest = delimiter tag @ r" using assms(3) by (auto simp: startswith_iff)
  have no: "\<And>t. s \<noteq> delimiter tag @ t" using assms(4) by (simp add: startswith_iff)
  obtain us where us: "s @ us = delimiter tag \<and> delimiter tag @ rest = us @ r \<or> s = delimiter tag @ us"
    using r unfolding append_eq_append_conv2 by blast
  define v where "v = us"
  have v: "delimiter tag = s @ v" using us no by (auto simp: v_def)
  have "v \<noteq> []" using v no [of "[]"] by auto
  have first: "delimiter tag @ rest = v @ r" using r v by simp
  then obtain v' where v': "v = CHR ''$'' # v'" using \<open>v \<noteq> []\<close> by (cases v) (auto simp: delimiter_def)
  obtain s' where s': "s = CHR ''$'' # s'" using v assms(2) by (cases s) (auto simp: delimiter_def)
  have eq: "s' @ CHR ''$'' # v' = tag @ [CHR ''$'']" using v v' s' by (simp add: delimiter_def)
  show ?thesis
  proof (cases v' rule: rev_cases)
    case Nil
    with eq s' show ?thesis by simp
  next
    case (snoc w z)
    with eq have "tag = s' @ CHR ''$'' # w" by simp
    with assms(1) show ?thesis by simp
  qed
qed

lemma dollar_read_iff:
  assumes "CHR ''$'' \<notin> set tag" and "\<not> contains (delimiter tag) s"
  shows "dollar_read (delimiter tag) (s @ delimiter tag @ rest) = Some (s, rest) \<longleftrightarrow> \<not> ends_with (CHR ''$'' # tag) s"
  using assms(2)
proof (induction s)
  case Nil
  then show ?case by (subst dollar_read.simps) simp
next
  case (Cons c s)
  then have here: "\<not> startswith (delimiter tag) (c # s)" and later: "\<not> contains (delimiter tag) s" by simp_all
  show ?case
  proof (cases "c # s = CHR ''$'' # tag")
    case True
    then have "startswith (delimiter tag) ((c # s) @ delimiter tag @ rest)"
      by (simp add: delimiter_def startswith_iff)
    with True show ?thesis by (subst dollar_read.simps) auto
  next
    case False
    then have "\<not> startswith (delimiter tag) ((c # s) @ delimiter tag @ rest)"
      using delimiter_overlap [OF assms(1), of "c # s" rest] here by blast
    with False Cons.IH [OF later] show ?thesis by (subst dollar_read.simps) auto
  qed
qed

lemma distinct_sort_key: "distinct (map fst xs) \<Longrightarrow> distinct (map fst (sort_key fst xs))" for xs :: "('k::linorder \<times> 'v) list"
  by (simp add: distinct_map)

lemma plain_sort: "plain ea v \<Longrightarrow> plain ea (sort_json v)"
proof (induction v)
  case (JObj kvs)
  define L where "L = map (\<lambda>kv. (fst kv, sort_json (snd kv))) kvs"
  have keys: "map fst L = map fst kvs" by (simp add: L_def)
  have "distinct (map fst L)" using JObj.prems unfolding keys by (simp add: wf_dict_def)
  then have "distinct (map fst (sort_key fst L))" by (rule distinct_sort_key)
  moreover have "\<forall>kv \<in> set L. plain ea (snd kv)" using JObj by (auto simp: L_def list_all_iff)
  ultimately show ?case using JObj.prems by (auto simp: L_def list_all_iff wf_dict_def)
qed (auto simp: list_all_iff)

section \<open>What is let through\<close>

lemma find_None_iff_ball: "find P xs = None \<longleftrightarrow> (\<forall>x \<in> set xs. \<not> P x)"
  by (auto simp: find_None_iff)

lemma mapE_member: "mapE f xs = Inr ys \<Longrightarrow> x \<in> set xs \<Longrightarrow> \<exists>y \<in> set ys. f x = Inr y"
  by (induction xs arbitrary: ys) (auto simp: bindE_eq_Inr)

lemma assert_not_blocked_ok:
  "assert_not_blocked name path = Inr () \<longleftrightarrow>
     (\<forall>b \<in> set PATH_BLOCKLIST. \<not> contains b (lower path)) \<and>
     (startswith ''/api/sync/'' (lower path) \<longrightarrow> path \<in> set SYNC_ALLOWED_PATHS)"
  unfolding assert_not_blocked_def find_None_iff_ball [symmetric]
  by (cases "find (\<lambda>b. contains b (lower path)) PATH_BLOCKLIST") simp_all

lemma set_dedup: "set (dedup seen rs) = set rs - set seen"
  by (induction seen rs rule: dedup.induct) auto

lemma distinct_dedup: "distinct (dedup seen rs)"
  by (induction seen rs rule: dedup.induct) (auto simp: set_dedup)

lemma validate_roles_ok:
  assumes "validate_roles names what = Inr rs"
  shows "\<exists>r ns. names = JList (r # ns) \<and> rs \<noteq> [] \<and> distinct rs \<and> set rs \<subseteq> set allowed_roles \<and> JStr ` set rs = set (r # ns)"
proof -
  obtain r ns where names: "names = JList (r # ns)"
    using assms by (auto simp: validate_roles_def split: json.splits list.splits)
  have good: "filter (\<lambda>r. \<not> known_role r) (r # ns) = []" and rs: "rs = dedup [] (map py_str (r # ns))"
    using assms by (simp_all add: names validate_roles_def Let_def split: if_splits)
  have known: "\<exists>s \<in> set allowed_roles. v = JStr s" if "v \<in> set (r # ns)" for v
  proof -
    have "known_role v" using good that unfolding filter_empty_conv by blast
    then show ?thesis by (cases v) (simp_all add: known_role_def)
  qed
  have set_rs: "set rs = py_str ` set (r # ns)" by (simp add: rs set_dedup)
  have "JStr ` py_str ` set (r # ns) = set (r # ns)" unfolding image_image
    by (intro set_eqI) (use known in \<open>force simp: image_iff\<close>)
  moreover have "set rs \<subseteq> set allowed_roles" unfolding set_rs using known by force
  moreover have "rs \<noteq> []" using set_rs by auto
  moreover have "distinct rs" unfolding rs by (rule distinct_dedup)
  ultimately show ?thesis unfolding set_rs names by blast
qed

text \<open>
  What validation guarantees for a tool: its name, its method, its path and the places its parameters
  can go to.
\<close>

definition ai_safe :: "json dict \<Rightarrow> bool" where
  "ai_safe t \<longleftrightarrow>
     startswith NAME_PREFIX (py_str (jget t ''name'')) \<and>
     upper (py_str (jget t ''method'')) = ''GET'' \<and>
     (\<forall>b \<in> set PATH_BLOCKLIST. \<not> contains b (lower (py_str (jget t ''path'')))) \<and>
     (startswith ''/api/sync/'' (lower (py_str (jget t ''path''))) \<longrightarrow> jget t ''path'' = JStr ''/api/sync/last'' \<or> \<not> is_str (jget t ''path'')) \<and>
     (\<exists>kvs. py_or (jget t ''param_map'') (JObj []) = JObj kvs \<and> (\<forall>kv \<in> set kvs. good_target (snd kv)))"

lemma validate_tool_ok:
  assumes "validate_tool i seen v = Inr name"
  shows "\<exists>t. v = JObj t \<and> name = py_str (jget t ''name'') \<and> name \<notin> set seen \<and> ai_safe t"
proof -
  obtain t where t: "v = JObj t" using assms by (auto simp: validate_tool_def split: json.splits)
  have name: "name = py_str (jget t ''name'')" and new: "name \<notin> set seen" and pre: "startswith NAME_PREFIX name"
    and verb: "assert_method name (py_str (jget t ''method'')) = Inr ()"
    and path: "assert_not_blocked name (py_str (jget t ''path'')) = Inr ()"
    and pm: "validate_param_map i (py_or (jget t ''param_map'') (JObj [])) = Inr ()"
    using assms by (auto simp: t validate_tool_def Let_def py_dest split: if_splits)
  have "upper (py_str (jget t ''method'')) = ''GET''"
    using verb by (simp add: assert_method_def ALLOWED_METHOD_def split: if_splits)
  moreover have "jget t ''path'' = JStr ''/api/sync/last'' \<or> \<not> is_str (jget t ''path'')"
    if "startswith ''/api/sync/'' (lower (py_str (jget t ''path'')))"
    using path that by (cases "jget t ''path''") (auto simp: assert_not_blocked_ok SYNC_ALLOWED_PATHS_def)
  moreover obtain kvs where kvs: "py_or (jget t ''param_map'') (JObj []) = JObj kvs"
    using pm by (auto simp: validate_param_map_def split: json.splits)
  moreover have "good_target (snd kv)" if "kv \<in> set kvs" for kv
  proof -
    obtain us where "mapE (validate_target i) kvs = Inr us" using pm by (auto simp: kvs validate_param_map_def py_dest)
    from mapE_member [OF this that] obtain u where "validate_target i kv = Inr u" by blast
    then show ?thesis by (simp add: validate_target_def split: if_splits)
  qed
  ultimately show ?thesis using t name new pre path by (auto simp: ai_safe_def assert_not_blocked_ok)
qed

lemma validate_tools_ok:
  "validate_tools i seen vs = Inr () \<Longrightarrow>
     vs = map JObj (map members vs) \<and> list_all ai_safe (map members vs) \<and>
     distinct (map (\<lambda>t. py_str (jget t ''name'')) (map members vs)) \<and>
     (\<forall>t \<in> set (map members vs). py_str (jget t ''name'') \<notin> set seen)"
proof (induction i seen vs rule: validate_tools.induct)
  case (2 i seen v vs)
  then obtain name where name: "validate_tool i seen v = Inr name" and rest: "validate_tools (Suc i) (name # seen) vs = Inr ()"
    by (auto simp: py_dest)
  obtain t where t: "v = JObj t" "name = py_str (jget t ''name'')" "name \<notin> set seen" "ai_safe t"
    using validate_tool_ok [OF name] by blast
  from 2 (1) [OF rest] t show ?case by auto
qed simp

lemma validate_spec_ok:
  assumes "validate_spec spec = Inr ()"
  shows "jget spec ''base_url_env'' = JStr ''CLOUDCOST_API_BASE''" (is ?env)
    and "jget spec ''tools'' = JList (map JObj (spec_tools spec))" (is ?tools)
    and "spec_tools spec \<noteq> []" (is ?some)
    and "list_all ai_safe (spec_tools spec)" (is ?safe)
    and "distinct (map (\<lambda>t. py_str (jget t ''name'')) (spec_tools spec))" (is ?names)
proof -
  obtain v vs where vs: "jget spec ''tools'' = JList (v # vs)" and ok: "validate_tools 0 [] (v # vs) = Inr ()" and env: ?env
    using assms by (auto simp: validate_spec_def Let_def py_dest simp del: validate_tools.simps split: if_splits json.splits list.splits)
  have members: "spec_tools spec = map members (v # vs)" by (simp add: spec_tools_def vs)
  note all = validate_tools_ok [OF ok]
  show ?tools unfolding vs members using all by simp
  show ?some unfolding members by simp
  show ?safe ?names unfolding members using all by blast+
  show ?env by (rule env)
qed

text \<open>
  The statements of the file, by what is in them: the columns and literals of an upsert, the literals
  of the names whose grants are deleted, and a name with the literals of the roles it is granted.
\<close>

datatype statement =
    Upsert "(string \<times> string) list"
  | ClearGrants "string list"
  | GrantTo string "string list"

fun statement_text :: "statement \<Rightarrow> string" where
  "statement_text (Upsert row) =
     ''INSERT INTO chat_gw.tools'' @ eol @
     ''    ('' @ join '', '' (map fst (take 6 row)) @ '','' @ eol @
     ''     '' @ join '', '' (map fst (drop 6 row)) @ '')'' @ eol @
     ''VALUES ('' @ eol @ join ('','' @ eol) (map (\<lambda>cv. ''    '' @ snd cv) row) @ eol @ '')'' @ eol @
     ''ON CONFLICT (name) DO UPDATE SET'' @ eol @
     join ('','' @ eol) (map (\<lambda>c. ''    '' @ c @ '' = EXCLUDED.'' @ c) (filter (\<lambda>c. c \<noteq> ''name'') (map fst row))) @ '';''"
| "statement_text (ClearGrants names) =
     ''DELETE FROM chat_gw.tool_role_grants'' @ eol @
     ''WHERE tool_id IN (SELECT id FROM chat_gw.tools WHERE name IN ('' @ join '', '' names @ ''));''"
| "statement_text (GrantTo name roles) =
     ''INSERT INTO chat_gw.tool_role_grants (tool_id, role)'' @ eol @
     ''SELECT id, r FROM chat_gw.tools, unnest(ARRAY['' @ join '', '' roles @ '']) AS r'' @ eol @
     ''WHERE chat_gw.tools.name = '' @ name @ eol @ ''ON CONFLICT DO NOTHING;''"

text \<open>The row of a tool with the literal of its configuration and of its description.\<close>

definition tool_row :: "json dict \<Rightarrow> string \<Rightarrow> string \<Rightarrow> (string \<times> string) list" where
  "tool_row t config description =
     [(''name'', psql_literal (jget t ''name'')),
      (''display_name'', psql_literal (py_or (jget t ''display_name'') (jget t ''name''))),
      (''description'', description),
      (''category'', quoted ''cloud_cost''),
      (''dispatcher'', quoted ''http_adapter''),
      (''config'', config),
      (''auth_mode'', quoted ''user_passthrough''),
      (''secret_env_name'', ''NULL''),
      (''auth_header'', quoted ''Authorization''),
      (''auth_prefix'', quoted ''Bearer ''),
      (''input_schema'', psql_literal (py_or (jget t ''input_schema'') (JObj [(''type'', JStr ''object'')]))),
      (''output_schema'', psql_literal (jget t ''output_schema''))]"

text \<open>The configuration of a tool: method GET, no retries, its own path, and nothing of a header.\<close>

definition config_of :: "json dict \<Rightarrow> int \<Rightarrow> json dict" where
  "config_of t secs =
     [(''base_url_env'', JStr ''CLOUDCOST_API_BASE''), (''method'', JStr ''GET''), (''path'', jget t ''path''),
      (''timeout_sec'', JInt secs), (''retries'', JInt 0)]
     @ map (\<lambda>k. (k, jget t k)) (filter (\<lambda>k. truthy (jget t k)) [''param_map'', ''body_wrap''])"

text \<open>The upsert of a tool: its row, with its time limit or that of the specification or 45 seconds.\<close>

definition upsert_of :: "json dict \<Rightarrow> json dict \<Rightarrow> statement \<Rightarrow> bool" where
  "upsert_of spec t st \<longleftrightarrow>
     (\<exists>default_secs secs tag.
        to_int (py_or (jget spec ''timeout_sec'') (JInt 45)) = Inr default_secs \<and>
        to_int (py_or (jget t ''timeout_sec'') (JInt default_secs)) = Inr secs \<and>
        (let description = py_or (jget t ''description'') (JStr (''CloudCost route '' @ py_str (jget t ''path'')))
         in set tag \<subseteq> {CHR ''x''} \<and> \<not> occurs_in (delimiter tag) description \<and>
            st = Upsert (tool_row t (psql_literal (JObj (config_of t secs)))
                   (delimiter tag @ py_str description @ delimiter tag))))"

text \<open>The grant of a tool: exactly its roles, or those of the specification when it names none.\<close>

definition grant_of :: "json dict \<Rightarrow> json dict \<Rightarrow> statement \<Rightarrow> bool" where
  "grant_of spec t st \<longleftrightarrow>
     (\<exists>names roles. py_or (jget t ''roles'') (jget spec ''roles'') = JList names \<and> names \<noteq> [] \<and>
        JStr ` set roles = set names \<and> distinct roles \<and> set roles \<subseteq> set allowed_roles \<and>
        st = GrantTo (psql_literal (jget t ''name'')) (map quoted roles))"

lemma tool_config_eq:
  assumes "tool_config t (JStr ''CLOUDCOST_API_BASE'') timeout = Inr config" and "upper (py_str (jget t ''method'')) = ''GET''"
  shows "\<exists>secs. to_int (py_or (jget t ''timeout_sec'') (JInt timeout)) = Inr secs \<and> config = config_of t secs"
  using assms by (auto simp: tool_config_def config_of_def py_dest split: json.splits)

lemma dollar_quote_eq:
  assumes "dollar_quote v = Inr d"
  shows "\<exists>tag. set tag \<subseteq> {CHR ''x''} \<and> \<not> occurs_in (delimiter tag) v \<and> d = delimiter tag @ py_str v @ delimiter tag"
  using assms dollar_tag_result [of v "[]"] by (auto simp: dollar_quote_def Let_def split: if_splits)

text \<open>What the script writes is the text of these statements.\<close>

text \<open>The lists of columns and the constant literals, one at a time.\<close>

lemma insert_columns:
  "''    ('' @ join '', '' [''name'', ''display_name'', ''description'', ''category'', ''dispatcher'', ''config''] @ '','' @ rest =
     ''    (name, display_name, description, category, dispatcher, config,'' @ rest"
  "''     '' @ join '', '' [''auth_mode'', ''secret_env_name'', ''auth_header'', ''auth_prefix'', ''input_schema'', ''output_schema''] @ '')'' @ rest =
     ''     auth_mode, secret_env_name, auth_header, auth_prefix, input_schema, output_schema)'' @ rest"
  by simp_all

lemma updated_columns:
  "filter (\<lambda>c. c \<noteq> ''name'') [''name'', ''display_name'', ''description'', ''category'', ''dispatcher'', ''config'', ''auth_mode'', ''secret_env_name'', ''auth_header'', ''auth_prefix'', ''input_schema'', ''output_schema''] =
     [''display_name'', ''description'', ''category'', ''dispatcher'', ''config'', ''auth_mode'', ''secret_env_name'', ''auth_header'', ''auth_prefix'', ''input_schema'', ''output_schema'']"
  by simp

lemma column_updates:
  "''    display_name = EXCLUDED.display_name,'' = (''    '' @ ''display_name'' @ '' = EXCLUDED.'' @ ''display_name'') @ '',''"
  "''    description = EXCLUDED.description,'' = (''    '' @ ''description'' @ '' = EXCLUDED.'' @ ''description'') @ '',''"
  "''    category = EXCLUDED.category,'' = (''    '' @ ''category'' @ '' = EXCLUDED.'' @ ''category'') @ '',''"
  "''    dispatcher = EXCLUDED.dispatcher,'' = (''    '' @ ''dispatcher'' @ '' = EXCLUDED.'' @ ''dispatcher'') @ '',''"
  "''    config = EXCLUDED.config,'' = (''    '' @ ''config'' @ '' = EXCLUDED.'' @ ''config'') @ '',''"
  "''    auth_mode = EXCLUDED.auth_mode,'' = (''    '' @ ''auth_mode'' @ '' = EXCLUDED.'' @ ''auth_mode'') @ '',''"
  "''    secret_env_name = EXCLUDED.secret_env_name,'' = (''    '' @ ''secret_env_name'' @ '' = EXCLUDED.'' @ ''secret_env_name'') @ '',''"
  "''    auth_header = EXCLUDED.auth_header,'' = (''    '' @ ''auth_header'' @ '' = EXCLUDED.'' @ ''auth_header'') @ '',''"
  "''    auth_prefix = EXCLUDED.auth_prefix,'' = (''    '' @ ''auth_prefix'' @ '' = EXCLUDED.'' @ ''auth_prefix'') @ '',''"
  "''    input_schema = EXCLUDED.input_schema,'' = (''    '' @ ''input_schema'' @ '' = EXCLUDED.'' @ ''input_schema'') @ '',''"
  "''    output_schema = EXCLUDED.output_schema;'' = (''    '' @ ''output_schema'' @ '' = EXCLUDED.'' @ ''output_schema'') @ '';''"
  by simp_all

lemma constant_literals:
  "psql_literal (JStr ''cloud_cost'') = quoted ''cloud_cost''"
  "psql_literal (JStr ''http_adapter'') = quoted ''http_adapter''"
  "psql_literal (JStr ''user_passthrough'') = quoted ''user_passthrough''"
  "psql_literal (JStr ''Authorization'') = quoted ''Authorization''"
  "psql_literal (JStr ''Bearer '') = quoted ''Bearer ''"
  "''    NULL,'' = ''    '' @ ''NULL'' @ '',''"
  by (simp_all add: double_quotes_def)

lemma take_drop_row:
  "map fst (take 6 (tool_row t c d)) = [''name'', ''display_name'', ''description'', ''category'', ''dispatcher'', ''config'']"
  "map fst (drop 6 (tool_row t c d)) = [''auth_mode'', ''secret_env_name'', ''auth_header'', ''auth_prefix'', ''input_schema'', ''output_schema'']"
  "map fst (tool_row t c d) = [''name'', ''display_name'', ''description'', ''category'', ''dispatcher'', ''config'', ''auth_mode'', ''secret_env_name'', ''auth_header'', ''auth_prefix'', ''input_schema'', ''output_schema'']"
  by (simp_all add: tool_row_def del: psql_literal.simps)

lemma render_insert_text:
  assumes "tool_config t env timeout = Inr config"
    and "dollar_quote (py_or (jget t ''description'') (JStr (''CloudCost route '' @ py_str (jget t ''path'')))) = Inr d"
  shows "render_insert t env timeout = Inr (statement_text (Upsert (tool_row t (psql_literal (JObj config)) d)))"
  unfolding render_insert_def assms bindE_simps statement_text.simps take_drop_row insert_columns updated_columns
    column_updates constant_literals lines_text_def
  unfolding tool_row_def by (simp only: join.simps append_assoc list.map snd_conv)

lemma render_clear_grants_text:
  "render_clear_grants names = statement_text (ClearGrants (map psql_literal names))"
  by (simp add: render_clear_grants_def lines_text_def)

lemma double_quotes_role: "r \<in> set allowed_roles \<Longrightarrow> double_quotes r = r"
  by (auto simp: allowed_roles_def double_quotes_def)

lemma render_grants_text:
  assumes "set roles \<subseteq> set allowed_roles"
  shows "render_grants name roles = statement_text (GrantTo (psql_literal name) (map quoted roles))"
proof -
  have "map (\<lambda>r. psql_literal (JStr r)) roles = map quoted roles"
    using assms by (auto simp: double_quotes_role)
  then show ?thesis unfolding render_grants_def statement_text.simps by (simp add: lines_text_def del: psql_literal.simps map_eq_conv)
qed

lemma render_insert_ok:
  assumes "render_insert t (JStr ''CLOUDCOST_API_BASE'') timeout = Inr sql" and "ai_safe t"
    and "to_int (py_or (jget spec ''timeout_sec'') (JInt 45)) = Inr timeout"
  shows "\<exists>st. upsert_of spec t st \<and> sql = statement_text st"
proof -
  define d where "d = py_or (jget t ''description'') (JStr (''CloudCost route '' @ py_str (jget t ''path'')))"
  obtain config literal where config: "tool_config t (JStr ''CLOUDCOST_API_BASE'') timeout = Inr config"
    and literal: "dollar_quote d = Inr literal"
    using assms(1) unfolding render_insert_def d_def by (auto simp only: bindE_eq_Inr)
  have sql: "sql = statement_text (Upsert (tool_row t (psql_literal (JObj config)) literal))"
    using assms(1) unfolding render_insert_text [OF config literal [unfolded d_def]] by (rule Inr_inject [symmetric])
  obtain secs where secs: "to_int (py_or (jget t ''timeout_sec'') (JInt timeout)) = Inr secs" "config = config_of t secs"
    using tool_config_eq [OF config] assms(2) unfolding ai_safe_def by blast
  obtain tag where "set tag \<subseteq> {CHR ''x''}" "\<not> occurs_in (delimiter tag) d" "literal = delimiter tag @ py_str d @ delimiter tag"
    using dollar_quote_eq [OF literal] by blast
  with secs assms(3) have "upsert_of spec t (Upsert (tool_row t (psql_literal (JObj config)) literal))"
    unfolding upsert_of_def Let_def d_def by blast
  with sql show ?thesis by blast
qed

lemma grants_of_tool_ok:
  assumes "grants_of_tool default_roles t = Inr sql" and "validate_roles (jget spec ''roles'') what = Inr default_roles"
  shows "\<exists>st. grant_of spec t st \<and> sql = statement_text st"
proof -
  obtain ds where ds: "jget spec ''roles'' = JList ds" "ds \<noteq> []" "default_roles \<noteq> []" "JStr ` set default_roles = set ds"
    using validate_roles_ok [OF assms(2)] by blast
  obtain roles where v: "validate_roles (py_or (jget t ''roles'') (JList (map JStr default_roles)))
      (''tools['' @ py_str (jget t ''name'') @ ''].roles'') = Inr roles" and sql: "sql = render_grants (jget t ''name'') roles"
    using assms(1) by (auto simp: grants_of_tool_def bindE_eq_Inr)
  obtain names where names: "py_or (jget t ''roles'') (JList (map JStr default_roles)) = JList names" "names \<noteq> []"
    and roles: "distinct roles" "set roles \<subseteq> set allowed_roles" "JStr ` set roles = set names"
    using validate_roles_ok [OF v] by blast
  have "\<exists>names'. py_or (jget t ''roles'') (jget spec ''roles'') = JList names' \<and> names' \<noteq> [] \<and> JStr ` set roles = set names'"
    using names roles(3) ds by (auto simp: py_or_def split: if_splits)
  then have "grant_of spec t (GrantTo (psql_literal (jget t ''name'')) (map quoted roles))"
    unfolding grant_of_def using roles(1,2) by blast
  with sql render_grants_text [OF roles(2)] show ?thesis by blast
qed

text \<open>The file as a whole: comments, then the statements in one transaction.\<close>

definition import_text :: "string list \<Rightarrow> statement list \<Rightarrow> string" where
  "import_text comments sts =
     join (eol @ eol) (comments @ [''BEGIN;''] @ map statement_text sts @ [''COMMIT;'']) @ eol"

definition comment_line :: "string \<Rightarrow> bool" where
  "comment_line s \<longleftrightarrow> startswith ''--'' s \<and> CHR 0x0A \<notin> set s \<and> CHR 0x0D \<notin> set s"

lemma file_header_comments: "\<exists>comments. list_all comment_line comments \<and> file_header = comments @ [''BEGIN;'']"
proof -
  have "utf8 0x2014 = [CHR 0xE2, CHR 0x80, CHR 0x94]" by (simp add: utf8_def char_of_def bit_iff_odd)
  then have "list_all comment_line (butlast file_header)"
    by (simp add: file_header_def comment_line_def)
  moreover have "file_header = butlast file_header @ [''BEGIN;'']" unfolding file_header_def by simp
  ultimately show ?thesis by blast
qed

lemma mapE_statements:
  assumes "mapE f xs = Inr ys" and "\<And>x y. x \<in> set xs \<Longrightarrow> f x = Inr y \<Longrightarrow> \<exists>st. P x st \<and> y = statement_text st"
  shows "\<exists>sts. list_all2 P xs sts \<and> ys = map statement_text sts"
  using assms
proof (induction xs arbitrary: ys)
  case (Cons x xs)
  then obtain y ys' where y: "f x = Inr y" and ys': "mapE f xs = Inr ys'" "ys = y # ys'" by (auto simp: bindE_eq_Inr)
  from Cons.IH [OF ys'(1)] Cons.prems(2) obtain sts where sts: "list_all2 P xs sts" "ys' = map statement_text sts" by auto
  from Cons.prems(2) [OF _ y] obtain st where "P x st" "y = statement_text st" by auto
  with sts ys'(2) show ?case by (intro exI [of _ "st # sts"]) simp
qed simp

lemma render_sql_safe:
  assumes "render_sql (JObj spec) = Inr sql"
  shows "jget spec ''tools'' = JList (map JObj (spec_tools spec)) \<and> spec_tools spec \<noteq> [] \<and>
    list_all ai_safe (spec_tools spec) \<and>
    distinct (map (\<lambda>t. py_str (jget t ''name'')) (spec_tools spec)) \<and>
    (\<exists>comments upserts grants. list_all comment_line comments \<and>
       list_all2 (upsert_of spec) (spec_tools spec) upserts \<and> list_all2 (grant_of spec) (spec_tools spec) grants \<and>
       sql = import_text comments
         (upserts @ [ClearGrants (map (\<lambda>t. psql_literal (jget t ''name'')) (spec_tools spec))] @ grants))"
proof -
  obtain timeout roles where valid: "validate_spec spec = Inr ()"
    and timeout: "to_int (py_or (jget spec ''timeout_sec'') (JInt 45)) = Inr timeout"
    and roles: "validate_roles (jget spec ''roles'') ''spec.roles'' = Inr roles"
    and render: "render_tools (spec_tools spec) (jget spec ''base_url_env'') timeout roles = Inr sql"
    using assms by (auto simp: render_sql_def bindE_eq_Inr)
  note ok = validate_spec_ok [OF valid]
  obtain inserts grants where inserts: "mapE (\<lambda>t. render_insert t (JStr ''CLOUDCOST_API_BASE'') timeout) (spec_tools spec) = Inr inserts"
    and grants: "mapE (grants_of_tool roles) (spec_tools spec) = Inr grants"
    and sql: "sql = join (eol @ eol)
      (file_header @ inserts @ [render_clear_grants (map (\<lambda>t. jget t ''name'') (spec_tools spec))] @ grants @ [''COMMIT;'']) @ eol"
    using render unfolding render_tools_def ok(1) by (auto simp only: bindE_eq_Inr sum.inject)
  obtain ups where ups: "list_all2 (upsert_of spec) (spec_tools spec) ups" "inserts = map statement_text ups"
    using mapE_statements [OF inserts, of "upsert_of spec"] render_insert_ok [OF _ _ timeout] ok(4) unfolding list_all_iff by blast
  obtain gs where gs: "list_all2 (grant_of spec) (spec_tools spec) gs" "grants = map statement_text gs"
    using mapE_statements [OF grants, of "grant_of spec"] grants_of_tool_ok [OF _ roles] by blast
  obtain comments where comments: "list_all comment_line comments" "file_header = comments @ [''BEGIN;'']"
    using file_header_comments by blast
  have "sql = import_text comments (ups @ [ClearGrants (map (\<lambda>t. psql_literal (jget t ''name'')) (spec_tools spec))] @ gs)"
    unfolding sql import_text_def ups(2) gs(2) comments(2) render_clear_grants_text by (simp add: comp_def)
  with comments(1) ups(1) gs(1) ok(2-5) show ?thesis by blast
qed

definition sample_spec :: "json dict" where
  "sample_spec =
     [(''base_url_env'', JStr ''CLOUDCOST_API_BASE''), (''roles'', JList [JStr ''cloud_ops'']),
      (''tools'', JList [JObj [(''name'', JStr ''cloud_cost.bills''), (''method'', JStr ''get''), (''path'', JStr ''/api/bills''),
         (''param_map'', JObj [(''month'', JStr ''query'')])]])]"

lemma sample_spec_renders: "\<not> isl (render_sql (JObj sample_spec))"
proof -
  let ?t = "[(''name'', JStr ''cloud_cost.bills''), (''method'', JStr ''get''), (''path'', JStr ''/api/bills''),
         (''param_map'', JObj [(''month'', JStr ''query'')])]"
  have "validate_spec sample_spec = Inr ()" by code_simp
  moreover have "to_int (py_or (jget sample_spec ''timeout_sec'') (JInt 45)) = Inr 45" by code_simp
  moreover have "validate_roles (jget sample_spec ''roles'') ''spec.roles'' = Inr [''cloud_ops'']" by code_simp
  moreover have "spec_tools sample_spec = [?t]" by code_simp
  moreover have "\<not> isl (tool_config ?t (jget sample_spec ''base_url_env'') 45)" by code_simp
  then have "\<not> isl (render_insert ?t (jget sample_spec ''base_url_env'') 45)"
    by (cases "tool_config ?t (jget sample_spec ''base_url_env'') 45") (simp_all add: render_insert_def dollar_quote_def py_or_def jget_def Let_def)
  moreover have "\<not> isl (grants_of_tool [''cloud_ops''] ?t)" by code_simp
  ultimately show ?thesis
    by (cases "render_insert ?t (jget sample_spec ''base_url_env'') 45"; cases "grants_of_tool [''cloud_ops''] ?t")
      (simp_all add: render_sql_def render_tools_def)
qed

text \<open>
  C36: the script prints something, or exits with 0, only for a file that holds a specification whose
  tools have distinct names with the prefix, the method GET, a path without a forbidden part and no
  parameter that becomes a header. What it prints is then, after comments and in one transaction,
  exactly these statements: for each tool in order the upsert of its row (its own name, texts, path
  and schemas, method GET, no retries, the caller's own token in the Authorization header, no secret),
  one deletion of the grants of the tools named, and for each tool in order the grant of exactly its
  own roles, or those of the specification when it names none, all of them known.
\<close>

theorem import_is_safe:
  assumes "import_main file = (code, sql)" and "code = 0 \<or> sql \<noteq> []"
  shows "\<exists>txt spec comments upserts grants. code = 0 \<and> file = Some txt \<and> json_loads txt = Inr (JObj spec) \<and>
    jget spec ''tools'' = JList (map JObj (spec_tools spec)) \<and> spec_tools spec \<noteq> [] \<and>
    list_all ai_safe (spec_tools spec) \<and>
    distinct (map (\<lambda>t. py_str (jget t ''name'')) (spec_tools spec)) \<and>
    list_all comment_line comments \<and>
    list_all2 (upsert_of spec) (spec_tools spec) upserts \<and> list_all2 (grant_of spec) (spec_tools spec) grants \<and>
    sql = import_text comments
      (upserts @ [ClearGrants (map (\<lambda>t. psql_literal (jget t ''name'')) (spec_tools spec))] @ grants)"
proof -
  obtain raw v where input: "file = Some raw" "json_loads raw = Inr v"
    and render: "render_sql v = Inr sql" and zero: "code = 0"
    using assms by (auto simp: import_main_def split: option.splits sum.splits if_splits)
  obtain spec where "v = JObj spec" using render by (cases v) (simp_all add: render_sql_def)
  with input render_sql_safe [of spec sql] render zero show ?thesis by blast
qed

lemma import_is_safe_witness:
  "\<exists>txt spec sql. import_main (Some txt) = (0, sql) \<and> json_loads txt = Inr (JObj spec) \<and> spec_tools spec \<noteq> []"
proof -
  let ?txt = "json_dumps True (JObj sample_spec)"
  have "plain True (JObj sample_spec)" by (simp add: sample_spec_def text_ok_def wf_dict_def)
  then have loads: "json_loads ?txt = Inr (JObj sample_spec)" by (rule loads_dumps)
  obtain sql where "render_sql (JObj sample_spec) = Inr sql" using sample_spec_renders by (cases "render_sql (JObj sample_spec)") simp_all
  then have run: "import_main (Some ?txt) = (0, sql)" unfolding import_main_def option.case loads sum.case by simp
  from import_is_safe [OF this] run show ?thesis by blast
qed

text \<open>
  the dollar quoting of a description ends, with a tag of x's whose delimiter is nowhere in the
  text; what is between the delimiters reads back as the text, whatever follows, unless the text ends
  with a dollar sign and the tag.
\<close>

lemma dollar_quote_reads_back:
  "\<exists>tag. dollar_quote (JStr s) = Inr (delimiter tag @ s @ delimiter tag) \<and> set tag \<subseteq> {CHR ''x''} \<and>
     \<not> contains (delimiter tag) s \<and>
     (\<forall>rest. dollar_read (delimiter tag) (s @ delimiter tag @ rest) = Some (s, rest) \<longleftrightarrow> \<not> ends_with (CHR ''$'' # tag) s)"
proof -
  define tag where "tag = dollar_tag (JStr s) []"
  have free: "\<not> contains (delimiter tag) s" and xs: "set tag \<subseteq> {CHR ''x''}"
    using dollar_tag_result [of "JStr s" "[]"] by (simp_all add: tag_def)
  then have "CHR ''$'' \<notin> set tag" by auto
  from dollar_read_iff [OF this free] have "\<forall>rest. dollar_read (delimiter tag) (s @ delimiter tag @ rest) = Some (s, rest) \<longleftrightarrow>
      \<not> ends_with (CHR ''$'' # tag) s" by blast
  moreover have "dollar_quote (JStr s) = Inr (delimiter tag @ s @ delimiter tag)"
    by (simp add: dollar_quote_def tag_def Let_def)
  ultimately show ?thesis using free xs by blast
qed

text \<open>
  PostgreSQL is not part of the repository: what reads a literal is a parameter, a function from the
  text after the opening quote to the text of the literal and what follows it. Documented of it (with
  \<open>standard_conforming_strings\<close>, the default, where a backslash is an ordinary character) is that
  two quotes stand for one, that a quote ends the literal unless the literal is continued after white
  space, and that every other character but NUL stands for itself.
\<close>

definition ends_literal :: "string \<Rightarrow> bool" where
  "ends_literal s = (case dropWhile (\<lambda>c. c \<in> set '' '' \<or> (of_char c :: nat) \<in> {9..13}) s of
       [] \<Rightarrow> True
     | c # _ \<Rightarrow> c \<noteq> CHR 0x27 \<and> c \<noteq> CHR ''-'')"

definition reads_quotes :: "(string \<Rightarrow> (string \<times> string) option) \<Rightarrow> bool" where
  "reads_quotes rd \<longleftrightarrow>
     (\<forall>s. rd (CHR 0x27 # CHR 0x27 # s) = map_option (\<lambda>(t, r). (CHR 0x27 # t, r)) (rd s)) \<and>
     (\<forall>s. ends_literal s \<longrightarrow> rd (CHR 0x27 # s) = Some ([], s)) \<and>
     (\<forall>c s. c \<noteq> CHR 0x27 \<longrightarrow> c \<noteq> CHR 0x00 \<longrightarrow> rd (c # s) = map_option (\<lambda>(t, r). (c # t, r)) (rd s))"

lemma ends_literal_no_quote: "ends_literal s \<Longrightarrow> \<not> startswith [CHR 0x27] s"
  by (cases s) (auto simp: ends_literal_def)

lemma ends_literal_cast: "ends_literal (''::jsonb'' @ rest)"
  by (simp add: ends_literal_def)

lemma reads_quotes_quoted:
  assumes "reads_quotes rd" and "ends_literal rest"
  shows "CHR 0x00 \<notin> set (double_quotes s) \<Longrightarrow> rd (double_quotes s @ CHR 0x27 # rest) = Some (s, rest)"
proof (induction s)
  case Nil
  with assms show ?case by (simp add: double_quotes_def reads_quotes_def)
next
  case (Cons c s)
  have step: "double_quotes (c # s) = (if c = CHR 0x27 then [c, c] else [c]) @ double_quotes s"
    by (simp add: double_quotes_def)
  have "rd (double_quotes s @ CHR 0x27 # rest) = Some (s, rest)" and "c \<noteq> CHR 0x00"
    using Cons by (auto simp: step split: if_splits)
  with assms(1) show ?case by (auto simp: step reads_quotes_def)
qed

lemma sql_read_reads_quotes: "reads_quotes sql_read"
proof -
  have "sql_read (CHR 0x27 # s) = Some ([], s)" if "ends_literal s" for s
    using ends_literal_no_quote [OF that] by (cases s) simp_all
  moreover have "sql_read (c # s) = map_option (\<lambda>(t, r). (c # t, r)) (sql_read s)" if "c \<noteq> CHR 0x27" for c s
    using that by (cases s) simp_all
  ultimately show ?thesis by (simp add: reads_quotes_def)
qed

text \<open>
  C37: whatever reads literals as PostgreSQL documents it reads a literal of the file, up to its end
  and no further, as what it was made from: the literal of a text as that text, that of a list or a
  dictionary as its JSON text with sorted keys, followed by the cast to jsonb. No value can end its
  literal early, and none goes beyond it; a NUL, which PostgreSQL refuses, is excluded. The JSON text
  of a value without floats is one that \<open>json.loads\<close> reads as that value with sorted keys.
\<close>

theorem psql_literal_roundtrip:
  assumes "reads_quotes rd" and "is_str v \<or> is_list v \<or> is_obj v"
    and "CHR 0x00 \<notin> set (psql_literal v)" and "ends_literal rest"
  shows "\<exists>body. psql_literal v = CHR 0x27 # body \<and>
     rd (body @ rest) =
       (case v of JStr s \<Rightarrow> Some (s, rest) | _ \<Rightarrow> Some (json_dumps False (sort_json v), ''::jsonb'' @ rest)) \<and>
     (plain False v \<longrightarrow> json_loads (json_dumps False (sort_json v)) = Inr (sort_json v))"
proof -
  have loads: "plain False v \<longrightarrow> json_loads (json_dumps False (sort_json v)) = Inr (sort_json v)"
    using loads_dumps [OF plain_sort] by blast
  show ?thesis
  proof (cases "is_str v")
    case True
    then obtain s where v: "v = JStr s" by (cases v) simp_all
    have "rd (double_quotes s @ CHR 0x27 # rest) = Some (s, rest)"
      using assms(3) by (intro reads_quotes_quoted [OF assms(1,4)]) (simp add: v quoted_def)
    with loads show ?thesis by (intro exI [of _ "double_quotes s @ [CHR 0x27]"]) (simp add: v quoted_def)
  next
    case False
    define js where "js = json_dumps False (sort_json v)"
    have lit: "psql_literal v = quoted (double_quotes js) @ ''::jsonb''"
      using False assms(2) by (cases v) (simp_all add: js_def)
    have "rd (double_quotes js @ CHR 0x27 # ''::jsonb'' @ rest) = Some (js, ''::jsonb'' @ rest)"
      using assms(3) by (intro reads_quotes_quoted [OF assms(1) ends_literal_cast]) (simp add: lit quoted_def)
    moreover have "(case v of JStr s \<Rightarrow> Some (s, rest) | _ \<Rightarrow> Some (js, ''::jsonb'' @ rest)) = Some (js, ''::jsonb'' @ rest)"
      using False by (cases v) simp_all
    ultimately show ?thesis using loads unfolding js_def [symmetric] lit
      by (intro exI [of _ "double_quotes js @ CHR 0x27 # ''::jsonb''"]) (simp add: quoted_def)
  qed
qed

lemma psql_literal_roundtrip_witness:
  "\<exists>body. psql_literal (JObj [(''n'', JStr [CHR 0x27]), (''a'', JList [JInt 1])]) = CHR 0x27 # body \<and>
     sql_read (body @ '','') = Some (json_dumps False (JObj [(''a'', JList [JInt 1]), (''n'', JStr [CHR 0x27])]), ''::jsonb,'')"
proof -
  let ?v = "JObj [(''n'', JStr [CHR 0x27]), (''a'', JList [JInt 1])]"
  have "CHR 0x00 \<notin> set (psql_literal ?v)" by code_simp
  moreover have "sort_json ?v = JObj [(''a'', JList [JInt 1]), (''n'', JStr [CHR 0x27])]" by code_simp
  moreover have "ends_literal '',''" by code_simp
  ultimately show ?thesis
    using psql_literal_roundtrip [OF sql_read_reads_quotes, of ?v "'',''"] by auto
qed

end
