(* ===== verification/Smoke.thy ===== *)
theory Smoke
  imports World Protocol "HOL-Library.Product_Lexorder"
begin

text \<open>
  \<open>scripts/smoke_integrations.py\<close>: the command-line client that lists the tools it can see, calls
  each of them once with minimal arguments, classifies the answers and prints a table. The script
  runs outside the gateway: its state is the trace of its own interactions, answered by a world.
  What it writes to the standard error is left out.
\<close>

section \<open>The surroundings of a run\<close>

text \<open>
  The clock of the wall, the date as year, month and day, the function \<open>jose.jwt.encode\<close> (with
  HS256) and the text of httpx's HTTPStatusError.
\<close>

record surroundings =
  su_world :: world
  su_time :: int
  su_today :: "int \<times> int \<times> int"
  su_encode :: "json dict \<Rightarrow> string \<Rightarrow> string"
  su_status_text :: "http_req \<Rightarrow> http_resp \<Rightarrow> string"

definition DEFAULT_BASE :: string where "DEFAULT_BASE = ''http://localhost:8000''"

definition DEFAULT_TIMEOUT :: pyfloat where "DEFAULT_TIMEOUT = PFin 30"

section \<open>Python operations on any value\<close>

text \<open>\<open>k in v\<close>, \<open>v.get(k)\<close>, \<open>v[k]\<close> and \<open>v[0]\<close>.\<close>

fun py_in :: "string \<Rightarrow> json \<Rightarrow> bool res" where
  "py_in k (JObj kvs) = Inr (k \<in> fst ` set kvs)"
| "py_in k (JList xs) = Inr (JStr k \<in> set xs)"
| "py_in k (JStr s) = Inr (contains k s)"
| "py_in k v = Inl (TypeError (''argument of type '' @ quoted (type_name v) @ '' is not iterable''))"

definition get_attr :: "json \<Rightarrow> string \<Rightarrow> json res" where
  "get_attr v k = bindE (as_dict v) (\<lambda>d. Inr (jget d k))"

fun item :: "json \<Rightarrow> string \<Rightarrow> json res" where
  "item (JObj kvs) k = (case map_of kvs k of None \<Rightarrow> Inl (PyError ''KeyError'' (repr_text k)) | Some v \<Rightarrow> Inr v)"
| "item (JList xs) k = Inl (TypeError ''list indices must be integers or slices, not str'')"
| "item (JStr s) k = Inl (TypeError (''string indices must be integers, not '' @ quoted ''str''))"
| "item v k = Inl (TypeError (quoted (type_name v) @ '' object is not subscriptable''))"

fun first_item :: "json \<Rightarrow> json res" where
  "first_item (JList (x # xs)) = Inr x"
| "first_item (JList []) = Inl (PyError ''IndexError'' ''list index out of range'')"
| "first_item (JStr s) =
     (case chars_of s of [] \<Rightarrow> Inl (PyError ''IndexError'' ''string index out of range'') | c # cs \<Rightarrow> Inr (JStr c))"
| "first_item (JObj kvs) = Inl (PyError ''KeyError'' ''0'')"
| "first_item v = Inl (TypeError (quoted (type_name v) @ '' object is not subscriptable''))"

text \<open>\<open>v == n\<close> for an integer: equal numbers of either type are equal.\<close>

definition is_number :: "json \<Rightarrow> int \<Rightarrow> bool" where
  "is_number v n = (hash_key v = Inr (JInt n))"

text \<open>\<open>d.setdefault(k, v)\<close>.\<close>

definition setdefault :: "string \<Rightarrow> json \<Rightarrow> json dict \<Rightarrow> json dict" where
  "setdefault k v d = (if k \<in> fst ` set d then d else d @ [(k, v)])"

text \<open>\<open>s.split(c)\<close>.\<close>

fun split_on :: "char \<Rightarrow> string \<Rightarrow> string list" where
  "split_on c [] = [[]]"
| "split_on c (x # xs) = (if x = c then [] # split_on c xs else (case split_on c xs of [] \<Rightarrow> [[x]] | f # fs \<Rightarrow> (x # f) # fs))"

text \<open>A key of a dictionary as JSON writes it.\<close>

fun key_text :: "json \<Rightarrow> string" where
  "key_text (JStr s) = s"
| "key_text v = json_dumps True v"

section \<open>The development token\<close>

definition token_payload :: "int \<Rightarrow> string list \<Rightarrow> string \<Rightarrow> string \<Rightarrow> string option \<Rightarrow> int \<Rightarrow> json dict" where
  "token_payload now rs subject audience issuer ttl =
     [(''sub'', JStr subject), (''roles'', JList (map JStr rs)), (''email'', JStr (subject @ ''@smoke.local'')),
      (''name'', JStr subject), (''iat'', JInt now), (''exp'', JInt (now + ttl))]
     @ (if audience \<noteq> [] then [(''aud'', JStr audience)] else [])
     @ (if some_text issuer then [(''iss'', JStr (the issuer))] else [])"

definition mint_dev_token ::
  "surroundings \<Rightarrow> string \<Rightarrow> string list \<Rightarrow> string \<Rightarrow> string \<Rightarrow> string option \<Rightarrow> int \<Rightarrow> string" where
  "mint_dev_token su secret rs subject audience issuer ttl =
     su_encode su (token_payload (su_time su) rs subject audience issuer ttl) secret"

section \<open>Arguments\<close>

text \<open>\<open>_OVERRIDES\<close> as it is written; of two entries for a tool the later one counts.\<close>

definition chat_message :: string where
  "chat_message =
     concat (map utf8 [0x7ED9, 0x6211, 0x4E00, 0x4E2A, 0x5355, 0x9875]) @ '' smoke '' @
     concat (map utf8 [0x6D4B, 0x8BD5]) @ '' word''"

definition overrides :: "(string \<times> json dict) list" where
  "overrides =
     [(''kb.search'', [(''query'', JStr ''chat-gw smoke''), (''top'', JInt 1)]),
      (''web.search'', [(''q'', JStr ''chat-gw smoke''), (''num'', JInt 1)]),
      (''ticket.list'', [(''page'', JInt 1), (''page_size'', JInt 1)]),
      (''sales.list_customers'', [(''page'', JInt 1), (''page_size'', JInt 1)]),
      (''sales.list_allocations'', [(''page'', JInt 1), (''page_size'', JInt 1)]),
      (''sandbox.run_python'', [(''code'', JStr (''print('' @ quoted ''ok'' @ '')'')), (''timeout_sec'', JInt 5)]),
      (''doc.generate'', [(''template'', JStr ''smoke''), (''context'', JObj [(''note'', JStr ''smoke'')]), (''format'', JStr ''md'')]),
      (''jina.search'', [(''query'', JStr ''chat-gw'')]),
      (''jina.read'', [(''url'', JStr ''https://example.com/'')]),
      (''doc.generate'', [(''prompt'', JStr ''chat-gw smoke: one-line hello''), (''output_type'', JStr ''word'')]),
      (''doc.chat'', [(''message'', JStr chat_message)]),
      (''doc.generate_ppt'', [(''prompt'', JStr ''chat-gw smoke deck''), (''num_slides'', JInt 3)]),
      (''doc.generate_word'', [(''prompt'', JStr ''chat-gw smoke word'')]),
      (''doc.generate_table'', [(''prompt'', JStr ''chat-gw smoke table''), (''format'', JStr ''xlsx'')]),
      (''ticket.get'', [(''id'', JStr ''d0c186cf-0a2b-485f-b9ff-5fa5f89eb2cd'')]),
      (''ticket.list_messages'', [(''ticket_id'', JStr ''d0c186cf-0a2b-485f-b9ff-5fa5f89eb2cd'')]),
      (''sales.get_customer'', [(''id'', JInt 2)]),
      (''cloud_cost.service_account_get'', [(''account_id'', JInt 7)]),
      (''cloud_cost.service_account_costs'',
        [(''account_id'', JInt 7), (''start_date'', JStr ''2026-04-01''), (''end_date'', JStr ''2026-04-22'')]),
      (''cloud_cost.project_get'', [(''project_id'', JInt 7)]),
      (''cloud_cost.project_assignment_logs'', [(''project_id'', JInt 7)]),
      (''cloud_cost.bill_get'', [(''bill_id'', JInt 3)])]"

definition override :: "string \<Rightarrow> json dict option" where
  "override name = map_of (rev overrides) name"

text \<open>The dates, with two digits for months and days and four for years.\<close>

definition two :: "int \<Rightarrow> string" where
  "two n = (if n < 10 then CHR ''0'' # int_str n else int_str n)"

definition month_text :: "surroundings \<Rightarrow> string" where
  "month_text su = (case su_today su of (y, m, d) \<Rightarrow> int_str y @ ''-'' @ two m)"

definition date_text :: "surroundings \<Rightarrow> string" where
  "date_text su = (case su_today su of (y, m, d) \<Rightarrow> int_str y @ ''-'' @ two m @ ''-'' @ two d)"

definition month_pattern :: string where
  "month_pattern = ''^'' @ [CHR 0x5C] @ ''d{4}-'' @ [CHR 0x5C] @ ''d{2}$''"

definition string_value :: "surroundings \<Rightarrow> json \<Rightarrow> json \<Rightarrow> string \<Rightarrow> string" where
  "string_value su fmt pattern key =
     (if fmt = JStr ''date'' \<or> contains ''date'' key then date_text su
      else if pattern = JStr month_pattern \<or> contains ''month'' key then month_text su
      else if fmt = JStr ''uri'' then ''https://example.com/''
      else ''smoke'')"

definition typed_value :: "surroundings \<Rightarrow> json dict \<Rightarrow> string \<Rightarrow> json res" where
  "typed_value su spec key =
     (let typ = jget spec ''type''
      in if typ = JStr ''string'' then Inr (JStr (string_value su (jget spec ''format'') (jget spec ''pattern'') key))
         else if typ = JStr ''integer'' then bindE (to_int (py_or (jget spec ''minimum'') (JInt 1))) (\<lambda>i. Inr (JInt i))
         else if typ = JStr ''number'' then bindE (to_float (py_or (jget spec ''minimum'') (JInt 1))) (\<lambda>f. Inr (JFloat f))
         else if typ = JStr ''boolean'' then Inr (JBool False)
         else if typ = JStr ''array'' then Inr (JList [])
         else if typ = JStr ''object'' then Inr (JObj [])
         else Inr JNull)"

definition value_for :: "surroundings \<Rightarrow> json \<Rightarrow> string \<Rightarrow> json res" where
  "value_for su spec key =
     bindE (py_in ''default'' spec) (\<lambda>preset.
       if preset then item spec ''default''
       else bindE (py_in ''enum'' spec) (\<lambda>listed.
            bindE (if listed then item spec ''enum'' else Inr JNull) (\<lambda>enum.
              if truthy enum then first_item enum
              else bindE (as_dict spec) (\<lambda>d. typed_value su d key))))"

text \<open>
  One required key: its value is stored under the text the request will show. A key that is no text
  has no entry among the properties, so that its value is None; a list or dictionary cannot be a key.
\<close>

definition fill_key :: "surroundings \<Rightarrow> json \<Rightarrow> json \<Rightarrow> json dict \<Rightarrow> json dict res" where
  "fill_key su properties key out =
     bindE (as_dict properties) (\<lambda>props.
     bindE (hash_key key) (\<lambda>_.
       case key of
         JStr k \<Rightarrow> bindE (value_for su (py_or (jget props k) (JObj [])) k) (\<lambda>v. Inr (AList.update k v out))
       | _ \<Rightarrow> Inr (AList.update (key_text key) JNull out)))"

fun fill_keys :: "surroundings \<Rightarrow> json \<Rightarrow> json list \<Rightarrow> json dict \<Rightarrow> json dict res" where
  "fill_keys su properties [] out = Inr out"
| "fill_keys su properties (k # ks) out = bindE (fill_key su properties k out) (fill_keys su properties ks)"

definition fill_required :: "surroundings \<Rightarrow> json \<Rightarrow> json dict res" where
  "fill_required su schema =
     (if \<not> truthy schema then Inr []
      else bindE (as_dict schema) (\<lambda>d.
        if jget d ''type'' \<noteq> JStr ''object'' then Inr []
        else bindE (iterate (py_or (jget d ''required'') (JList []))) (\<lambda>required.
             fill_keys su (py_or (jget d ''properties'') (JObj [])) required [])))"

definition month_tools :: "string list" where
  "month_tools =
     [''cloud_cost.dashboard_bundle'', ''cloud_cost.dashboard_overview'', ''cloud_cost.dashboard_by_provider'',
      ''cloud_cost.dashboard_by_category'', ''cloud_cost.dashboard_by_project'', ''cloud_cost.dashboard_by_service'',
      ''cloud_cost.dashboard_by_region'', ''cloud_cost.dashboard_unassigned'', ''cloud_cost.bills_list'',
      ''cloud_cost.alerts_rule_status'']"

definition range_tools :: "string list" where
  "range_tools = [''cloud_cost.service_account_costs'', ''cloud_cost.service_accounts_daily_report'']"

definition adjust_args :: "surroundings \<Rightarrow> string \<Rightarrow> json dict \<Rightarrow> json dict" where
  "adjust_args su name base =
     (let base = (if name \<in> set month_tools then setdefault ''month'' (JStr (month_text su)) base else base)
      in if name \<in> set range_tools
         then setdefault ''end_date'' (JStr (date_text su)) (setdefault ''start_date'' (JStr (date_text su)) base)
         else base)"

definition build_args :: "surroundings \<Rightarrow> string \<Rightarrow> json \<Rightarrow> json dict res" where
  "build_args su name schema =
     bindE (case override name of Some base \<Rightarrow> Inr base | None \<Rightarrow> fill_required su schema) (\<lambda>base.
       Inr (adjust_args su name base))"

section \<open>Classification\<close>

text \<open>The detail is a text, except for a denied call whose message is none.\<close>

record outcome =
  o_tool :: string
  o_status :: string
  o_latency_ms :: int
  o_detail :: json

definition trim_text :: "string \<Rightarrow> string" where
  "trim_text s =
     (let t = map (\<lambda>c. if c = CHR 0x0A then CHR '' '' else c) (strip s)
      in if cp_length t \<le> 110 then t else cp_take 109 t @ utf8 0x2026)"

definition trim :: "json \<Rightarrow> string res" where
  "trim v =
     (if \<not> truthy v then Inr []
      else (case v of JStr s \<Rightarrow> Inr (trim_text s) | _ \<Rightarrow> Inl (no_attr v ''strip'')))"

text \<open>The text of the first content item, if the result has one; whatever fails on the way is swallowed.\<close>

definition content_text :: "json \<Rightarrow> string option" where
  "content_text result =
     (case result of
        JObj d \<Rightarrow>
          (case jget d ''content'' of
             JList (JObj c # xs) \<Rightarrow>
               (case trim (jget_default c ''text'' (JStr [])) of Inr t \<Rightarrow> Some t | Inl e \<Rightarrow> None)
           | _ \<Rightarrow> None)
      | _ \<Rightarrow> None)"

definition short_result :: "json \<Rightarrow> string" where
  "short_result result =
     (case content_text result of Some t \<Rightarrow> t | None \<Rightarrow> trim_text (json_dumps False result))"

text \<open>The status for an error with this code and kind.\<close>

definition verdict :: "json \<Rightarrow> json \<Rightarrow> string" where
  "verdict code kind =
     (if is_number code (-32001) \<and> kind = JStr [] then ''denied''
      else if is_number code (-32602)
      then (if kind = JStr ''upstream_bad_request'' then ''upstream_400'' else ''invalid_params'')
      else if kind = JStr ''config_error'' then ''config_error''
      else if kind \<in> {JStr ''upstream_denied'', JStr ''upstream_not_found'', JStr ''remote_mcp_error''} then ''upstream_denied''
      else if kind \<in> {JStr ''upstream_timeout'', JStr ''upstream_error'', JStr ''mcp_proxy_not_ready''} then ''upstream_error''
      else ''unknown'')"

definition classify_error :: "string \<Rightarrow> json dict \<Rightarrow> int \<Rightarrow> outcome res" where
  "classify_error name err ms =
     (let code = jget err ''code''; message = py_or (jget err ''message'') (JStr [])
      in bindE (get_attr (py_or (jget err ''data'') (JObj [])) ''kind'') (\<lambda>k.
         (let kind = py_or k (JStr []); status = verdict code kind
          in if status = ''denied''
             then Inr \<lparr>o_tool = name, o_status = status, o_latency_ms = ms, o_detail = message\<rparr>
             else bindE (trim message) (\<lambda>t.
                    Inr \<lparr>o_tool = name, o_status = status, o_latency_ms = ms,
                      o_detail = JStr (if status = ''unknown'' then ''code='' @ py_str code @ '' msg='' @ t else t)\<rparr>))))"

definition classify :: "string \<Rightarrow> json \<Rightarrow> int \<Rightarrow> outcome res" where
  "classify name response ms =
     bindE (py_in ''result'' response) (\<lambda>good.
       if good
       then bindE (item response ''result'') (\<lambda>result.
              Inr \<lparr>o_tool = name, o_status = ''ok'', o_latency_ms = ms, o_detail = JStr (short_result result)\<rparr>)
       else bindE (get_attr response ''error'') (\<lambda>e.
            bindE (as_dict (py_or e (JObj []))) (\<lambda>err. classify_error name err ms)))"

section \<open>Requests\<close>

type_synonym 'a client = "trace \<Rightarrow> 'a res \<times> trace"

text \<open>\<open>client.post\<close>, \<open>raise_for_status\<close> and \<open>json\<close>: the document or the exception.\<close>

definition smoke_request :: "string \<Rightarrow> string \<Rightarrow> pyfloat \<Rightarrow> json \<Rightarrow> http_req" where
  "smoke_request base token timeout body =
     \<lparr>hr_verb = ''POST'', hr_url = base @ ''/mcp'', hr_params = [], hr_body = Some body,
      hr_headers = [(''Authorization'', ''Bearer '' @ token)], hr_timeout = timeout\<rparr>"

definition client_post :: "surroundings \<Rightarrow> http_req \<Rightarrow> http_resp client" where
  "client_post su r tr =
     (let tr' = tr @ [EvHttp r]
      in (case w_http (su_world su) tr' of
            Response resp \<Rightarrow> Inr resp
          | Timeout t \<Rightarrow> Inl (PyError ''TimeoutException'' t)
          | TransportError t \<Rightarrow> Inl (PyError ''TransportError'' t)
          | Raised c t \<Rightarrow> Inl (PyError c t), tr'))"

definition read_reply :: "surroundings \<Rightarrow> http_req \<Rightarrow> http_resp \<Rightarrow> json res" where
  "read_reply su r resp =
     (if \<not> is_success resp then Inl (PyError ''HTTPStatusError'' (su_status_text su r resp))
      else (case resp_json resp of Inl e \<Rightarrow> Inl (ValueError e) | Inr v \<Rightarrow> Inr v))"

definition smoke_list_tools :: "surroundings \<Rightarrow> string \<Rightarrow> string \<Rightarrow> pyfloat \<Rightarrow> json client" where
  "smoke_list_tools su base token timeout tr =
     (let r = smoke_request base token timeout
                (JObj [(''jsonrpc'', JStr ''2.0''), (''id'', JStr ''list''), (''method'', JStr ''tools/list'')])
      in case client_post su r tr of
           (Inl e, tr) \<Rightarrow> (Inl e, tr)
         | (Inr resp, tr) \<Rightarrow>
             (bindE (read_reply su r resp) (\<lambda>body.
              bindE (py_in ''error'' body) (\<lambda>failed.
                if failed then bindE (item body ''error'') (\<lambda>e. Inl (RuntimeError (''tools/list failed: '' @ py_str e)))
                else bindE (item body ''result'') (\<lambda>result. item result ''tools''))), tr))"

definition call_request :: "string \<Rightarrow> string \<Rightarrow> pyfloat \<Rightarrow> string \<Rightarrow> string \<Rightarrow> json dict \<Rightarrow> http_req" where
  "call_request base token timeout i name args =
     smoke_request base token timeout
       (JObj [(''jsonrpc'', JStr ''2.0''), (''id'', JStr i), (''method'', JStr ''tools/call''),
              (''params'', JObj [(''name'', JStr name), (''arguments'', JObj args)])])"

text \<open>The reply is read after the second look at the clock.\<close>

definition call_tool :: "surroundings \<Rightarrow> string \<Rightarrow> string \<Rightarrow> pyfloat \<Rightarrow> string \<Rightarrow> json dict \<Rightarrow> (json \<times> int) client" where
  "call_tool su base token timeout name args tr =
     (let tr0 = tr @ [EvClock]; started = w_clock (su_world su) tr0;
          tr1 = tr0 @ [EvUuid]; r = call_request base token timeout (w_uuid (su_world su) tr1) name args
      in case client_post su r tr1 of
           (Inl e, tr2) \<Rightarrow> (Inl e, tr2)
         | (Inr resp, tr2) \<Rightarrow>
             (let tr3 = tr2 @ [EvClock]; elapsed = trunc_rat ((w_clock (su_world su) tr3 - started) * 1000)
              in (bindE (read_reply su r resp) (\<lambda>body. Inr (body, elapsed)), tr3)))"

section \<open>Report\<close>

text \<open>\<open>len\<close> and \<open>s.ljust(n)\<close>.\<close>

fun py_len :: "json \<Rightarrow> nat res" where
  "py_len (JStr s) = Inr (cp_length s)"
| "py_len (JList xs) = Inr (length xs)"
| "py_len (JObj kvs) = Inr (length kvs)"
| "py_len v = Inl (TypeError (''object of type '' @ quoted (type_name v) @ '' has no len()''))"

definition ljust :: "nat \<Rightarrow> string \<Rightarrow> string" where
  "ljust n s = s @ replicate (n - cp_length s) CHR '' ''"

definition table_headers :: "string list" where
  "table_headers = [''STATUS'', ''LATENCY'', ''TOOL'', ''DETAIL'']"

definition row_of :: "outcome \<Rightarrow> json list" where
  "row_of o' = [JStr (upper (o_status o')), JStr (int_str (o_latency_ms o') @ ''ms''), JStr (o_tool o'), o_detail o']"

text \<open>The maximum over the rows; without rows \<open>max\<close> has a single argument, an integer.\<close>

definition column_width :: "json list list \<Rightarrow> nat \<Rightarrow> nat res" where
  "column_width rows i =
     bindE (mapE (\<lambda>r. py_len (r ! i)) rows) (\<lambda>ns.
       if ns = [] then Inl (TypeError (quoted ''int'' @ '' object is not iterable''))
       else Inr (Max (insert (cp_length (table_headers ! i)) (set ns))))"

definition cell :: "nat \<Rightarrow> json \<Rightarrow> string res" where
  "cell n v = (case v of JStr s \<Rightarrow> Inr (ljust n s) | _ \<Rightarrow> Inl (no_attr v ''ljust''))"

definition table_line :: "nat list \<Rightarrow> json list \<Rightarrow> string res" where
  "table_line widths r = bindE (mapE (\<lambda>(n, v). cell n v) (zip widths r)) (\<lambda>cs. Inr (join ''  '' cs))"

text \<open>The lines printed, and how printing ends.\<close>

fun print_rows :: "nat list \<Rightarrow> json list list \<Rightarrow> string list \<times> unit res" where
  "print_rows widths [] = ([], Inr ())"
| "print_rows widths (r # rows) =
     (case table_line widths r of
        Inl e \<Rightarrow> ([], Inl e)
      | Inr line \<Rightarrow> (case print_rows widths rows of (ls, out) \<Rightarrow> (line # ls, out)))"

definition print_table :: "outcome list \<Rightarrow> string list \<times> unit res" where
  "print_table outcomes =
     (let rows = map row_of outcomes
      in case mapE (column_width rows) [0, 1, 2, 3] of
           Inl e \<Rightarrow> ([], Inl e)
         | Inr widths \<Rightarrow>
             (case print_rows widths rows of
                (ls, out) \<Rightarrow>
                  (join ''  '' (map (\<lambda>(n, h). ljust n h) (zip widths table_headers)) #
                   join ''  '' (map (\<lambda>n. replicate n CHR ''-'') widths) # ls, out)))"

definition summarize :: "outcome list \<Rightarrow> (string \<times> nat) list" where
  "summarize outcomes =
     fold (\<lambda>o' counts. AList.update (o_status o') ((case map_of counts (o_status o') of None \<Rightarrow> 0 | Some n \<Rightarrow> n) + 1) counts)
       outcomes []"

definition summary_line :: "outcome list \<Rightarrow> string" where
  "summary_line outcomes =
     ''summary: '' @ join '', '' (map (\<lambda>(k, n). k @ ''='' @ nat_str n) (sort_key fst (summarize outcomes)))"

definition hard_fail_statuses :: "string list" where
  "hard_fail_statuses = [''invalid_params'', ''unknown'', ''request_error'']"

section \<open>The driver\<close>

record smoke_args =
  sm_base :: string
  sm_secret :: string
  sm_audience :: string
  sm_issuer :: "string option"
  sm_roles :: string
  sm_subject :: string
  sm_only :: "string option"
  sm_include :: string
  sm_bearer :: "string option"
  sm_cloud_cost_token :: "string option"
  sm_timeout :: pyfloat

definition comma_list :: "string \<Rightarrow> string list" where
  "comma_list s = filter (\<lambda>t. t \<noteq> []) (map strip (split_on CHR '','' s))"

definition caller_token :: "surroundings \<Rightarrow> smoke_args \<Rightarrow> string" where
  "caller_token su a =
     (if some_text (sm_bearer a) then the (sm_bearer a)
      else mint_dev_token su (sm_secret a) (comma_list (sm_roles a)) (sm_subject a) (sm_audience a) (sm_issuer a) 600)"

definition included :: "smoke_args \<Rightarrow> string list" where
  "included a = comma_list (sm_include a)"

definition only_filter :: "smoke_args \<Rightarrow> string list option" where
  "only_filter a = (if some_text (sm_only a) then Some (map strip (split_on CHR '','' (the (sm_only a)))) else None)"

text \<open>
  \<open>name not in only_filter\<close> and the split of the name: None when the tool is left out, else its name.
\<close>

definition selected_name :: "smoke_args \<Rightarrow> json \<Rightarrow> string option res" where
  "selected_name a v =
     bindE (case only_filter a of
              None \<Rightarrow> Inr True
            | Some names \<Rightarrow> bindE (hash_key v) (\<lambda>_. Inr (v \<in> JStr ` set names))) (\<lambda>wanted.
       if \<not> wanted then Inr None
       else (case v of JStr name \<Rightarrow> Inr (Some name) | _ \<Rightarrow> Inl (no_attr v ''split'')))"

definition category_of :: "string \<Rightarrow> string" where
  "category_of name = fst (split_once CHR ''.'' name)"

text \<open>The token for a call; without one the tool is skipped.\<close>

definition token_for :: "surroundings \<Rightarrow> smoke_args \<Rightarrow> string \<Rightarrow> string option" where
  "token_for su a name =
     (if category_of name \<noteq> ''cloud_cost'' then Some (caller_token su a)
      else if some_text (sm_cloud_cost_token a) then sm_cloud_cost_token a
      else if some_text (sm_bearer a) then sm_bearer a
      else None)"

definition skipped :: "string \<Rightarrow> outcome" where
  "skipped name =
     \<lparr>o_tool = name, o_status = ''skipped'', o_latency_ms = 0,
      o_detail = JStr ''cloud_cost.* needs --cloud-cost-token or --bearer''\<rparr>"

text \<open>One tool: at most one outcome. An exception of \<open>call_tool\<close> is an outcome of its own.\<close>

definition smoke_call :: "surroundings \<Rightarrow> smoke_args \<Rightarrow> string \<Rightarrow> string \<Rightarrow> json dict \<Rightarrow> outcome client" where
  "smoke_call su a token name payload tr =
     (case call_tool su (sm_base a) token (sm_timeout a) name payload tr of
        (Inl e, tr) \<Rightarrow>
          (Inr \<lparr>o_tool = name, o_status = ''request_error'', o_latency_ms = 0, o_detail = JStr (trim_text (exn_text e))\<rparr>, tr)
      | (Inr (body, elapsed), tr) \<Rightarrow> (classify name body elapsed, tr))"

definition smoke_tool :: "surroundings \<Rightarrow> smoke_args \<Rightarrow> json \<Rightarrow> outcome option client" where
  "smoke_tool su a tool tr =
     (case bindE (item tool ''name'') (selected_name a) of
        Inl e \<Rightarrow> (Inl e, tr)
      | Inr None \<Rightarrow> (Inr None, tr)
      | Inr (Some name) \<Rightarrow>
          (if category_of name = ''cloud_cost'' \<and> ''cloud_cost'' \<notin> set (included a) then (Inr None, tr)
           else (case token_for su a name of
                   None \<Rightarrow> (Inr (Some (skipped name)), tr)
                 | Some token \<Rightarrow>
                     (case bindE (get_attr tool ''inputSchema'') (\<lambda>schema. build_args su name (py_or schema (JObj []))) of
                        Inl e \<Rightarrow> (Inl e, tr)
                      | Inr payload \<Rightarrow>
                          (case smoke_call su a token name payload tr of (r, tr) \<Rightarrow> (bindE r (\<lambda>x. Inr (Some x)), tr))))))"

fun smoke_tools :: "surroundings \<Rightarrow> smoke_args \<Rightarrow> json list \<Rightarrow> outcome list client" where
  "smoke_tools su a [] tr = (Inr [], tr)"
| "smoke_tools su a (t # ts) tr =
     (case smoke_tool su a t tr of
        (Inl e, tr) \<Rightarrow> (Inl e, tr)
      | (Inr found, tr) \<Rightarrow>
          (case smoke_tools su a ts tr of
             (Inl e, tr) \<Rightarrow> (Inl e, tr)
           | (Inr outcomes, tr) \<Rightarrow> (Inr ((case found of None \<Rightarrow> [] | Some x \<Rightarrow> [x]) @ outcomes), tr)))"

definition exit_code :: "outcome list \<Rightarrow> int" where
  "exit_code outcomes = (if \<exists>o' \<in> set outcomes. o_status o' \<in> set hard_fail_statuses then 1 else 0)"

text \<open>After the calls: the lines printed, and the exit code or the exception that ends the script.\<close>

definition report :: "outcome list \<Rightarrow> string list \<times> int res" where
  "report found =
     (let outcomes = sort_key (\<lambda>o'. (o_status o', o_tool o')) found
      in case print_table outcomes of
           (ls, Inl e) \<Rightarrow> (ls, Inl e)
         | (ls, Inr _) \<Rightarrow> (ls @ [[], summary_line outcomes], Inr (exit_code outcomes)))"

definition smoke_main :: "surroundings \<Rightarrow> smoke_args \<Rightarrow> trace \<Rightarrow> (string list \<times> int res) \<times> trace" where
  "smoke_main su a tr =
     (case smoke_list_tools su (sm_base a) (caller_token su a) (sm_timeout a) tr of
        (Inl e, tr) \<Rightarrow> (([], Inr 2), tr)
      | (Inr tools, tr) \<Rightarrow>
          (if \<not> truthy tools then (([], Inr 1), tr)
           else (case iterate tools of
                   Inl e \<Rightarrow> (([], Inl e), tr)
                 | Inr ts \<Rightarrow>
                     (case smoke_tools su a ts tr of
                        (Inl e, tr) \<Rightarrow> (([], Inl e), tr)
                      | (Inr outcomes, tr) \<Rightarrow> (report outcomes, tr)))))"

section \<open>Reading JSON-RPC answers\<close>

lemma classify_result:
  "classify n (jsonrpc_result i r) ms =
     Inr \<lparr>o_tool = n, o_status = ''ok'', o_latency_ms = ms, o_detail = JStr (short_result r)\<rparr>"
  by (simp add: classify_def jsonrpc_result_def)

text \<open>An error whose message is a text is always classified.\<close>

lemma classify_answer:
  assumes "data = None \<and> k = [] \<or> data = Some (JObj ((''kind'', JStr k) # rest))"
  shows "\<exists>t. classify n (jsonrpc_error i c m data) ms =
    Inr \<lparr>o_tool = n, o_status = verdict (JInt c) (JStr k), o_latency_ms = ms, o_detail = JStr t\<rparr>"
proof -
  let ?err = "[(''code'', JInt c), (''message'', JStr m)] @ (case data of None \<Rightarrow> [] | Some d \<Rightarrow> [(''data'', d)])"
  have step: "classify n (jsonrpc_error i c m data) ms = classify_error n ?err ms"
    by (simp add: classify_def jsonrpc_error_def get_attr_def jget_def py_or_def)
  have code: "jget ?err ''code'' = JInt c" and message: "py_or (jget ?err ''message'') (JStr []) = JStr m"
    by (simp_all add: jget_def py_or_def)
  have trims: "trim (JStr m) = Inr (if m = [] then [] else trim_text m)" by (simp add: trim_def)
  have "bindE (get_attr (py_or (jget ?err ''data'') (JObj [])) ''kind'') (\<lambda>x. Inr (py_or x (JStr []))) = Inr (JStr k)"
    using assms by (auto simp: get_attr_def jget_def py_or_def)
  then obtain x where kind: "get_attr (py_or (jget ?err ''data'') (JObj [])) ''kind'' = Inr x" "py_or x (JStr []) = JStr k"
    by (auto simp: bindE_eq_Inr)
  show ?thesis
    unfolding step classify_error_def Let_def code message kind bindE_simps trims by simp
qed

section \<open>What is printed\<close>

lemma cp_length_append [simp]: "cp_length (s @ t) = cp_length s + cp_length t"
  by (simp add: cp_length_def)

lemma cp_length_Cons [simp]: "cp_length (c # s) = (if continues_char c then cp_length s else Suc (cp_length s))"
  by (simp add: cp_length_def)

lemma cp_length_Nil [simp]: "cp_length [] = 0"
  by (simp add: cp_length_def)

lemma cp_length_plain: "\<forall>c \<in> set s. \<not> continues_char c \<Longrightarrow> cp_length s = length s"
  by (simp add: cp_length_def filter_id_conv)

lemma cp_length_ljust: "cp_length s \<le> n \<Longrightarrow> cp_length (ljust n s) = n"
  by (simp add: ljust_def cp_length_plain continues_char_def)

lemma mapE_Inr_map: "(\<And>x. x \<in> set xs \<Longrightarrow> f x = Inr (h x)) \<Longrightarrow> mapE f xs = Inr (map h xs)"
  by (induction xs) simp_all

text \<open>The texts of a row and the widths of the columns, when every detail is a text.\<close>

definition row_texts :: "outcome \<Rightarrow> string list" where
  "row_texts x = [upper (o_status x), int_str (o_latency_ms x) @ ''ms'', o_tool x, py_str (o_detail x)]"

definition width :: "outcome list \<Rightarrow> nat \<Rightarrow> nat" where
  "width xs i = Max (insert (cp_length (table_headers ! i)) (set (map (\<lambda>x. cp_length (row_texts x ! i)) xs)))"

definition line_of :: "nat list \<Rightarrow> string list \<Rightarrow> string" where
  "line_of widths ts = join ''  '' (map (\<lambda>(n, t). ljust n t) (zip widths ts))"

lemma row_of_texts: "is_str (o_detail x) \<Longrightarrow> row_of x = map JStr (row_texts x)"
  by (cases "o_detail x") (simp_all add: row_of_def row_texts_def)

lemma column_width_texts:
  assumes "xs \<noteq> []" and "\<forall>x \<in> set xs. is_str (o_detail x)" and "i < 4"
  shows "column_width (map row_of xs) i = Inr (width xs i)"
proof -
  have "py_len (row_of x ! i) = Inr (cp_length (row_texts x ! i))" if "x \<in> set xs" for x
  proof -
    have "i < length (row_texts x)" using assms(3) by (simp add: row_texts_def)
    then show ?thesis using that assms(2) by (simp add: row_of_texts)
  qed
  then have "mapE (\<lambda>r. py_len (r ! i)) (map row_of xs) = Inr (map (\<lambda>x. cp_length (row_texts x ! i)) xs)"
    by (induction xs) simp_all
  then show ?thesis using assms(1) by (simp add: column_width_def width_def)
qed

lemma print_rows_texts:
  "\<forall>x \<in> set xs. is_str (o_detail x) \<Longrightarrow>
     print_rows [a, b, c, d] (map row_of xs) = (map (\<lambda>x. line_of [a, b, c, d] (row_texts x)) xs, Inr ())"
  by (induction xs) (simp_all add: row_of_texts table_line_def row_texts_def cell_def line_of_def)

lemma print_table_texts:
  assumes "xs \<noteq> []" and "\<forall>x \<in> set xs. is_str (o_detail x)"
  defines "ws \<equiv> map (width xs) [0, 1, 2, 3]"
  shows "print_table xs =
    (line_of ws table_headers # join ''  '' (map (\<lambda>n. replicate n CHR ''-'') ws) # map (\<lambda>x. line_of ws (row_texts x)) xs,
     Inr ())"
proof -
  have "mapE (column_width (map row_of xs)) [0, 1, 2, 3] = Inr ws"
    unfolding ws_def by (rule mapE_Inr_map) (use column_width_texts [OF assms(1,2)] in auto)
  then show ?thesis
    using print_rows_texts [OF assms(2)] by (simp add: print_table_def Let_def ws_def line_of_def)
qed

lemma width_bounds:
  "cp_length (table_headers ! i) \<le> width xs i" "x \<in> set xs \<Longrightarrow> cp_length (row_texts x ! i) \<le> width xs i"
  unfolding width_def by (rule Max_ge; force)+

lemma line_width:
  assumes "length ts = 4" and "\<And>i. i < 4 \<Longrightarrow> cp_length (ts ! i) \<le> ws i"
  shows "cp_length (line_of (map ws [0, 1, 2, 3]) ts) = ws 0 + ws 1 + ws 2 + ws 3 + 6"
proof -
  obtain a b c d where ts: "ts = [a, b, c, d]" using assms(1) by (auto simp: length_Suc_conv numeral_eq_Suc)
  have "cp_length a \<le> ws 0" "cp_length b \<le> ws 1" "cp_length c \<le> ws 2" "cp_length d \<le> ws 3"
    using assms(2) [of 0] assms(2) [of 1] assms(2) [of 2] assms(2) [of 3] by (simp_all add: ts)
  moreover have "\<not> continues_char CHR '' ''" by code_simp
  ultimately show ?thesis by (simp add: line_of_def ts cp_length_ljust)
qed

text \<open>The counts.\<close>

lemma summarize_step: "map_of (summarize (xs @ [x])) k =
    (if o_status x = k then Some ((case map_of (summarize xs) k of None \<Rightarrow> 0 | Some n \<Rightarrow> n) + 1) else map_of (summarize xs) k)"
  by (simp add: summarize_def update_conv')

lemma summarize_counts:
  "(case map_of (summarize xs) k of None \<Rightarrow> 0 | Some n \<Rightarrow> n) = length (filter (\<lambda>x. o_status x = k) xs)"
  by (induction xs rule: rev_induct) (simp add: summarize_def, simp add: summarize_step)

text \<open>
  with outcomes whose details are texts the script prints a heading, a rule, one line per outcome,
  all of the same width, and a summary, and its exit code is 1 exactly when one of them is a hard
  failure; without any outcome, when no tool was selected, it ends with a TypeError.
\<close>

lemma smoke_report:
  assumes "\<forall>x \<in> set found. is_str (o_detail x)"
  shows "if found = [] then report found = ([], Inl (TypeError (quoted ''int'' @ '' object is not iterable'')))
    else \<exists>table summary n. report found = (table @ [[], summary], Inr (exit_code found)) \<and>
      length table = length found + 2 \<and> (\<forall>l \<in> set table. cp_length l = n)"
proof (cases "found = []")
  case True
  then show ?thesis by (simp add: report_def print_table_def column_width_def)
next
  case False
  define xs where "xs = sort_key (\<lambda>x. (o_status x, o_tool x)) found"
  have set_xs: "set xs = set found" by (simp add: xs_def)
  define ws where "ws = map (width xs) [0, 1, 2, 3]"
  define table where "table = line_of ws table_headers # join ''  '' (map (\<lambda>n. replicate n CHR ''-'') ws) #
    map (\<lambda>x. line_of ws (row_texts x)) xs"
  have "xs \<noteq> []" using False set_xs by (metis set_empty)
  then have "print_table xs = (table, Inr ())"
    unfolding table_def ws_def by (rule print_table_texts) (use assms set_xs in simp)
  then have report: "report found = (table @ [[], summary_line xs], Inr (exit_code found))"
    by (simp add: report_def xs_def [symmetric] exit_code_def set_xs)
  have plain: "\<not> continues_char CHR ''-''" "\<not> continues_char CHR '' ''" by code_simp+
  then have rule: "cp_length (join ''  '' (map (\<lambda>n. replicate n CHR ''-'') ws)) = width xs 0 + width xs 1 + width xs 2 + width xs 3 + 6"
    by (simp add: ws_def cp_length_plain)
  have head: "cp_length (line_of ws table_headers) = width xs 0 + width xs 1 + width xs 2 + width xs 3 + 6"
    unfolding ws_def by (rule line_width) (simp_all add: width_bounds(1) table_headers_def [THEN arg_cong, of length])
  have rows: "cp_length (line_of ws (row_texts x)) = width xs 0 + width xs 1 + width xs 2 + width xs 3 + 6" if "x \<in> set xs" for x
    unfolding ws_def by (rule line_width) (simp_all add: width_bounds(2) [OF that] row_texts_def [THEN arg_cong, of length])
  have "\<forall>l \<in> set table. cp_length l = width xs 0 + width xs 1 + width xs 2 + width xs 3 + 6"
    using rule head rows by (auto simp: table_def)
  moreover have "length table = length found + 2" by (simp add: table_def xs_def)
  ultimately show ?thesis using report False by auto
qed

section \<open>Whom the script calls, and with which token\<close>

text \<open>
  The tools of a listing a run is to call: those with a name that the filter does not leave out; a
  tool of cloud_cost only when that category was asked for and a token was given that it can take.
\<close>

fun tool_name :: "json \<Rightarrow> string option" where
  "tool_name (JObj kvs) = (case map_of kvs ''name'' of Some (JStr n) \<Rightarrow> Some n | _ \<Rightarrow> None)"
| "tool_name v = None"

definition picked :: "smoke_args \<Rightarrow> string \<Rightarrow> bool" where
  "picked a name \<longleftrightarrow>
     (case only_filter a of None \<Rightarrow> True | Some names \<Rightarrow> name \<in> set names) \<and>
     (category_of name \<noteq> ''cloud_cost'' \<or>
        ''cloud_cost'' \<in> set (included a) \<and> (some_text (sm_cloud_cost_token a) \<or> some_text (sm_bearer a)))"

definition picked_tool :: "smoke_args \<Rightarrow> json \<Rightarrow> bool" where
  "picked_tool a t = (case tool_name t of None \<Rightarrow> False | Some name \<Rightarrow> picked a name)"

text \<open>
  The one call of such a tool: its own name, the arguments for its own schema, and the token: for a
  tool of cloud_cost the token given for them or else the bearer, for others that of the listing.
\<close>

definition call_token :: "surroundings \<Rightarrow> smoke_args \<Rightarrow> string \<Rightarrow> string" where
  "call_token su a name =
     (if category_of name = ''cloud_cost''
      then (if some_text (sm_cloud_cost_token a) then the (sm_cloud_cost_token a) else the (sm_bearer a))
      else caller_token su a)"

definition call_of :: "surroundings \<Rightarrow> smoke_args \<Rightarrow> json \<Rightarrow> http_req \<Rightarrow> bool" where
  "call_of su a t q \<longleftrightarrow>
     (\<exists>kvs name args i. t = JObj kvs \<and> map_of kvs ''name'' = Some (JStr name) \<and>
        build_args su name (py_or (jget kvs ''inputSchema'') (JObj [])) = Inr args \<and>
        q = \<lparr>hr_verb = ''POST'', hr_url = sm_base a @ ''/mcp'', hr_params = [],
             hr_body = Some (JObj [(''jsonrpc'', JStr ''2.0''), (''id'', JStr i), (''method'', JStr ''tools/call''),
               (''params'', JObj [(''name'', JStr name), (''arguments'', JObj args)])]),
             hr_headers = [(''Authorization'', ''Bearer '' @ call_token su a name)], hr_timeout = sm_timeout a\<rparr>)"

fun http_of :: "event \<Rightarrow> http_req list" where
  "http_of (EvHttp r) = [r]"
| "http_of e = []"

definition requests_in :: "trace \<Rightarrow> http_req list" where
  "requests_in tr = concat (map http_of tr)"

lemma requests_in_simps [simp]:
  "requests_in [] = []" "requests_in (e # tr) = http_of e @ requests_in tr" "requests_in (tr @ tr') = requests_in tr @ requests_in tr'"
  by (simp_all add: requests_in_def)

lemma call_tool_trace:
  "\<exists>i rest. snd (call_tool su base token timeout name args tr) =
     tr @ [EvClock, EvUuid, EvHttp (call_request base token timeout i name args)] @ rest \<and> requests_in rest = []"
  by (auto simp: call_tool_def client_post_def Let_def split: prod.split http_outcome.split)

lemma smoke_call_trace:
  "\<exists>i rest. snd (smoke_call su a token name args tr) =
     tr @ [EvClock, EvUuid, EvHttp (call_request (sm_base a) token (sm_timeout a) i name args)] @ rest \<and> requests_in rest = []"
proof -
  have "snd (smoke_call su a token name args tr) = snd (call_tool su (sm_base a) token (sm_timeout a) name args tr)"
    by (auto simp: smoke_call_def split: prod.split sum.split)
  then show ?thesis using call_tool_trace by metis
qed

lemma item_name: "item t k = Inr v \<Longrightarrow> \<exists>kvs. t = JObj kvs \<and> map_of kvs k = Some v"
  by (cases t) (auto split: option.splits)

lemma selected_name_none: "selected_name a v = Inr None \<Longrightarrow> v = JStr name \<Longrightarrow> \<not> picked a name"
  by (auto simp: selected_name_def picked_def bindE_eq_Inr split: option.splits if_splits json.splits)

lemma selected_name_some:
  "selected_name a v = Inr (Some name) \<Longrightarrow>
     v = JStr name \<and> (case only_filter a of None \<Rightarrow> True | Some names \<Rightarrow> name \<in> set names)"
  by (auto simp: selected_name_def bindE_eq_Inr split: option.splits if_splits json.splits)

lemma token_for_picked:
  assumes "case only_filter a of None \<Rightarrow> True | Some names \<Rightarrow> name \<in> set names"
  shows "picked a name \<longleftrightarrow>
      \<not> (category_of name = ''cloud_cost'' \<and> ''cloud_cost'' \<notin> set (included a)) \<and> token_for su a name = Some (call_token su a name)"
    and "\<not> (category_of name = ''cloud_cost'' \<and> ''cloud_cost'' \<notin> set (included a)) \<Longrightarrow>
      token_for su a name = Some token \<Longrightarrow> token = call_token su a name"
  using assms by (auto simp: picked_def token_for_def call_token_def some_text_def split: option.splits if_splits)

text \<open>A tool of the listing is called once when it is picked and else not at all; an exception may come before its call.\<close>

lemma smoke_tool_calls:
  "\<exists>es. snd (smoke_tool su a t tr) = tr @ es \<and>
     (list_all2 (call_of su a) (filter (picked_tool a) [t]) (requests_in es) \<or>
      isl (fst (smoke_tool su a t tr)) \<and> requests_in es = [])"
proof (cases "bindE (item t ''name'') (selected_name a)")
  case (Inl e)
  then show ?thesis by (intro exI [of _ "[]"]) (simp add: smoke_tool_def)
next
  case (Inr chosen)
  then obtain v where v: "item t ''name'' = Inr v" "selected_name a v = Inr chosen" by (auto simp: bindE_eq_Inr)
  obtain kvs where kvs: "t = JObj kvs" "map_of kvs ''name'' = Some v" using item_name [OF v(1)] by blast
  show ?thesis
  proof (cases chosen)
    case None
    have "\<not> picked_tool a t"
      using selected_name_none [of a v] v(2) None kvs by (cases v) (simp_all add: picked_tool_def)
    with Inr None show ?thesis by (intro exI [of _ "[]"]) (simp add: smoke_tool_def)
  next
    case (Some name)
    have name: "v = JStr name" "case only_filter a of None \<Rightarrow> True | Some names \<Rightarrow> name \<in> set names"
      using selected_name_some [of a v name] v(2) Some by auto
    have pick: "picked_tool a t = picked a name" using kvs name(1) by (simp add: picked_tool_def)
    note token = token_for_picked [OF name(2), where su = su]
    show ?thesis
    proof (cases "picked a name")
      case False
      then have "smoke_tool su a t tr = (Inr None, tr) \<or> smoke_tool su a t tr = (Inr (Some (skipped name)), tr)"
        using token Inr Some by (auto simp: smoke_tool_def split: option.split)
      with False pick show ?thesis by (intro exI [of _ "[]"]) auto
    next
      case True
      let ?b = "build_args su name (py_or (jget kvs ''inputSchema'') (JObj []))"
      have step: "smoke_tool su a t tr = (case ?b of Inl e \<Rightarrow> (Inl e, tr)
          | Inr args \<Rightarrow> (case smoke_call su a (call_token su a name) name args tr of (r, tr) \<Rightarrow> (bindE r (\<lambda>x. Inr (Some x)), tr)))"
        using True token(1) Inr Some kvs(1) by (auto simp: smoke_tool_def get_attr_def)
      show ?thesis
      proof (cases ?b)
        case (Inl e)
        then show ?thesis using step by (intro exI [of _ "[]"]) simp
      next
        case args: (Inr args)
        obtain i rest where es: "snd (smoke_call su a (call_token su a name) name args tr) =
            tr @ [EvClock, EvUuid, EvHttp (call_request (sm_base a) (call_token su a name) (sm_timeout a) i name args)] @ rest"
            "requests_in rest = []"
          using smoke_call_trace by blast
        have "call_of su a t (call_request (sm_base a) (call_token su a name) (sm_timeout a) i name args)"
          unfolding call_of_def using kvs name(1) args by (auto simp: call_request_def smoke_request_def)
        moreover have "snd (smoke_tool su a t tr) = snd (smoke_call su a (call_token su a name) name args tr)"
          using step args by (simp split: prod.split)
        ultimately show ?thesis using es True pick
          by (intro exI [of _ "[EvClock, EvUuid, EvHttp (call_request (sm_base a) (call_token su a name) (sm_timeout a) i name args)] @ rest"])
            simp
      qed
    qed
  qed
qed

lemma smoke_tools_calls:
  "\<exists>es n. snd (smoke_tools su a ts tr) = tr @ es \<and> n \<le> length ts \<and>
     list_all2 (call_of su a) (filter (picked_tool a) (take n ts)) (requests_in es) \<and>
     (isl (fst (smoke_tools su a ts tr)) \<or> n = length ts)"
proof (induction ts arbitrary: tr)
  case Nil
  then show ?case by simp
next
  case (Cons t ts)
  obtain r tr1 where one: "smoke_tool su a t tr = (r, tr1)" by fastforce
  obtain es where es: "tr1 = tr @ es" "list_all2 (call_of su a) (filter (picked_tool a) [t]) (requests_in es) \<or> isl r \<and> requests_in es = []"
    using smoke_tool_calls [of su a t tr] one by auto
  show ?case
  proof (cases r)
    case (Inl e)
    then have out: "smoke_tools su a (t # ts) tr = (Inl e, tr1)" using one by simp
    show ?thesis
    proof (cases "requests_in es = []")
      case True
      with out es show ?thesis by (intro exI [of _ es] exI [of _ 0]) simp
    next
      case False
      with out es show ?thesis by (intro exI [of _ es] exI [of _ 1]) simp
    qed
  next
    case (Inr found)
    obtain es' n where es': "snd (smoke_tools su a ts tr1) = tr1 @ es'" "n \<le> length ts"
      "list_all2 (call_of su a) (filter (picked_tool a) (take n ts)) (requests_in es')"
      "isl (fst (smoke_tools su a ts tr1)) \<or> n = length ts"
      using Cons.IH [of tr1] by blast
    have run: "snd (smoke_tools su a (t # ts) tr) = snd (smoke_tools su a ts tr1)"
      "isl (fst (smoke_tools su a (t # ts) tr)) = isl (fst (smoke_tools su a ts tr1))"
      using one Inr by (auto split: prod.split sum.split)
    have "list_all2 (call_of su a) (filter (picked_tool a) [t] @ filter (picked_tool a) (take n ts)) (requests_in es @ requests_in es')"
      using es(2) es'(3) Inr by (intro list_all2_appendI) simp_all
    moreover have "filter (picked_tool a) [t] @ filter (picked_tool a) (take n ts) = filter (picked_tool a) (take (Suc n) (t # ts))"
      by simp
    ultimately show ?thesis using run es(1) es'
      by (intro exI [of _ "es @ es'"] exI [of _ "Suc n"]) (simp del: filter.simps smoke_tools.simps)
  qed
qed

definition list_request :: "surroundings \<Rightarrow> smoke_args \<Rightarrow> http_req" where
  "list_request su a =
     smoke_request (sm_base a) (caller_token su a) (sm_timeout a)
       (JObj [(''jsonrpc'', JStr ''2.0''), (''id'', JStr ''list''), (''method'', JStr ''tools/list'')])"

lemma smoke_list_tools_trace:
  "snd (smoke_list_tools su (sm_base a) (caller_token su a) (sm_timeout a) tr) = tr @ [EvHttp (list_request su a)]"
  by (auto simp: smoke_list_tools_def client_post_def list_request_def Let_def split: prod.split http_outcome.split)

lemma iterate_falsy: "iterate tools = Inr ts \<Longrightarrow> \<not> truthy tools \<Longrightarrow> ts = []"
  by (cases tools) auto

text \<open>
  C39: a run lists the tools once. It then calls the tools of the listing that are picked, in its
  order, each entry exactly once, by its own name, with the arguments built for its own schema and
  with the right token: the one for cloud_cost tools, which is never the development token, or that of
  the listing. Only an exception that ends the script stops it before the end of the listing; without
  a listing that can be iterated nothing is called.
\<close>

theorem smoke_calls:
  "\<exists>es calls. snd (smoke_main su a tr) = tr @ es \<and> requests_in es = list_request su a # calls \<and>
     (case fst (smoke_list_tools su (sm_base a) (caller_token su a) (sm_timeout a) tr) of
        Inl e \<Rightarrow> calls = []
      | Inr tools \<Rightarrow>
          (case iterate tools of
             Inl e \<Rightarrow> calls = []
           | Inr ts \<Rightarrow>
               (\<exists>n. list_all2 (call_of su a) (filter (picked_tool a) (take n ts)) calls \<and>
                  (n = length ts \<or> isl (snd (fst (smoke_main su a tr)))))))"
proof -
  let ?l = "smoke_list_tools su (sm_base a) (caller_token su a) (sm_timeout a) tr"
  let ?tr = "tr @ [EvHttp (list_request su a)]"
  obtain r where l: "?l = (r, ?tr)" using smoke_list_tools_trace [of su a tr] by (metis prod.collapse)
  show ?thesis
  proof (cases "\<exists>tools ts. r = Inr tools \<and> truthy tools \<and> iterate tools = Inr ts")
    case False
    then have "snd (smoke_main su a tr) = ?tr"
      using l by (auto simp: smoke_main_def split: sum.split)
    moreover have "case r of Inl e \<Rightarrow> True | Inr tools \<Rightarrow> (case iterate tools of Inl e \<Rightarrow> True | Inr ts \<Rightarrow> ts = [])"
      using False iterate_falsy by (auto split: sum.split)
    ultimately show ?thesis using l
      by (intro exI [of _ "[EvHttp (list_request su a)]"] exI [of _ "[]"]) (auto split: sum.splits)
  next
    case True
    then obtain tools ts where ts: "r = Inr tools" "truthy tools" "iterate tools = Inr ts" by blast
    obtain es n where es: "snd (smoke_tools su a ts ?tr) = ?tr @ es"
      "list_all2 (call_of su a) (filter (picked_tool a) (take n ts)) (requests_in es)"
      "isl (fst (smoke_tools su a ts ?tr)) \<or> n = length ts"
      using smoke_tools_calls [of su a ts ?tr] by blast
    have run: "snd (smoke_main su a tr) = snd (smoke_tools su a ts ?tr)"
      "isl (fst (smoke_tools su a ts ?tr)) \<Longrightarrow> isl (snd (fst (smoke_main su a tr)))"
      using l ts by (auto simp: smoke_main_def split: prod.split sum.split)
    then have "n = length ts \<or> isl (snd (fst (smoke_main su a tr)))" using es(3) by blast
    then show ?thesis using run(1) es(1,2) l ts
      by (intro exI [of _ "EvHttp (list_request su a) # es"] exI [of _ "requests_in es"]) auto
  qed
qed

end
