(* ===== verification/Failures.thy ===== *)
theory Failures
  imports Gateway
begin

text \<open>
  The failures a client of the gateway can see: the kinds and codes of the DispatchErrors that the
  three dispatchers raise, and the envelopes of the answers to a tool call.
\<close>

section \<open>Kinds and codes\<close>

definition failure_table :: "(string \<times> int) set" where
  "failure_table =
     {(''config_error'', -32603), (''invalid_params'', -32602), (''upstream_denied'', -32001),
      (''upstream_not_found'', -32001), (''upstream_bad_request'', -32602), (''upstream_timeout'', -32603),
      (''upstream_error'', -32603)}"

text \<open>A remote MCP server chooses its own code.\<close>

fun reported :: "exn \<Rightarrow> bool" where
  "reported (DispatchError m c k s) \<longleftrightarrow> (k, c) \<in> failure_table \<or> k = ''remote_mcp_error''"
| "reported e \<longleftrightarrow> True"

definition reports :: "'a res \<Rightarrow> bool" where
  "reports r \<longleftrightarrow> (\<forall>e. r = Inl e \<longrightarrow> reported e)"

named_theorems reports_intro "failures are in the table"

lemma reports_Inr [simp, reports_intro]: "reports (Inr x)"
  by (simp add: reports_def)

lemma reports_Inl [simp]: "reports (Inl e) = reported e"
  by (simp add: reports_def)

lemma reports_bindE [reports_intro]: "reports m \<Longrightarrow> (\<And>x. m = Inr x \<Longrightarrow> reports (f x)) \<Longrightarrow> reports (bindE m f)"
  by (cases m) simp_all

lemma reports_andThen: "reports (fst m) \<Longrightarrow> (\<And>x g. reports (fst (f x g))) \<Longrightarrow> reports (fst (andThen m f))"
  by (cases m; cases "fst m") simp_all

lemma reported_config [simp]: "reported (config_error m)"
  by (simp add: config_error_def failure_table_def)

lemma no_dispatch_error: "(\<And>m c k s. r \<noteq> Inl (DispatchError m c k s)) \<Longrightarrow> reports r"
  unfolding reports_def by (metis reported.elims(3))

lemma no_int_failure [simp]: "reports (int_of_float f)"
  by (cases f) simp_all

text \<open>Operations of Python raise exceptions of Python.\<close>

lemma reports_python [reports_intro]:
  "reports (as_dict v)" "reports (to_int v)" "reports (to_float v)" "reports (json_key v)" "reports (environ_get_json w v)"
proof -
  show "reports (as_dict v)" by (cases v) (simp_all add: no_attr_def)
  show "reports (to_int v)" by (cases v rule: to_int.cases) (auto simp: split: option.split)
  show "reports (to_float v)" by (cases v) (auto simp: float_of_int_def Let_def split: option.split)
  show "reports (json_key v)" by (cases v) simp_all
  show "reports (environ_get_json w v)" by (cases v) simp_all
qed

section \<open>The HTTP dispatcher\<close>

lemma reports_target_of [reports_intro]: "reports (target_of pm vars bucket key)"
  unfolding target_of_def
  by (intro reports_intro) (auto split: json.split simp: no_attr_def)

lemma reports_split_args: "reports (split_args pm vars bucket args b)"
  by (induction pm vars bucket args b rule: split_args.induct) (auto intro!: reports_intro)

lemma reports_render: "reports (render vs ps)"
  by (induction vs ps rule: render.induct) (auto intro!: reports_intro simp: failure_table_def split: option.split)

lemma reports_map_params [reports_intro]: "reports (map_params args template pm verb wrap)"
  unfolding map_params_def render_path_def
  by (intro reports_bindE reports_split_args reports_render) (auto intro!: reports_intro)

lemma reports_env_required [reports_intro]: "reports (env_required w name what)"
  unfolding env_required_def by (auto intro!: reports_intro)

lemma reports_retries [reports_intro]: "reports (retries_for a i cfg)"
  unfolding retries_for_def by (auto intro!: reports_intro)

lemma reports_credential [reports_intro]: "reports (credential w i)"
  unfolding credential_def Let_def by auto

lemma reports_build_headers [reports_intro]: "reports (build_headers w i extra)"
  unfolding build_headers_def Let_def by (auto intro!: reports_intro)

lemma reports_http_prepare: "reports (http_prepare w a i)"
  unfolding http_prepare_def Let_def by (intro reports_intro)

lemma reports_interpret: "reports (interpret_resp r)"
  by (simp add: interpret_resp_def Let_def failure_table_def)

lemma reports_send: "reports (fst (send w backoff retries req attempt g))"
proof (induction w backoff retries req attempt g rule: send.induct)
  case (1 w backoff retries req attempt g)
  obtain out where out: "http_request w req g = (out, emit (EvHttp req) g)" by (simp add: http_request_def Let_def)
  show ?case
    by (subst send.simps)
      (use 1 in \<open>auto simp: out reports_interpret timeout_exn_def connection_exn_def failure_table_def Let_def
        split: http_outcome.split\<close>)
qed

lemma reports_http: "reports (fst (http_invoke w a i g))"
  using reports_http_prepare [of w a i] reports_send
  by (cases rule: http_invoke_cases [of w a i g]) simp_all

section \<open>The MCP proxy\<close>

lemma reports_status: "reports (raise_for_http_error r)"
  by (simp add: raise_for_http_error_def Let_def failure_table_def)

lemma reported_upstream [simp]: "reported (upstream_error m)"
  by (simp add: upstream_error_def failure_table_def)

lemma reports_decode [reports_intro]: "reports (decode_response r)"
  unfolding decode_response_def Let_def
  by (intro reports_bindE) (auto simp: parse_sse_envelope_def Let_def split: sum.split json.split)

lemma reports_build_result [reports_intro]: "reports (build_result payload)"
proof -
  have "reported (remote_error err)" for err
    using reports_python(2) [of "jget_default err ''code'' (JInt (- 32603))"]
    by (cases "to_int (jget_default err ''code'' (JInt (- 32603)))") (simp_all add: remote_error_def)
  then show ?thesis by (simp add: build_result_def split: json.split option.split)
qed

lemma reports_proxy_post: "reports (fst (proxy_post w req g))"
  by (auto simp: proxy_post_def http_request_def Let_def failure_table_def intro!: reports_bindE reports_status
      split: http_outcome.split)

lemma reports_proxy_prepare: "reports (proxy_prepare w p i)"
  unfolding proxy_prepare_def Let_def resolve_token_def
  by (intro reports_intro) (auto intro!: reports_intro split: json.split)

lemma reports_ensure_initialized: "reports (fst (ensure_initialized w p url key headers timeout version g))"
  using reports_decode
  by (auto simp: ensure_initialized_def new_uuid_def Let_def intro!: reports_andThen reports_proxy_post
      split: sum.split) (metis reports_Inl)

lemma reports_proxy_call: "reports (fst (proxy_call w i pl g))"
  unfolding proxy_call_def
  by (rule reports_andThen [OF reports_proxy_post]) (simp add: reports_bindE reports_decode reports_build_result)

lemma reports_proxy: "reports (fst (proxy_invoke w p i g))"
  unfolding proxy_invoke_def
  using reports_proxy_prepare [of w p i]
  by (cases "proxy_prepare w p i")
    (simp_all add: reports_andThen reports_ensure_initialized reports_proxy_call)

section \<open>The sandbox\<close>

lemma reported_dispatch [simp]: "reported (dispatch_error m c k) \<longleftrightarrow> (k, c) \<in> failure_table \<or> k = ''remote_mcp_error''"
  by (simp add: dispatch_error_def)

lemma reported_sdk [simp]: "reported (map_sdk_error place e t)"
  by (cases e) (simp_all add: failure_table_def)

lemma reports_requested [reports_intro]: "reports (requested_timeout d v)"
  using reports_python(3) [of v]
  by (cases "to_float v") (auto simp: requested_timeout_def split: exn.split)

lemma reports_daytona_prepare: "reports (daytona_prepare w d i)"
proof -
  have limit: "reports (exec_timeout a b)" for a b by (simp add: exec_timeout_def)
  show ?thesis
    unfolding daytona_prepare_def Let_def
    by (cases "jget (inv_arguments i) ''code''")
      (simp_all add: failure_table_def reports_bindE reports_python reports_requested limit)
qed

lemma reports_daytona_run: "reports (fst (daytona_run w ra g))"
  by (auto simp: daytona_run_def sdk_eq split: sdk_outcome.split)

lemma reported_unexpected: "reported e \<Longrightarrow> reported (unexpected e)"
  by (cases e) (simp_all add: unexpected_def failure_table_def)

lemma reports_sandbox: "reports (fst (daytona_invoke w d i g))"
proof (cases "daytona_prepare w d i")
  case (Inl e)
  then show ?thesis using reports_daytona_prepare [of w d i] by (simp add: daytona_invoke_def)
next
  case (Inr ra)
  obtain r g' where "daytona_run w ra g = (r, g')" by fastforce
  then show ?thesis
    using Inr reports_daytona_run [of w ra g] reported_unexpected by (cases r) (simp_all add: daytona_invoke_def)
qed

section \<open>Answers to a tool call\<close>

text \<open>The interface of a dispatcher with the failures it may report.\<close>

locale reporting_dispatcher = dispatcher +
  assumes failures_reported: "reports (fst (invoke_tool i g))"
begin

lemma failure_kinds: "invoke_tool i g = (Inl (DispatchError m c k s), g') \<Longrightarrow> (k, c) \<in> failure_table \<or> k = ''remote_mcp_error''"
  using failures_reported [of i g] by simp

end

interpretation http_failures: reporting_dispatcher "http_invoke w a" for w a
  by unfold_locales (rule reports_http)

interpretation proxy_failures: reporting_dispatcher "proxy_invoke w p" for w p
  by unfold_locales (rule reports_proxy)

interpretation sandbox_failures: reporting_dispatcher "daytona_invoke w d" for w d
  by unfold_locales (rule reports_sandbox)

text \<open>
  The envelopes: a result, the refusal, an error without data (arguments that do not fit the schema,
  or an internal error), and a DispatchError with its kind.
\<close>

definition call_answer :: "json \<Rightarrow> string \<Rightarrow> json \<Rightarrow> bool" where
  "call_answer i name a \<longleftrightarrow>
     (\<exists>r. a = jsonrpc_result i r) \<or> a = not_found_answer i name \<or>
     (\<exists>m. a = jsonrpc_error i INVALID_PARAMS m None) \<or> (\<exists>m. a = jsonrpc_error i INTERNAL_ERROR m None) \<or>
     (\<exists>m c k rest. a = jsonrpc_error i c m (Some (JObj ((''kind'', JStr k) # rest))) \<and>
        ((k, c) \<in> failure_table \<or> k = ''remote_mcp_error''))"

lemma call_answerI:
  "call_answer i name (jsonrpc_result i r)" "call_answer i name (not_found_answer i name)"
  "call_answer i name (jsonrpc_error i INVALID_PARAMS m None)" "call_answer i name (jsonrpc_error i INTERNAL_ERROR m None)"
  by (auto simp: call_answer_def)

lemma call_answer_kind:
  "(k, c) \<in> failure_table \<or> k = ''remote_mcp_error'' \<Longrightarrow>
     call_answer i name (jsonrpc_error i c m (Some (JObj ((''kind'', JStr k) # rest))))"
  unfolding call_answer_def by blast

lemma fail_call_result: "fail_call w t ctx name args started tool message code kind a g = (r, g') \<Longrightarrow> r = Inr a"
  by (simp add: fail_call_def split: prod.splits)

locale reporting_backend = backend +
  assumes each_reports: "ds n = Some d \<Longrightarrow> reporting_dispatcher d"
begin

lemma dispatch_call_answer:
  assumes "ds n = Some d" and "dispatch_call w d t ctx name args started tool i g = (Inr a, g')"
  shows "call_answer i name a"
proof -
  let ?inv = "\<lparr>inv_tool = tool, inv_arguments = args, inv_auth = ctx, inv_trace_id = t\<rparr>"
  obtain out g1 where out: "d ?inv g = (out, g1)" by fastforce
  show ?thesis
  proof (cases out)
    case (Inr r)
    then have "a = jsonrpc_result i (to_mcp r)" using assms(2) out by (simp add: dispatch_call_def split: prod.splits)
    then show ?thesis by (simp add: call_answerI)
  next
    case (Inl e)
    show ?thesis
    proof (cases "\<exists>m c k s. e = DispatchError m c k s")
      case True
      then obtain m c k s where e: "e = DispatchError m c k s" by blast
      have "(k, c) \<in> failure_table \<or> k = ''remote_mcp_error''"
        using reporting_dispatcher.failure_kinds [OF each_reports [OF assms(1)]] out Inl e by blast
      moreover have "a = jsonrpc_error i c m (Some (JObj ([(''kind'', JStr k)]
          @ (case s of None \<Rightarrow> [] | Some n \<Rightarrow> [(''upstreamStatus'', JInt n)]))))"
        using assms(2) out Inl e by (auto simp: dispatch_call_def dest: fail_call_result)
      ultimately show ?thesis by (simp add: call_answer_kind)
    next
      case False
      then have "a = jsonrpc_error i INTERNAL_ERROR (''internal error: '' @ exn_text e) None"
        using assms(2) out Inl by (cases e) (auto simp: dispatch_call_def dest: fail_call_result)
      then show ?thesis by (simp add: call_answerI)
    qed
  qed
qed

lemma run_call_answer:
  assumes "run_call w ds t ctx name args started tool i g = (Inr a, g')"
  shows "call_answer i name a"
proof (cases "w_schema w args (v_input_schema tool)")
  case SchemaOk
  then show ?thesis
    using assms dispatch_call_answer
    by (cases "ds (v_dispatcher tool)") (auto simp: run_call_def call_answerI dest!: fail_call_result)
next
  case (SchemaInvalid m)
  with assms show ?thesis by (auto simp: run_call_def call_answerI dest!: fail_call_result)
next
  case (SchemaBroken c m)
  with assms show ?thesis by (simp add: run_call_def)
qed

lemma authorized_call_answer:
  assumes "authorized_call w ds ctx name args i g = (Inr a, g')"
  shows "call_answer i name a"
  using assms
proof (cases rule: authorized_call_cases)
  case (denied t g1)
  then show ?thesis by (simp add: call_answerI)
qed (auto dest: run_call_answer)

lemma handle_call_answer:
  assumes "is_call msg i name args" and "handle w s ds msg ctx g = (r, g')"
  shows "\<exists>a. r = Inr (Some a) \<and> call_answer i name a"
proof -
  obtain out g1 where call: "authorized_call w ds ctx name args i g = (out, g1)" by fastforce
  have "r = Inr (Some (case out of Inl e \<Rightarrow> internal_answer i e | Inr a \<Rightarrow> a))"
    using assms(2) by (cases out) (simp_all add: handle_call [OF assms(1)] call)
  then show ?thesis
    using authorized_call_answer call by (cases out) (auto simp: internal_answer_def call_answerI)
qed

end

interpretation gateway_failures: reporting_backend "build_dispatcher_registry w s"
  for w s
proof (intro reporting_backend.intro gateway.backend_axioms reporting_backend_axioms.intro)
  fix n d
  assume "build_dispatcher_registry w s n = Some d"
  then consider "d = http_invoke w (http_adapter_of s)" | "d = proxy_invoke w (mcp_proxy_of s)"
    | "d = daytona_invoke w (daytona_of s)"
    by (auto simp: build_dispatcher_registry_def split: if_splits)
  then show "reporting_dispatcher d"
    by cases (simp_all add: http_failures.reporting_dispatcher_axioms proxy_failures.reporting_dispatcher_axioms
        sandbox_failures.reporting_dispatcher_axioms)
qed

end
