(* ===== verification/SmokeReads.thy ===== *)
theory SmokeReads
  imports Smoke Failures PyJsonRound
begin

text \<open>
  The smoke test against the gateway of this development: how it reads what the gateway answers, and
  a run against a listing with one tool.
\<close>

section \<open>Reading the answers of the gateway\<close>

lemma verdict_table:
  "(k, c) \<in> failure_table \<Longrightarrow> verdict (JInt c) (JStr k) \<in>
     {''config_error'', ''invalid_params'', ''upstream_denied'', ''upstream_400'', ''upstream_error''}"
  by (auto simp: failure_table_def verdict_def is_number_def)

lemma verdict_remote:
  "verdict (JInt c) (JStr ''remote_mcp_error'') \<in> {''invalid_params'', ''upstream_denied''}"
  by (auto simp: verdict_def is_number_def)

lemma verdict_plain:
  "verdict (JInt TOOL_NOT_FOUND) (JStr []) = ''denied''" "verdict (JInt INVALID_PARAMS) (JStr []) = ''invalid_params''"
  "verdict (JInt INTERNAL_ERROR) (JStr []) = ''unknown''"
  by (simp_all add: verdict_def is_number_def TOOL_NOT_FOUND_def INVALID_PARAMS_def INTERNAL_ERROR_def)

lemma error_inject [simp]:
  "jsonrpc_error i c m d = jsonrpc_error j c' m' d' \<longleftrightarrow> i = j \<and> c = c' \<and> m = m' \<and> d = d'"
  by (auto simp: jsonrpc_error_def split: option.splits)

text \<open>
  C38: whatever the gateway answers to a tool call, the smoke test classifies it, with a text as
  detail: as ok exactly when it is a result, as denied exactly when it is the refusal of a tool the
  caller may not use, and as unknown, a hard failure, exactly when it is an error without kind and
  with the code of an internal error.
\<close>

theorem smoke_reads_answers:
  assumes "is_call msg i name args" and "handle w s (build_dispatcher_registry w s) msg ctx g = (r, g')"
  shows "\<exists>answer x. r = Inr (Some answer) \<and> classify name answer ms = Inr x \<and>
    o_tool x = name \<and> is_str (o_detail x) \<and>
    (o_status x = ''ok'' \<longleftrightarrow> is_result answer) \<and>
    (o_status x = ''denied'' \<longleftrightarrow> answer = not_found_answer i name) \<and>
    (o_status x = ''unknown'' \<longleftrightarrow> (\<exists>m. answer = jsonrpc_error i INTERNAL_ERROR m None))"
proof -
  obtain a where a: "r = Inr (Some a)" and shape: "call_answer i name a"
    using gateway_failures.handle_call_answer [OF assms] by blast
  consider (result) v where "a = jsonrpc_result i v"
    | (plain) c m where "a = jsonrpc_error i c m None" "c \<in> {TOOL_NOT_FOUND, INVALID_PARAMS, INTERNAL_ERROR}"
        "c = TOOL_NOT_FOUND \<longrightarrow> a = not_found_answer i name"
    | (kind) c m k rest where "a = jsonrpc_error i c m (Some (JObj ((''kind'', JStr k) # rest)))"
        "(k, c) \<in> failure_table \<or> k = ''remote_mcp_error''"
    using shape unfolding call_answer_def not_found_answer_def
    by (auto simp: TOOL_NOT_FOUND_def INVALID_PARAMS_def INTERNAL_ERROR_def)
  then show ?thesis
  proof cases
    case result
    then show ?thesis using a by (auto simp: classify_result not_found_answer_def error_not_result [THEN not_sym])
  next
    case plain
    obtain t where t: "classify name a ms =
        Inr \<lparr>o_tool = name, o_status = verdict (JInt c) (JStr []), o_latency_ms = ms, o_detail = JStr t\<rparr>"
      using classify_answer [of None "[]"] unfolding plain(1) by blast
    have codes: "TOOL_NOT_FOUND \<noteq> INVALID_PARAMS" "TOOL_NOT_FOUND \<noteq> INTERNAL_ERROR" "INVALID_PARAMS \<noteq> INTERNAL_ERROR"
      by (simp_all add: TOOL_NOT_FOUND_def INVALID_PARAMS_def INTERNAL_ERROR_def)
    from plain(2) consider "c = TOOL_NOT_FOUND" | "c = INVALID_PARAMS" | "c = INTERNAL_ERROR" by blast
    then show ?thesis
    proof cases
      case 1
      with plain(3) have "a = not_found_answer i name" by blast
      with a t 1 codes show ?thesis by (auto simp: verdict_plain not_found_answer_def)
    next
      case 2
      with a t plain(1) codes show ?thesis by (auto simp: verdict_plain not_found_answer_def)
    next
      case 3
      with a t plain(1) codes show ?thesis by (auto simp: verdict_plain not_found_answer_def)
    qed
  next
    case kind
    obtain t where t: "classify name a ms =
        Inr \<lparr>o_tool = name, o_status = verdict (JInt c) (JStr k), o_latency_ms = ms, o_detail = JStr t\<rparr>"
      using classify_answer [of _ k] unfolding kind(1) by blast
    have "verdict (JInt c) (JStr k) \<notin> {''ok'', ''denied'', ''unknown''}"
      using kind(2) verdict_table verdict_remote [of c] by fastforce
    with a t show ?thesis unfolding kind(1) by (auto simp: not_found_answer_def)
  qed
qed

lemma smoke_reads_answers_witness:
  "\<exists>answer x. fst (handle sample_world default_settings (build_dispatcher_registry sample_world default_settings)
       (call_msg ''echo'') sample_ctx sample_gw) = Inr (Some answer) \<and>
     classify ''echo'' answer 5 = Inr x \<and> (o_status x = ''ok'' \<longleftrightarrow> is_result answer)"
proof -
  have call: "is_call (call_msg ''echo'') (JInt 7) ''echo'' []" by (rule call_msg_is_call) simp
  from smoke_reads_answers [OF call surjective_pairing] show ?thesis by blast
qed

section \<open>A run\<close>

text \<open>A gateway that lists one tool and answers its call.\<close>

definition smoke_world :: world where
  "smoke_world = sample_world
     \<lparr>w_http := (\<lambda>t. Response \<lparr>rs_status = 200, rs_headers = [],
        rs_text = json_dumps False (JObj [(''result'',
          if length t = 1 then JObj [(''tools'', JList [JObj [(''name'', JStr ''echo'')]])] else JObj [])])\<rparr>)\<rparr>"

definition smoke_su :: surroundings where
  "smoke_su =
     \<lparr>su_world = smoke_world, su_time = 0, su_today = (2026, 4, 1), su_encode = (\<lambda>claims key. ''dev''),
      su_status_text = (\<lambda>q r. ''bad status'')\<rparr>"

definition smoke_defaults :: smoke_args where
  "smoke_defaults =
     \<lparr>sm_base = DEFAULT_BASE, sm_secret = ''dev-secret-change-me-in-production'', sm_audience = ''chat-gw'', sm_issuer = None,
      sm_roles = ''cloud_admin'', sm_subject = ''smoke-admin'', sm_only = None, sm_include = [], sm_bearer = None,
      sm_cloud_cost_token = None, sm_timeout = DEFAULT_TIMEOUT\<rparr>"

lemma smoke_listing:
  "smoke_list_tools smoke_su (sm_base smoke_defaults) (caller_token smoke_su smoke_defaults) (sm_timeout smoke_defaults) [] =
     (Inr (JList [JObj [(''name'', JStr ''echo'')]]), [EvHttp (list_request smoke_su smoke_defaults)])"
proof -
  let ?v = "JObj [(''result'', JObj [(''tools'', JList [JObj [(''name'', JStr ''echo'')]])])]"
  let ?r = "\<lparr>rs_status = 200, rs_headers = [], rs_text = json_dumps False ?v\<rparr>"
  have "plain False ?v" by (simp add: text_ok_def wf_dict_def)
  then have "json_loads (json_dumps False ?v) = Inr ?v" by (rule loads_dumps)
  then have "read_reply smoke_su q ?r = Inr ?v" for q
    by (simp add: read_reply_def is_success_def resp_json_def del: json_dumps.simps)
  moreover have "client_post smoke_su q [] = (Inr ?r, [EvHttp q])" for q
    by (simp add: client_post_def smoke_su_def smoke_world_def)
  ultimately show ?thesis
    by (simp add: smoke_list_tools_def list_request_def Let_def del: json_dumps.simps)
qed

lemma smoke_calls_witness:
  "\<exists>q. requests_in (snd (smoke_main smoke_su smoke_defaults [])) = [list_request smoke_su smoke_defaults, q] \<and>
     call_of smoke_su smoke_defaults (JObj [(''name'', JStr ''echo'')]) q"
proof -
  let ?t = "JObj [(''name'', JStr ''echo'')]" and ?tr = "[EvHttp (list_request smoke_su smoke_defaults)]"
  have "selected_name smoke_defaults (JStr ''echo'') = Inr (Some ''echo'')" by code_simp
  moreover have "category_of ''echo'' \<noteq> ''cloud_cost''" by code_simp
  moreover have "override ''echo'' = None" by (simp add: override_def overrides_def)
  then have "build_args smoke_su ''echo'' (JObj []) = Inr []"
    by (simp add: build_args_def fill_required_def adjust_args_def month_tools_def range_tools_def)
  ultimately have "snd (smoke_tool smoke_su smoke_defaults ?t ?tr) =
      snd (smoke_call smoke_su smoke_defaults (caller_token smoke_su smoke_defaults) ''echo'' [] ?tr)"
    by (simp add: smoke_tool_def token_for_def get_attr_def jget_def py_or_def split: prod.split)
  also have "\<dots> = snd (call_tool smoke_su (sm_base smoke_defaults) (caller_token smoke_su smoke_defaults)
      (sm_timeout smoke_defaults) ''echo'' [] ?tr)"
    by (auto simp: smoke_call_def split: prod.split sum.split)
  finally have "length (requests_in (snd (smoke_tool smoke_su smoke_defaults ?t ?tr))) = 2"
    using call_tool_trace [of smoke_su "sm_base smoke_defaults" "caller_token smoke_su smoke_defaults"
      "sm_timeout smoke_defaults" "''echo''" "[]" ?tr] by auto
  then have "length (requests_in (snd (smoke_main smoke_su smoke_defaults []))) = 2"
    by (auto simp: smoke_main_def smoke_listing split: prod.split sum.split)
  moreover obtain es calls n where "snd (smoke_main smoke_su smoke_defaults []) = [] @ es"
    "requests_in es = list_request smoke_su smoke_defaults # calls"
    "list_all2 (call_of smoke_su smoke_defaults) (filter (picked_tool smoke_defaults) (take n [?t])) calls"
    using smoke_calls [of smoke_su smoke_defaults "[]"] unfolding smoke_listing fst_conv sum.case iterate.simps by blast
  ultimately show ?thesis
    by (cases n; cases calls) (auto simp: list_all2_Cons2 filter_eq_Cons_iff split: if_splits)
qed

end
