(* ===== verification/Notify.thy ===== *)
theory Notify
  imports HttpAdapter
begin

text \<open>
  \<open>app/db/notify.py\<close>: the DSN that the listener hands to asyncpg, and the listener itself as a step
  relation. URLs are read and written as by \<open>urllib.parse\<close>, for schemes without parameters; the
  removal of control characters and the checks of IPv6 brackets are left out, and an escape that is
  no UTF-8 is kept as its byte.
\<close>

section \<open>URLs\<close>

record url =
  ur_scheme :: string
  ur_netloc :: string
  ur_path :: string
  ur_query :: string
  ur_fragment :: string

text \<open>The scheme: letters, digits, +, - and . from a letter up to the first colon; it is lowered.\<close>

definition letter :: "char \<Rightarrow> bool" where
  "letter c = (let n = of_char c :: nat in (65 \<le> n \<and> n \<le> 90) \<or> (97 \<le> n \<and> n \<le> 122))"

definition scheme_char :: "char \<Rightarrow> bool" where
  "scheme_char c \<longleftrightarrow> letter c \<or> is_digit c \<or> c \<in> {CHR ''+'', CHR ''-'', CHR ''.''}"

definition split_scheme :: "string \<Rightarrow> string \<times> string" where
  "split_scheme s =
     (case split_once CHR '':'' s of
        (a, Some b) \<Rightarrow> (if a \<noteq> [] \<and> letter (hd a) \<and> list_all scheme_char a then (lower a, b) else ([], s))
      | (a, None) \<Rightarrow> ([], s))"

definition ends_netloc :: "char \<Rightarrow> bool" where
  "ends_netloc c \<longleftrightarrow> c \<in> {CHR ''/'', CHR ''?'', CHR ''#''}"

definition split_netloc :: "string \<Rightarrow> string \<times> string" where
  "split_netloc s =
     (if startswith ''//'' s
      then (takeWhile (\<lambda>c. \<not> ends_netloc c) (drop 2 s), dropWhile (\<lambda>c. \<not> ends_netloc c) (drop 2 s))
      else ([], s))"

definition after :: "string option \<Rightarrow> string" where
  "after o' = (case o' of None \<Rightarrow> [] | Some s \<Rightarrow> s)"

definition urlparse :: "string \<Rightarrow> url" where
  "urlparse s =
     (case split_scheme s of (scheme, s1) \<Rightarrow>
      (case split_netloc s1 of (netloc, s2) \<Rightarrow>
      (case split_once CHR ''#'' s2 of (s3, fragment) \<Rightarrow>
      (case split_once CHR ''?'' s3 of (path, query) \<Rightarrow>
         \<lparr>ur_scheme = scheme, ur_netloc = netloc, ur_path = path, ur_query = after query, ur_fragment = after fragment\<rparr>))))"

text \<open>The schemes of \<open>uses_netloc\<close>, which keep their slashes without a location.\<close>

definition uses_netloc :: "string list" where
  "uses_netloc =
     [[], ''ftp'', ''http'', ''gopher'', ''nntp'', ''telnet'', ''imap'', ''wais'', ''file'', ''mms'', ''https'', ''shttp'',
      ''snews'', ''prospero'', ''rtsp'', ''rtsps'', ''rtspu'', ''rsync'', ''svn'', ''svn+ssh'', ''sftp'', ''nfs'', ''git'',
      ''git+ssh'', ''ws'', ''wss'', ''itms-services'']"

definition urlunparse :: "url \<Rightarrow> string" where
  "urlunparse u =
     (let located = ur_netloc u \<noteq> [] \<or>
            (ur_scheme u \<noteq> [] \<and> ur_scheme u \<in> set uses_netloc \<and> \<not> startswith ''//'' (ur_path u));
          path = (if located
                  then ''//'' @ ur_netloc u @
                       (if ur_path u \<noteq> [] \<and> hd (ur_path u) \<noteq> CHR ''/'' then CHR ''/'' # ur_path u else ur_path u)
                  else ur_path u)
      in (if ur_scheme u \<noteq> [] then ur_scheme u @ '':'' else []) @ path @
         (if ur_query u \<noteq> [] then CHR ''?'' # ur_query u else []) @
         (if ur_fragment u \<noteq> [] then CHR ''#'' # ur_fragment u else []))"

section \<open>Query strings\<close>

text \<open>\<open>unquote\<close> after plus signs have become spaces.\<close>

fun unquote :: "string \<Rightarrow> string" where
  "unquote (c # a # b # s) =
     (if c = CHR 0x25
      then (case (hex_val a, hex_val b) of
              (Some x, Some y) \<Rightarrow> char_of (16 * x + y) # unquote s
            | _ \<Rightarrow> c # unquote (a # b # s))
      else c # unquote (a # b # s))"
| "unquote (c # s) = c # unquote s"
| "unquote [] = []"

definition unquote_plus :: "string \<Rightarrow> string" where
  "unquote_plus s = unquote (map (\<lambda>c. if c = CHR ''+'' then CHR '' '' else c) s)"

definition quote_plus_byte :: "char \<Rightarrow> string" where
  "quote_plus_byte c = (if c = CHR '' '' then ''+'' else quote_byte c)"

definition quote_plus :: "string \<Rightarrow> string" where
  "quote_plus s = concat (map quote_plus_byte s)"

fun split_fields :: "string \<Rightarrow> string list" where
  "split_fields [] = [[]]"
| "split_fields (c # s) =
     (if c = CHR ''&'' then [] # split_fields s
      else (case split_fields s of [] \<Rightarrow> [[c]] | f # fs \<Rightarrow> (c # f) # fs))"

definition parse_field :: "string \<Rightarrow> string \<times> string" where
  "parse_field f = (case split_once CHR ''='' f of (k, v) \<Rightarrow> (unquote_plus k, unquote_plus (after v)))"

text \<open>With \<open>keep_blank_values\<close>: only empty fields are dropped.\<close>

definition parse_qsl :: "string \<Rightarrow> (string \<times> string) list" where
  "parse_qsl q = map parse_field (filter (\<lambda>f. f \<noteq> []) (split_fields q))"

definition urlencode :: "(string \<times> string) list \<Rightarrow> string" where
  "urlencode kvs = join ''&'' (map (\<lambda>(k, v). quote_plus k @ ''='' @ quote_plus v) kvs)"

section \<open>The DSN of the listener\<close>

definition SSL_TRUTHY :: "string list" where
  "SSL_TRUTHY = [''true'', ''1'', ''yes'', ''on'', ''t'']"

definition asyncpg_scheme :: string where "asyncpg_scheme = ''postgresql+asyncpg://''"

definition plain_dsn :: "string \<Rightarrow> string" where
  "plain_dsn dsn =
     (if startswith asyncpg_scheme dsn then ''postgresql://'' @ drop (length asyncpg_scheme) dsn else dsn)"

definition ssl_value :: "string \<Rightarrow> string" where
  "ssl_value v = (if lower v \<in> set SSL_TRUTHY then ''require'' else v)"

text \<open>The loop over the pairs: the keyword argument, and what remains.\<close>

fun take_ssl :: "(string \<times> string) list \<Rightarrow> string dict \<Rightarrow> (string \<times> string) list \<Rightarrow> string dict \<times> (string \<times> string) list" where
  "take_ssl [] kwargs remaining = (kwargs, remaining)"
| "take_ssl ((k, v) # kvs) kwargs remaining =
     (if k = ''ssl'' then take_ssl kvs (AList.update ''ssl'' (ssl_value v) kwargs) remaining
      else take_ssl kvs kwargs (remaining @ [(k, v)]))"

definition parse_asyncpg_dsn :: "string \<Rightarrow> string \<times> string dict" where
  "parse_asyncpg_dsn dsn =
     (let u = urlparse (plain_dsn dsn)
      in case take_ssl (parse_qsl (ur_query u)) [] [] of
           (kwargs, remaining) \<Rightarrow> (urlunparse (u\<lparr>ur_query := urlencode remaining\<rparr>), kwargs))"

lemma take_ssl_filter:
  "take_ssl kvs kwargs remaining =
     (foldl (\<lambda>d kv. AList.update ''ssl'' (ssl_value (snd kv)) d) kwargs (filter (\<lambda>kv. fst kv = ''ssl'') kvs),
      remaining @ filter (\<lambda>kv. fst kv \<noteq> ''ssl'') kvs)"
  by (induction kvs kwargs remaining rule: take_ssl.induct) auto

subsection \<open>Query strings read back\<close>

lemma hex_digit_val: "d < 16 \<Longrightarrow> hex_val (hex_digit d) = Some d"
  by (auto simp: hex_val_def hex_digit_def Let_def)

lemma unreserved_hex: "d < 16 \<Longrightarrow> unreserved (hex_digit d)"
  by (auto simp: unreserved_def hex_digit_def Let_def)

lemma unreserved_chars:
  "unreserved c \<Longrightarrow> c \<notin> {CHR 0x25, CHR ''+'', CHR '' '', CHR ''&'', CHR ''='', CHR ''#'', CHR ''?''}"
  by (auto simp: unreserved_def Let_def)

lemma byte_halves: "(of_char c :: nat) div 16 < 16" "(of_char c :: nat) mod 16 < 16"
proof -
  have "(of_char c :: nat) mod 256 < 256" by simp
  then have "(of_char c :: nat) < 256" by simp
  then show "(of_char c :: nat) div 16 < 16" "(of_char c :: nat) mod 16 < 16" by (simp_all add: less_mult_imp_div_less)
qed

lemma quote_plus_chars:
  assumes "x \<in> set (quote_plus s)"
  shows "x \<notin> {CHR '' '', CHR ''&'', CHR ''='', CHR ''#'', CHR ''?''}"
proof -
  obtain c where c: "x \<in> set (quote_plus_byte c)" using assms by (auto simp: quote_plus_def)
  have "unreserved x \<or> x = CHR ''+'' \<or> x = CHR 0x25"
    using c unreserved_hex byte_halves [of c]
    by (auto simp: quote_plus_byte_def quote_byte_def Let_def split: if_splits)
  then show ?thesis using unreserved_chars [of x] by auto
qed

lemma unquote_other: "c \<noteq> CHR 0x25 \<Longrightarrow> unquote (c # s) = c # unquote s"
proof (cases s)
  case (Cons a t)
  assume "c \<noteq> CHR 0x25"
  with Cons show ?thesis by (cases t) simp_all
qed simp

text \<open>A byte comes out of its quotation.\<close>

lemma unquote_byte: "unquote_plus (quote_plus_byte c @ s) = c # unquote_plus s"
proof -
  consider "c = CHR '' ''" | "unreserved c" | "c \<noteq> CHR '' ''" "\<not> unreserved c" by blast
  then show ?thesis
  proof cases
    case 1
    then show ?thesis by (simp add: quote_plus_byte_def unquote_plus_def unquote_other)
  next
    case 2
    with unreserved_chars [OF 2] show ?thesis
      by (simp add: quote_plus_byte_def quote_byte_def unquote_plus_def unquote_other)
  next
    case 3
    let ?h = "hex_digit (of_char c div 16)" and ?l = "hex_digit (of_char c mod 16)"
    have "?h \<noteq> CHR ''+''" "?l \<noteq> CHR ''+''"
      using unreserved_chars [OF unreserved_hex] byte_halves [of c] by blast+
    moreover have "(16 * (of_char c div 16) + of_char c mod 16 :: nat) = of_char c" by simp
    ultimately show ?thesis
      using 3 byte_halves [of c] by (simp add: quote_plus_byte_def quote_byte_def Let_def unquote_plus_def hex_digit_val)
  qed
qed

lemma unquote_quote [simp]: "unquote_plus (quote_plus s) = s"
proof (induction s)
  case (Cons c s)
  have "quote_plus (c # s) = quote_plus_byte c @ quote_plus s" by (simp add: quote_plus_def)
  then show ?case by (simp add: unquote_byte Cons.IH)
qed (simp add: quote_plus_def unquote_plus_def)

lemma split_once_first: "c \<notin> set a \<Longrightarrow> split_once c (a @ c # b) = (a, Some b)"
  by (induction a) auto

lemma split_once_none: "c \<notin> set a \<Longrightarrow> split_once c a = (a, None)"
  by (induction a) auto

lemma split_once_fst: "split_once c s = (a, b) \<Longrightarrow> c \<notin> set a \<and> set a \<subseteq> set s \<and> set (after b) \<subseteq> set s"
  by (induction s arbitrary: a b) (auto simp: after_def split: if_splits prod.splits)

lemma split_fields_one: "CHR ''&'' \<notin> set f \<Longrightarrow> split_fields f = [f]"
  by (induction f) auto

lemma split_fields_first: "CHR ''&'' \<notin> set f \<Longrightarrow> split_fields (f @ CHR ''&'' # s) = f # split_fields s"
  by (induction f) auto

lemma split_fields_join:
  "fs \<noteq> [] \<Longrightarrow> \<forall>f \<in> set fs. CHR ''&'' \<notin> set f \<Longrightarrow> split_fields (join ''&'' fs) = fs"
proof (induction fs)
  case (Cons f fs)
  then show ?case by (cases fs) (simp_all add: split_fields_one split_fields_first)
qed simp

lemma parse_field_encoded: "parse_field (quote_plus k @ ''='' @ quote_plus v) = (k, v)"
proof -
  have "CHR ''='' \<notin> set (quote_plus k)" using quote_plus_chars by blast
  then show ?thesis by (simp add: parse_field_def split_once_first after_def)
qed

lemma parse_qsl_urlencode: "parse_qsl (urlencode kvs) = kvs"
proof (cases kvs)
  case Nil
  then show ?thesis by (simp add: urlencode_def parse_qsl_def)
next
  case (Cons kv rest)
  let ?f = "\<lambda>(k, v). quote_plus k @ ''='' @ quote_plus v"
  have "\<forall>f \<in> set (map ?f kvs). CHR ''&'' \<notin> set f" using quote_plus_chars by fastforce
  then have "split_fields (urlencode kvs) = map ?f kvs"
    unfolding urlencode_def by (intro split_fields_join) (simp_all add: Cons)
  moreover have "filter (\<lambda>f. f \<noteq> []) (map ?f kvs) = map ?f kvs" by (auto simp: filter_id_conv)
  moreover have "parse_field \<circ> ?f = id" by (auto simp: parse_field_encoded simp del: append.simps)
  ultimately show ?thesis by (simp add: parse_qsl_def)
qed

lemma urlencode_chars: "x \<in> set (urlencode kvs) \<Longrightarrow> x \<noteq> CHR ''#''"
proof (induction kvs)
  case (Cons kv kvs)
  obtain k v where kv: "kv = (k, v)" by fastforce
  have "x \<in> set (quote_plus k) \<or> x = CHR ''='' \<or> x \<in> set (quote_plus v) \<or> x = CHR ''&'' \<or> x \<in> set (urlencode kvs)"
    using Cons.prems by (cases kvs) (auto simp: urlencode_def kv)
  then show ?case using Cons.IH quote_plus_chars by blast
qed (simp add: urlencode_def)

subsection \<open>URLs read back\<close>

definition url_ok :: "url \<Rightarrow> bool" where
  "url_ok u \<longleftrightarrow>
     ur_scheme u \<noteq> [] \<and> letter (hd (ur_scheme u)) \<and> list_all scheme_char (ur_scheme u) \<and> lower (ur_scheme u) = ur_scheme u \<and>
     ur_netloc u \<noteq> [] \<and> (\<forall>c \<in> set (ur_netloc u). \<not> ends_netloc c) \<and>
     (ur_path u = [] \<or> hd (ur_path u) = CHR ''/'') \<and> CHR ''?'' \<notin> set (ur_path u) \<and> CHR ''#'' \<notin> set (ur_path u) \<and>
     CHR ''#'' \<notin> set (ur_query u)"

lemma lower_letter: "letter c \<Longrightarrow> letter (lower_char c)"
  by (auto simp: letter_def lower_char_def Let_def)

lemma lower_scheme_char: "scheme_char c \<Longrightarrow> scheme_char (lower_char c)"
proof (cases "letter c")
  case True
  then show ?thesis using lower_letter by (simp add: scheme_char_def)
next
  case False
  assume "scheme_char c"
  moreover have "lower_char c = c" using False by (auto simp: letter_def lower_char_def Let_def)
  ultimately show ?thesis by simp
qed

lemma lower_lower: "lower_char (lower_char c) = lower_char c"
  by (auto simp: lower_char_def Let_def)

lemma urlparse_ok:
  assumes "ur_scheme (urlparse s) \<noteq> []" and "ur_netloc (urlparse s) \<noteq> []"
  shows "url_ok (urlparse s)"
proof -
  obtain scheme s1 where 1: "split_scheme s = (scheme, s1)" by fastforce
  obtain netloc s2 where 2: "split_netloc s1 = (netloc, s2)" by fastforce
  obtain s3 fragment where 3: "split_once CHR ''#'' s2 = (s3, fragment)" by fastforce
  obtain path query where 4: "split_once CHR ''?'' s3 = (path, query)" by fastforce
  have u: "urlparse s = \<lparr>ur_scheme = scheme, ur_netloc = netloc, ur_path = path, ur_query = after query, ur_fragment = after fragment\<rparr>"
    by (simp add: urlparse_def 1 2 3 4)
  have "letter (hd scheme) \<and> list_all scheme_char scheme \<and> lower scheme = scheme"
    using 1 assms(1) unfolding u
    by (auto simp: split_scheme_def lower_def list_all_iff lower_scheme_char lower_lower hd_map lower_letter
        split: prod.splits option.splits if_splits)
  moreover have parts: "netloc = takeWhile (\<lambda>c. \<not> ends_netloc c) (drop 2 s1)" "s2 = dropWhile (\<lambda>c. \<not> ends_netloc c) (drop 2 s1)"
    using 2 assms(2) unfolding u by (auto simp: split_netloc_def split: if_splits)
  moreover have "\<forall>c \<in> set netloc. \<not> ends_netloc c" unfolding parts by (auto dest: set_takeWhileD)
  moreover have s2: "s2 = [] \<or> ends_netloc (hd s2)"
    using hd_dropWhile [of "\<lambda>c. \<not> ends_netloc c" "drop 2 s1"] unfolding parts by blast
  moreover have "path = [] \<or> hd path = CHR ''/''"
  proof (cases s2)
    case Nil
    then show ?thesis using 3 4 by auto
  next
    case (Cons c t)
    then have "c \<in> {CHR ''/'', CHR ''?'', CHR ''#''}" using s2 by (simp add: ends_netloc_def)
    then show ?thesis using 3 4 Cons by (auto split: prod.splits)
  qed
  moreover have "CHR ''?'' \<notin> set path" "CHR ''#'' \<notin> set path" "CHR ''#'' \<notin> set (after query)"
    using split_once_fst [OF 3] split_once_fst [OF 4] by blast+
  ultimately show ?thesis using assms unfolding url_ok_def u by simp
qed

lemma split_once_maybe:
  "c \<notin> set a \<Longrightarrow> split_once c (a @ (if q \<noteq> [] then c # q else [])) = (a, if q \<noteq> [] then Some q else None)"
  using split_once_first [of c a q] split_once_none [of c a] by simp

lemma urlparse_urlunparse:
  assumes "url_ok u"
  shows "urlparse (urlunparse u) = u"
proof -
  define q where "q = (if ur_query u \<noteq> [] then CHR ''?'' # ur_query u else [])"
  define f where "f = (if ur_fragment u \<noteq> [] then CHR ''#'' # ur_fragment u else [])"
  let ?rest = "ur_path u @ q @ f"
  have whole: "urlunparse u = ur_scheme u @ CHR '':'' # ''//'' @ ur_netloc u @ ?rest"
    using assms by (auto simp: urlunparse_def url_ok_def q_def f_def)
  have "CHR '':'' \<notin> set (ur_scheme u)"
    using assms by (auto simp: url_ok_def list_all_iff scheme_char_def letter_def is_digit_def Let_def)
  then have 1: "split_scheme (urlunparse u) = (ur_scheme u, ''//'' @ ur_netloc u @ ?rest)"
    using assms unfolding whole by (simp add: split_scheme_def split_once_first url_ok_def)
  have stops: "?rest = [] \<or> ends_netloc (hd ?rest)"
    using assms by (cases "ur_path u") (auto simp: q_def f_def url_ok_def ends_netloc_def)
  have "takeWhile (\<lambda>c. \<not> ends_netloc c) (ur_netloc u @ ?rest) = ur_netloc u"
    "dropWhile (\<lambda>c. \<not> ends_netloc c) (ur_netloc u @ ?rest) = ?rest"
    using assms stops by (cases ?rest; simp add: url_ok_def takeWhile_append dropWhile_append)+
  then have 2: "split_netloc (''//'' @ ur_netloc u @ ?rest) = (ur_netloc u, ?rest)"
    by (simp add: split_netloc_def)
  have "CHR ''#'' \<notin> set (ur_path u @ q)" using assms by (auto simp: url_ok_def q_def)
  then have 3: "split_once CHR ''#'' ?rest = (ur_path u @ q, if ur_fragment u \<noteq> [] then Some (ur_fragment u) else None)"
    using split_once_maybe [of "CHR ''#''" "ur_path u @ q" "ur_fragment u"] by (simp add: f_def)
  have 4: "split_once CHR ''?'' (ur_path u @ q) = (ur_path u, if ur_query u \<noteq> [] then Some (ur_query u) else None)"
    using split_once_maybe [of "CHR ''?''" "ur_path u" "ur_query u"] assms by (simp add: q_def url_ok_def)
  show ?thesis
    unfolding urlparse_def 1 2 3 4 prod.case by (cases u) (simp add: after_def)
qed

lemma foldl_update_one:
  "foldl (\<lambda>d kv. AList.update k (h kv) d) [] kvs = (if kvs = [] then [] else [(k, h (last kvs))])"
proof (induction kvs rule: rev_induct)
  case (snoc kv kvs)
  then show ?case by simp
qed simp

text \<open>
  the DSN for asyncpg has the same scheme, location, path and fragment, and a query that reads
  back as the pairs of the original in order, less those named ssl; the last of these becomes the
  keyword argument, with require for the words that mean yes.
\<close>

lemma dsn_cleaned:
  assumes "ur_scheme (urlparse (plain_dsn dsn)) \<noteq> []" and "ur_netloc (urlparse (plain_dsn dsn)) \<noteq> []"
  shows "\<exists>clean q. let u = urlparse (plain_dsn dsn); asked = filter (\<lambda>kv. fst kv = ''ssl'') (parse_qsl (ur_query u))
    in parse_asyncpg_dsn dsn = (clean, if asked = [] then [] else [(''ssl'', ssl_value (snd (last asked)))]) \<and>
       urlparse clean = u\<lparr>ur_query := q\<rparr> \<and>
       parse_qsl q = filter (\<lambda>kv. fst kv \<noteq> ''ssl'') (parse_qsl (ur_query u))"
proof -
  let ?u = "urlparse (plain_dsn dsn)"
  let ?q = "urlencode (filter (\<lambda>kv. fst kv \<noteq> ''ssl'') (parse_qsl (ur_query ?u)))"
  have "url_ok (?u\<lparr>ur_query := ?q\<rparr>)"
    using urlparse_ok [OF assms] urlencode_chars by (auto simp: url_ok_def)
  then have "urlparse (urlunparse (?u\<lparr>ur_query := ?q\<rparr>)) = ?u\<lparr>ur_query := ?q\<rparr>" by (rule urlparse_urlunparse)
  then show ?thesis
    by (intro exI [of _ "urlunparse (?u\<lparr>ur_query := ?q\<rparr>)"] exI [of _ ?q])
      (simp add: parse_asyncpg_dsn_def Let_def take_ssl_filter foldl_update_one parse_qsl_urlencode)
qed

section \<open>The listener\<close>

text \<open>
  Where the task of \<open>_run\<close> is: connecting, adding its listener to a new connection, in the loop of
  sleeps with a connection that is alive or lost, in the pause after an exception (with the connection
  still open when it had one), or ended. \<open>ln_cancel\<close> is the request of \<open>task.cancel()\<close>.
\<close>

datatype phase = Connecting | Adding | Listening bool | Pausing bool | Ended

record listener =
  ln_stop :: bool
  ln_cancel :: bool
  ln_phase :: "phase option"

definition new_listener :: listener where
  "new_listener = \<lparr>ln_stop = False, ln_cancel = False, ln_phase = None\<rparr>"

fun open_conn :: "phase option \<Rightarrow> bool" where
  "open_conn (Some Adding) = True"
| "open_conn (Some (Listening alive)) = True"
| "open_conn (Some (Pausing c)) = c"
| "open_conn p = False"

text \<open>What the outside sees: connections opened and closed, payloads handed on, and the call of \<open>stop\<close>.\<close>

datatype act = Opened | Closed | Told string | StopCalled

definition closing :: "phase option \<Rightarrow> act list" where
  "closing p = (if open_conn p then [Closed] else [])"

text \<open>
  The test at the head of the outer loop. In the steps, \<open>start\<close> is called on a listener without a
  task, as \<open>lifespan\<close> does; the loss of a connection is an event of the network, which the loop of
  sleeps does not look at.
\<close>

definition loop_head :: "bool \<Rightarrow> phase" where
  "loop_head stopping = (if stopping then Ended else Connecting)"

inductive listener_step :: "bool \<Rightarrow> listener \<Rightarrow> act list \<Rightarrow> listener \<Rightarrow> bool" for installed :: bool where
  start: "ln_phase l = None \<Longrightarrow>
    listener_step installed l []
      \<lparr>ln_stop = False, ln_cancel = False, ln_phase = Some (if installed then loop_head False else Ended)\<rparr>"
| connected: "ln_phase l = Some Connecting \<Longrightarrow> listener_step installed l [Opened] (l\<lparr>ln_phase := Some Adding\<rparr>)"
| connect_failed: "ln_phase l = Some Connecting \<Longrightarrow> listener_step installed l [] (l\<lparr>ln_phase := Some (Pausing False)\<rparr>)"
| added: "ln_phase l = Some Adding \<Longrightarrow> listener_step installed l [] (l\<lparr>ln_phase := Some (Listening True)\<rparr>)"
| add_failed: "ln_phase l = Some Adding \<Longrightarrow> listener_step installed l [] (l\<lparr>ln_phase := Some (Pausing True)\<rparr>)"
| told: "ln_phase l = Some (Listening True) \<Longrightarrow> listener_step installed l [Told payload] l"
| lost: "ln_phase l = Some (Listening True) \<Longrightarrow> listener_step installed l [] (l\<lparr>ln_phase := Some (Listening False)\<rparr>)"
| woke: "ln_phase l = Some (Listening alive) \<Longrightarrow> ln_stop l \<Longrightarrow>
    listener_step installed l [Closed] (l\<lparr>ln_phase := Some (loop_head True)\<rparr>)"
| resumed: "ln_phase l = Some (Pausing c) \<Longrightarrow>
    listener_step installed l (closing (ln_phase l)) (l\<lparr>ln_phase := Some (loop_head (ln_stop l))\<rparr>)"
| cancelled: "ln_phase l = Some p \<Longrightarrow> p \<noteq> Ended \<Longrightarrow> ln_cancel l \<Longrightarrow>
    listener_step installed l (closing (ln_phase l)) (l\<lparr>ln_phase := Some Ended\<rparr>)"
| stop: "ln_phase l = Some p \<Longrightarrow> listener_step installed l [StopCalled] (l\<lparr>ln_stop := True, ln_cancel := True\<rparr>)"
| stopped: "ln_phase l = Some Ended \<Longrightarrow> ln_cancel l \<Longrightarrow> listener_step installed l [] (l\<lparr>ln_phase := None\<rparr>)"

inductive_cases listener_stepE: "listener_step installed l as l'"

inductive listener_run :: "bool \<Rightarrow> listener \<Rightarrow> act list \<Rightarrow> listener \<Rightarrow> bool" for installed :: bool where
  rest: "listener_run installed l [] l"
| more_acts: "listener_run installed l as l1 \<Longrightarrow> listener_step installed l1 bs l2 \<Longrightarrow> listener_run installed l (as @ bs) l2"

definition balance :: "act list \<Rightarrow> int" where
  "balance as = int (length (filter (\<lambda>a. a = Opened) as)) - int (length (filter (\<lambda>a. a = Closed) as))"

lemma balance_append: "balance (as @ bs) = balance as + balance bs"
  by (simp add: balance_def)

lemma closing_balance: "balance (closing p) = - of_bool (open_conn p)"
  by (simp add: closing_def balance_def)

lemma step_balance:
  assumes "listener_step installed l as l'"
  shows "of_bool (open_conn (ln_phase l')) = of_bool (open_conn (ln_phase l)) + balance as"
  using assms
  by (cases rule: listener_step.cases) (simp_all add: balance_def closing_def loop_head_def)

text \<open>
  C40: the listener holds at most one connection at a time, and once its task has ended, or before it
  was started, every connection it opened has been closed.
\<close>

theorem listener_closes:
  assumes "listener_run installed new_listener as l"
  shows "balance as = of_bool (open_conn (ln_phase l)) \<and>
    (ln_phase l \<in> {None, Some Ended} \<longrightarrow>
       length (filter (\<lambda>a. a = Opened) as) = length (filter (\<lambda>a. a = Closed) as))"
proof -
  have "balance as = of_bool (open_conn (ln_phase l))"
    using assms
  proof (induction "new_listener" as l rule: listener_run.induct)
    case rest
    show ?case by (simp add: balance_def new_listener_def)
  next
    case (more_acts as l1 bs l2)
    then show ?case using step_balance [of installed l1 bs l2] by (simp add: balance_append)
  qed
  then show ?thesis by (auto simp: balance_def)
qed

lemma run_snoc: "listener_run installed l as l1 \<Longrightarrow> listener_step installed l1 bs l2 \<Longrightarrow> cs = as @ bs \<Longrightarrow>
    listener_run installed l cs l2"
  by (auto intro: listener_run.more_acts)

lemma listening_run:
  "listener_run True new_listener [Opened] \<lparr>ln_stop = False, ln_cancel = False, ln_phase = Some (Listening True)\<rparr>"
proof -
  let ?at = "\<lambda>p. \<lparr>ln_stop = False, ln_cancel = False, ln_phase = Some p\<rparr>"
  have "listener_step True new_listener [] (?at Connecting)"
    using listener_step.start [of new_listener True] by (simp add: new_listener_def loop_head_def)
  from run_snoc [OF listener_run.rest this] have "listener_run True new_listener [] (?at Connecting)" by simp
  moreover have "listener_step True (?at Connecting) [Opened] (?at Adding)"
    using listener_step.connected [of "?at Connecting" True] by simp
  ultimately have "listener_run True new_listener [Opened] (?at Adding)" by (rule run_snoc) simp
  moreover have "listener_step True (?at Adding) [] (?at (Listening True))"
    using listener_step.added [of "?at Adding" True] by simp
  ultimately show ?thesis by (rule run_snoc) simp
qed

lemma listener_closes_witness:
  "\<exists>l. listener_run True new_listener [Opened, StopCalled, Closed] l \<and> ln_phase l = Some Ended \<and>
     balance [Opened, StopCalled, Closed] = 0"
proof -
  let ?at = "\<lambda>b p. \<lparr>ln_stop = b, ln_cancel = b, ln_phase = Some p\<rparr>"
  have "listener_step True (?at False (Listening True)) [StopCalled] (?at True (Listening True))"
    using listener_step.stop [of "?at False (Listening True)" _ True] by simp
  with listening_run have "listener_run True new_listener [Opened, StopCalled] (?at True (Listening True))" by (rule run_snoc) simp
  moreover have "listener_step True (?at True (Listening True)) [Closed] (?at True Ended)"
    using listener_step.woke [of "?at True (Listening True)" True True] by (simp add: loop_head_def)
  ultimately have run: "listener_run True new_listener [Opened, StopCalled, Closed] (?at True Ended)" by (rule run_snoc) simp
  from listener_closes [OF this] run show ?thesis by (intro exI [of _ "?at True Ended"]) simp
qed

text \<open>
  a lost connection is not noticed: until \<open>stop\<close> is called the listener neither connects again
  nor hands on any payload.
\<close>

lemma lost_connection_unnoticed:
  assumes "listener_run installed l as l'" and "ln_phase l = Some (Listening False)" "\<not> ln_stop l" "\<not> ln_cancel l"
    and "StopCalled \<notin> set as"
  shows "as = [] \<and> l' = l"
  using assms
proof (induction l as l' rule: listener_run.induct)
  case (more_acts l as l1 bs l2)
  then have "as = []" "l1 = l" by simp_all
  with more_acts.hyps(2) more_acts.prems show ?case
    by (cases rule: listener_step.cases) simp_all
qed simp

lemma lost_connection_possible:
  "\<exists>l. (\<exists>as. listener_run True new_listener as l) \<and> (\<forall>payload l'. \<not> listener_run True l [Told payload] l')"
proof -
  let ?at = "\<lambda>p. \<lparr>ln_stop = False, ln_cancel = False, ln_phase = Some p\<rparr>"
  have "listener_step True (?at (Listening True)) [] (?at (Listening False))"
    using listener_step.lost [of "?at (Listening True)" True] by simp
  with listening_run have "listener_run True new_listener [Opened] (?at (Listening False))" by (rule run_snoc) simp
  moreover have "\<not> listener_run True (?at (Listening False)) [Told payload] l'" for payload l'
    using lost_connection_unnoticed [of True "?at (Listening False)" "[Told payload]" l'] by auto
  ultimately show ?thesis by blast
qed

end
