(* ===== verification/DevToken.thy ===== *)
theory DevToken
  imports Smoke Authenticate
begin

text \<open>
  \<open>scripts/make_dev_token.py\<close>, and what the tokens of the two scripts are worth: a gateway in
  development mode takes them for the person and the roles they name. The encoding of python-jose is
  a parameter.
\<close>

section \<open>The script\<close>

text \<open>\<open>os.environ.get(name, default)\<close>.\<close>

definition environ_or :: "world \<Rightarrow> string \<Rightarrow> string \<Rightarrow> string" where
  "environ_or w name d = (case w_environ w name of None \<Rightarrow> d | Some v \<Rightarrow> v)"

definition dev_roles :: "world \<Rightarrow> string list" where
  "dev_roles w = filter (\<lambda>r. r \<noteq> []) (split_on CHR '','' (environ_or w ''ROLES'' ''cloud_admin''))"

definition dev_payload :: "world \<Rightarrow> int \<Rightarrow> int \<Rightarrow> int \<Rightarrow> json dict" where
  "dev_payload w ttl issued started =
     (let sub = environ_or w ''SUB'' ''dev-user''; issuer = environ_get w ''JWT_ISSUER''
      in [(''sub'', JStr sub), (''roles'', JList (map JStr (dev_roles w))),
          (''email'', JStr (environ_or w ''EMAIL'' (sub @ ''@example.com''))), (''name'', JStr (environ_or w ''NAME'' sub)),
          (''iat'', JInt issued), (''exp'', JInt (started + ttl)), (''aud'', JStr (environ_or w ''JWT_AUDIENCE'' ''chat-gw''))]
         @ (if issuer \<noteq> [] then [(''iss'', JStr issuer)] else []))"

definition make_dev_token :: "(json dict \<Rightarrow> string \<Rightarrow> string \<Rightarrow> string) \<Rightarrow> world \<Rightarrow> int \<Rightarrow> int \<Rightarrow> string res" where
  "make_dev_token encode w issued started =
     bindE (to_int (JStr (environ_or w ''EXP'' ''3600''))) (\<lambda>ttl.
       Inr (encode (dev_payload w ttl issued started)
              (environ_or w ''JWT_DEV_SECRET'' ''dev-secret-change-me-in-production'')
              (environ_or w ''JWT_DEV_ALGORITHM'' ''HS256'')))"

section \<open>What a gateway in development mode makes of a token\<close>

lemma dev_identity:
  assumes "ad_mode a = Dev" and "w_jwt_unverified_claims w token = JoseOk p"
    and "w_jwt_decode w token (SecretKey (text_or (jwt_dev_secret (ad_settings a)) []))
      (verify_options (ad_settings a) (jwt_dev_algorithm (ad_settings a))) = JoseOk p"
    and "extract_bearer header = Some token" and "rr_claim (ad_resolver a) = ''roles''"
    and "jget p ''sub'' = JStr uid" "uid \<noteq> []" and "jget p ''role'' = JNull"
    and "jget p ''roles'' = JList (map JStr rs)" "rs \<noteq> []"
    and "extract_customer_code p (ad_customer_claim a) = None"
  shows "\<exists>ctx g'. authenticate w a header g = (Inr ctx, g') \<and> user_id ctx = uid \<and> roles ctx = rs \<and> customer_code ctx = None"
proof -
  have "verify w (ad_settings a) (ad_mode a) token g = (Inr p, g)"
    using assms(1-3,8)
    by (simp add: verify_def looks_like_gongdan_customer_def verify_hs256_def catch_jwt_error_def)
  moreover have "normalize (JList (map JStr rs)) = rs"
    by (simp add: comp_def)
  ultimately show ?thesis
    using assms(4-11)
    by (simp add: authenticate_def authenticate_staff_def staff_customer_def resolve_def Let_def py_or_def is_customer_claims_def)
qed

lemma payload_facts:
  "jget (token_payload now rs subject audience issuer ttl) ''sub'' = JStr subject"
  "jget (token_payload now rs subject audience issuer ttl) ''role'' = JNull"
  "jget (token_payload now rs subject audience issuer ttl) ''roles'' = JList (map JStr rs)"
  "jget (dev_payload env ttl issued started) ''sub'' = JStr (environ_or env ''SUB'' ''dev-user'')"
  "jget (dev_payload env ttl issued started) ''role'' = JNull"
  "jget (dev_payload env ttl issued started) ''roles'' = JList (map JStr (dev_roles env))"
  by (simp_all add: token_payload_def dev_payload_def jget_def Let_def)

lemma no_customer_code:
  assumes "jget p ''customer_code'' = JNull" and "jget p ''customerCode'' = JNull"
  shows "extract_customer_code p ''customer_code'' = None"
  by (simp add: extract_customer_code_def code_claim_def assms)

lemma payload_no_code:
  "jget (token_payload now rs subject audience issuer ttl) ''customer_code'' = JNull"
  "jget (token_payload now rs subject audience issuer ttl) ''customerCode'' = JNull"
  "jget (dev_payload env ttl issued started) ''customer_code'' = JNull"
  "jget (dev_payload env ttl issued started) ''customerCode'' = JNull"
  by (simp_all add: token_payload_def dev_payload_def jget_def Let_def)

text \<open>Tokens of the first script, with the secret of the gateway.\<close>

lemma dev_token_accepted:
  assumes "make_dev_token encode env issued started = Inr token" and "to_int (JStr (environ_or env ''EXP'' ''3600'')) = Inr ttl"
    and "ad_mode a = Dev" and "w_jwt_unverified_claims w token = JoseOk (dev_payload env ttl issued started)"
    and "w_jwt_decode w token (SecretKey (text_or (jwt_dev_secret (ad_settings a)) []))
      (verify_options (ad_settings a) (jwt_dev_algorithm (ad_settings a))) = JoseOk (dev_payload env ttl issued started)"
    and "rr_claim (ad_resolver a) = ''roles''" and "ad_customer_claim a = ''customer_code''"
    and "dev_roles env \<noteq> []" "environ_or env ''SUB'' ''dev-user'' \<noteq> []" and "extract_bearer header = Some token"
  shows "\<exists>ctx g'. authenticate w a header g = (Inr ctx, g') \<and> roles ctx = dev_roles env \<and> customer_code ctx = None"
  using dev_identity [OF assms(3,4,5,10,6) payload_facts(4) assms(9) payload_facts(5,6) assms(8), of g]
    no_customer_code [OF payload_no_code(3,4)] assms(7) by auto

text \<open>
  A token of the smoke test, made with the secret of a gateway in development mode, is taken there
  for its subject with exactly the roles it was made for and without a customer code. Of python-jose
  it is assumed that decoding the token with that secret gives back the payload, as it does while
  audience, issuer and expiry fit.
\<close>

lemma minted_token_accepted:
  fixes su secret rs subject audience issuer ttl
  defines "payload \<equiv> token_payload (su_time su) rs subject audience issuer ttl"
    and "token \<equiv> mint_dev_token su secret rs subject audience issuer ttl"
  assumes "ad_mode a = Dev" and "jwt_dev_secret (ad_settings a) = Some secret"
    and "w_jwt_decode w token (SecretKey secret) (verify_options (ad_settings a) (jwt_dev_algorithm (ad_settings a)))
      = JoseOk payload"
    and "w_jwt_unverified_claims w token = JoseOk payload"
    and "rr_claim (ad_resolver a) = ''roles''" and "ad_customer_claim a = ''customer_code''"
    and "rs \<noteq> []" "subject \<noteq> []" and "extract_bearer header = Some token"
  shows "\<exists>ctx g'. authenticate w a header g = (Inr ctx, g') \<and>
    user_id ctx = subject \<and> roles ctx = rs \<and> customer_code ctx = None"
proof -
  have key: "text_or (jwt_dev_secret (ad_settings a)) [] = secret" using assms(4) by (simp add: text_or_def)
  show ?thesis
    using dev_identity [OF assms(3,6) _ assms(11,7), unfolded key, OF assms(5), of subject rs g]
      no_customer_code [OF payload_no_code(1,2)] payload_facts(1-3) assms(8-10)
    by (simp add: payload_def)
qed

end
