(* ===== verification/Spec2Isabelle.thy ===== *)
theory Spec2Isabelle
  imports ProxyTasks CacheTasks JwksTasks System PyJsonRound AuditPages Importer SmokeReads Notify DevToken
begin

text \<open>
  A model of chat-gw, a gateway that lets chat clients call a company's services as MCP tools, and
  proofs about it. The program is Python (FastAPI); paths below are those of the repository.

  \<^bold>\<open>How a request runs.\<close> A client posts JSON-RPC to \<open>/mcp\<close> or to an SSE session. The bearer token
  is turned into an identity (\<open>app/auth\<close>: verification of the JWT, roles from the token, Redis or
  Casdoor, customer codes confirmed by the ticket system \<open>app/external\<close>). The handler (\<open>app/mcp\<close>)
  lists the tools granted to that identity or calls one: it looks it up in the registry
  (\<open>app/registry\<close>, a snapshot of the tables with a lifetime), checks the arguments, and hands the
  call to one of three dispatchers (\<open>app/dispatchers\<close>: HTTP, a remote MCP server, a sandbox); every
  call ends with a row of the audit log (\<open>app/audit\<close>). The admin routes (\<open>app/admin\<close>) change tools
  and grants in transactions and reload the registry, which tells the open streams. A database
  notification (\<open>app/db/notify.py\<close>) does the same. The scripts are modelled as well: the importer
  of tools, the smoke test and the development token.

  \<^bold>\<open>State and effects.\<close> \<open>gw\<close> (GwState) holds the tables, the registry snapshot with the queues of
  its subscribers, the signing keys, the sessions with remote MCP servers, and the trace of
  everything asked of the outside world. An operation takes a \<open>gw\<close> and returns a result and the
  next one. A result is \<open>exn + 'a\<close>, so that every exception and early return is a value. The outside
  world (World) is a function of the trace: clocks, uuids, HTTP, Redis, the sandbox SDK, failures of
  the database; theorems hold for every such function. Third-party code is among its fields:
  python-jose, jsonschema, httpx, the Daytona SDK, the collation of PostgreSQL. The application
  (System) adds the SSE sessions and is a step relation: one request, one turn of a stream, one
  notification, in any order.

  \<^bold>\<open>Theories.\<close>
  \<^item> Prelude, PyFloat, PyJson, PyJsonText, PyJsonRound: exceptions and the error monad, Python
    strings, dictionaries and floats, JSON values with the operations Python has on them, printing
    and parsing JSON with the proof that parsing inverts printing.
  \<^item> World, GwState: the outside world and the state; which operations reach a service
    (\<open>quiet\<close>, \<open>requests\<close>).
  \<^item> Settings (\<open>app/settings\<close>), Sensitive (\<open>app/sensitive.py\<close>), Protocol (\<open>app/mcp/protocol.py\<close>).
  \<^item> Registry (\<open>app/registry\<close>): locale of a catalogue with its listing and lookup, interpreted for the
    snapshot; refresh, lifetimes, subscribers. AuditLog (\<open>app/audit/writer.py\<close>).
  \<^item> Jwks, JwtVerify, Roles, Gongdan, Authenticate (\<open>app/auth\<close>, \<open>app/external\<close>): what must have happened
    before an identity or a role is given.
  \<^item> DispatchBase (locales \<open>dispatcher\<close> and \<open>status_map\<close>), HttpAdapter, McpProxy, Daytona: the three
    dispatchers, each an interpretation of the locales. Failures extends the locale by the table of
    failures and shows what an answer to a tool call can look like.
  \<^item> Locks, ProxyTasks, CacheTasks, JwksTasks: what runs side by side. Locks has \<open>asyncio.Lock\<close> and the
    locale \<open>guarded\<close> of tasks that enter a section only through a lock; it is interpreted for the
    session locks of the MCP proxy, the lock of the registry snapshot and that of the signing keys.
    The three others cut the operations of McpProxy, Registry and Jwks at every \<open>await\<close>: a schedule (a
    list of actions) says which task goes on and which is cancelled, and when others commit. Each
    shows that tasks run one by one do what the sequential model says.
  \<^item> Handler, Gateway (\<open>app/mcp/handler.py\<close>, \<open>app/dispatchers/registry.py\<close>): every method and every
    branch of a call; locale \<open>backend\<close> for what the handler needs of its dispatchers.
  \<^item> SseText, Transport (\<open>app/mcp/streamable.py\<close>, \<open>app/mcp/sse.py\<close>, \<open>app/api/errors.py\<close>), Health
    (\<open>app/api/health.py\<close>).
  \<^item> AdminTools, AdminGrants, Cursor, AdminAudit, AuditPages, Admin, AdminEffects (\<open>app/admin\<close>): each
    request as a transaction; its effect on the tables as a function (\<open>admin_effect\<close>) that the handler
    refines.
    Cursor has the text of an audit cursor, with what it uses of base64, UTF-8 and dates; AuditPages
    follows cursors while the log grows.
  \<^item> System (\<open>app/main.py\<close>): startup, steps, shutdown. Notify (\<open>app/db/notify.py\<close>): the DSN and the
    task of the listener as a step relation.
  \<^item> Importer (\<open>scripts/import_cloudcost_tools.py\<close>), Smoke and SmokeReads
    (\<open>scripts/smoke_integrations.py\<close>, and the same against this gateway), DevToken
    (\<open>scripts/make_dev_token.py\<close>, and what a gateway makes of the tokens of the scripts).
  \<^item> Spec2Isabelle: invariants of the reachable states and properties across components.

  \<^bold>\<open>What is shown.\<close> Safety of access: a service is reached only by a call of someone granted the tool;
  identities, roles and customer codes come only from verified tokens and confirmations; only
  administrators change tools and grants; a refused call tells nothing. Accountability: every call
  leaves one audit entry that agrees with its answer, and rows are never removed. Registry: a
  listing is what the tables grant, now or at a snapshot within its lifetime; a change by an
  administrator holds for the next lookup, and streams hear of it. Dispatchers: retries, headers,
  sessions per identity, at most one run of code per call and the attempts to delete its sandbox. Side by side: one handshake per session at a time and
  one session for all calls, whose id is that of a handshake, no invocation waits for ever, a reload after a change is never lost to
  an older load, one request for keys per lookup. Transports: one answer per message, in order, and
  texts that read back. Admin: all or nothing, consistent tables, complete pages. Scripts: what the
  importer lets through, exactly which statements it writes for it, and that their literals read back
  with any reader that treats quotes as PostgreSQL documents; which tools of a listing the smoke test
  calls and how it reads the answers. Where the code does not do what its comments or documents say, the lemma states what
  it does.

  \<^bold>\<open>Bounds.\<close> The scanner of JSON takes fuel \<open>2 * length + 2\<close>; lemma \<open>scan_fuel_all\<close> shows that more
  changes nothing, since every level consumes text. The retries of the HTTP dispatcher, the search
  for a dollar-quote tag, the splitting of lines and the years of a date end by measures; the pages
  of the audit query take at most one request more than there are rows. Queues
  have their bounds of 16 events and of the size of an SSE queue.

  \<^bold>\<open>Limits of the model.\<close> Texts are UTF-8 bytes; case mapping and white space are those of ASCII, and a
  byte above 127 counts as part of a word in a template. Whole requests (Handler, System) run one
  after the other; interleavings are considered for the operations that take a lock, each by itself.
  Clocks are rationals; a date is its microseconds since 1970, and the answers of the admin routes
  hold it so. A number of an id sequence is used up only by a statement that succeeds. NUL characters, which PostgreSQL refuses, are not
  treated (the literals of the importer exclude them); request bodies are UTF-8. There is one process. URLs are read without the control
  character and bracket checks of \<open>urllib\<close>.

  \<^bold>\<open>Not modelled.\<close> FastAPI and Pydantic beyond the types they let through (routing, OpenAPI,
  the dates among the filters of the audit query and in answers), SQLAlchemy and its engine (\<open>app/db/engine.py\<close>, calls into
  the library), logging, the argument parsers and the standard error of the scripts, and the SQL of
  the migrations.
\<close>

section \<open>Properties of the whole\<close>

text \<open>
  C25: from a startup on tables that keep their constraints, and after any requests, stream turns and
  notifications in any order, the tables keep them, the registry is consistent, no queue exceeds its
  bound, and every open SSE session belongs to an identity that was authenticated.
\<close>

theorem reachable_ok:
  assumes "lifespan w s d = Inr (a, x0)" and "db_ok d" and "(step w s a)\<^sup>*\<^sup>* x0 x"
  shows "app_ok w a x"
  using assms(3)
proof (induction rule: rtranclp_induct)
  case base
  then show ?case using lifespan_ok [OF assms(1,2)] by simp
next
  case (step y z)
  then show ?case using step_ok by blast
qed

lemma sample_lifespan:
  obtains x0 where "lifespan admin_world both_settings sample_db = Inr (admin_deps, x0)"
proof -
  have "assert_production_ready both_settings = Inr ()" by code_simp
  moreover have "\<not> isl (auth_deps_of both_settings)" by code_simp
  then have "auth_deps_of both_settings = Inr admin_deps"
    by (cases "auth_deps_of both_settings") (simp_all add: admin_deps_def)
  ultimately show thesis using that by (simp add: lifespan_def)
qed

lemma reachable_ok_witness:
  "\<exists>x0 y. lifespan admin_world both_settings sample_db = Inr (admin_deps, x0) \<and>
     step admin_world both_settings admin_deps x0 y \<and> app_ok admin_world admin_deps y"
proof -
  obtain x0 where x0: "lifespan admin_world both_settings sample_db = Inr (admin_deps, x0)" by (rule sample_lifespan)
  have ok: "db_ok sample_db" using sample_gw_ok by (simp add: gw_ok_def sample_gw_def)
  let ?y = "x0\<lparr>ap_gw := snd (admin admin_world admin_deps root_header root_grants (ap_gw x0))\<rparr>"
  have step: "step admin_world both_settings admin_deps x0 ?y"
    by (rule step.administer [OF surjective_pairing])
  then have "(step admin_world both_settings admin_deps)\<^sup>*\<^sup>* x0 ?y" by (rule r_into_rtranclp)
  from reachable_ok [OF x0 ok this] x0 step show ?thesis by blast
qed

text \<open>
  C27: the audit log is append-only: whatever happens, the rows there are stay, in order, and no row
  of a call that was only allowed, and not finished, is ever added.
\<close>

theorem audit_append_only:
  assumes "(step w s a)\<^sup>*\<^sup>* x y"
  shows "\<exists>rows. db_audit (g_db (ap_gw y)) = db_audit (g_db (ap_gw x)) @ rows \<and> (\<forall>r \<in> set rows. a_status r \<noteq> Allowed)"
  using assms
proof (induction rule: rtranclp_induct)
  case (step y z)
  have "\<exists>rows. db_audit (g_db (ap_gw z)) = db_audit (g_db (ap_gw y)) @ rows \<and> (\<forall>r \<in> set rows. a_status r \<noteq> Allowed)"
    using step.hyps(2)
  proof (cases rule: step_served)
    case (administered header req)
    then show ?thesis using admin_audit [of w a header req "ap_gw y"] by simp
  next
    case other
    then show ?thesis by (simp add: served_def logged_def)
  qed
  with step.IH show ?case by (metis (no_types, lifting) Un_iff append.assoc set_append)
qed simp

lemma audit_append_only_witness:
  "\<exists>rows. db_audit (g_db (on_tools_changed sample_world sample_gw)) = db_audit sample_db @ rows"
proof -
  let ?x = "\<lparr>ap_sessions = [], ap_gw = sample_gw\<rparr>"
  have "step sample_world default_settings a ?x (?x\<lparr>ap_gw := on_tools_changed sample_world (ap_gw ?x)\<rparr>)" for a
    by (rule step.notified)
  then have "(step sample_world default_settings a)\<^sup>*\<^sup>* ?x (?x\<lparr>ap_gw := on_tools_changed sample_world (ap_gw ?x)\<rparr>)" for a
    by (rule r_into_rtranclp)
  from audit_append_only [OF this] show ?thesis by (auto simp: sample_gw_def)
qed

text \<open>
  C26: of all there is, only a request to the admin routes by a caller with the role cloud_admin
  changes tools or grants; messages, tool calls, streams and notifications never do.
\<close>

theorem only_admins_change_tools:
  assumes "step w s a x y"
    and "(db_tools (g_db (ap_gw y)), db_role_grants (g_db (ap_gw y)), db_customer_grants (g_db (ap_gw y))) \<noteq>
      (db_tools (g_db (ap_gw x)), db_role_grants (g_db (ap_gw x)), db_customer_grants (g_db (ap_gw x)))"
  shows "\<exists>header req ctx g1. authenticate w a header (ap_gw x) = (Inr ctx, g1) \<and> ''cloud_admin'' \<in> set (roles ctx) \<and>
    admin_valid req \<and> ap_gw y = snd (admin w a header req (ap_gw x))"
  using assms(1)
proof (cases rule: step_served)
  case (administered header req)
  then show ?thesis
    using assms(2)
    by (cases rule: admin_cases [of w a header "ap_gw x" req]) (use authenticate_tables in fastforce)+
next
  case other
  then have eq: "(g_db (ap_gw y))\<lparr>db_audit := [], db_audit_seq := 0\<rparr> = (g_db (ap_gw x))\<lparr>db_audit := [], db_audit_seq := 0\<rparr>"
    by (simp add: served_def logged_def)
  have "db_tools (g_db (ap_gw y)) = db_tools (g_db (ap_gw x))"
    "db_role_grants (g_db (ap_gw y)) = db_role_grants (g_db (ap_gw x))"
    "db_customer_grants (g_db (ap_gw y)) = db_customer_grants (g_db (ap_gw x))"
    using arg_cong [OF eq, of db_tools] arg_cong [OF eq, of db_role_grants] arg_cong [OF eq, of db_customer_grants] by simp_all
  with assms(2) show ?thesis by simp
qed

lemma only_admins_change_tools_witness:
  "\<exists>header ctx g1. authenticate admin_world admin_deps header sample_gw = (Inr ctx, g1) \<and> ''cloud_admin'' \<in> set (roles ctx)"
proof (rule root_granted)
  fix g'
  let ?x = "\<lparr>ap_sessions = [], ap_gw = sample_gw\<rparr>"
  assume run: "admin admin_world admin_deps root_header root_grants sample_gw =
    (JsonReply 200 (JObj [(''role'', JStr ''cloud_ops''), (''tool_name'', JStr ''echo''), (''granted'', JBool True)]), g')"
    and two: "length (db_role_grants (g_db g')) = 2"
  have "step admin_world both_settings admin_deps ?x (?x\<lparr>ap_gw := g'\<rparr>)"
    by (rule step.administer [where header = root_header and req = root_grants]) (simp add: run)
  moreover have "db_role_grants (g_db g') \<noteq> db_role_grants (g_db sample_gw)"
    using two by (auto simp: sample_gw_def sample_db_def)
  ultimately show ?thesis using only_admins_change_tools [of admin_world both_settings admin_deps ?x "?x\<lparr>ap_gw := g'\<rparr>"]
    by (auto simp del: prod.inject)
qed

text \<open>
  C29: a client that listens on GET /mcp hears of every change of a grant: when the database answers,
  the next turn of its stream after the administrator's request sends list_changed.
\<close>

theorem streams_hear_of_grants:
  assumes "db_up w" and "gw_ok g" and "authenticate w a header g = (Inr ctx, g1)" and "''cloud_admin'' \<in> set (roles ctx)"
    and "admin_valid req" and "principal_of req = Some (rs, c)" and "t \<in> set (db_tools (g_db g))" and "t_enabled t"
    and "tool_named req = t_name t" and "admin w a header req g = (rep, g')"
    and "n \<in> fst ` set (tc_subscribers (g_cache g))"
  shows "fst (stream_next n g') = Some (sse_event ''message'' list_changed)"
proof -
  obtain g2 where "g' = refresh_registry w g2" "g_cache g2 = g_cache g"
    by (rule grant_route_up [OF assms(1-10)])
  then have "fst (take_event n g') \<noteq> None" using refresh_event [OF assms(1), of n g2] assms(11) by simp
  then show ?thesis by (cases "take_event n g'") (auto simp: stream_next_def)
qed

lemma streams_hear_of_grants_witness:
  "fst (stream_next 0 (snd (admin admin_world admin_deps root_header root_grants (snd (subscribe sample_gw))))) =
     Some (sse_event ''message'' list_changed)"
proof -
  let ?g = "snd (subscribe sample_gw)"
  obtain ctx g1 where known: "authenticate admin_world admin_deps root_header ?g = (Inr ctx, g1)"
    and role: "''cloud_admin'' \<in> set (roles ctx)"
    using root_known by blast
  have ok: "gw_ok ?g" using served_subscribe [of sample_gw] sample_gw_ok by (simp add: served_def)
  have sub: "g_db ?g = sample_db" "0 \<in> fst ` set (tc_subscribers (g_cache ?g))"
    by (simp_all add: subscribe_def sample_gw_def Let_def)
  have t: "sample_tool \<in> set (db_tools (g_db ?g))" unfolding sub(1) by (simp add: sample_db_def)
  have req: "admin_valid root_grants" "principal_of root_grants = Some ([''cloud_ops''], None)" "t_enabled sample_tool"
    "tool_named root_grants = t_name sample_tool"
    unfolding root_grants_def sample_tool_def by (code_simp, simp_all)
  show ?thesis
    by (rule streams_hear_of_grants [OF sample_up ok known role req(1,2) t req(3,4) surjective_pairing sub(2)])
qed

end
